(* ===== verification/Prelude.thy ===== *)
theory Prelude
  imports Main "HOL-Library.Word"
begin

text \<open>
  Shared vocabulary of the development: bytes, fixed-width integers and their big-endian
  encodings, strings as byte sequences, results with an error side, and the generic lemmas
  on lists, options and powers of two that the component theories use.

  Conventions. A Rust \<open>[u8]\<close> or \<open>Vec<u8>\<close> is a list of 8-bit words. A \<open>u32\<close> or \<open>u64\<close>
  whose width matters (it is encoded, or it may wrap) is a word; a \<open>usize\<close> that only
  counts or indexes a slice is a \<open>nat\<close>. An \<open>i64\<close> is an \<open>int\<close>. A \<open>String\<close> is a list of
  characters, which in Isabelle are bytes, so its length is the byte length of the UTF-8
  text, as \<open>str::len\<close> counts. \<open>Result<T, E>\<close> is \<open>E + T\<close> with the error on the left.
\<close>

type_synonym byte = "8 word"
type_synonym bytes = "byte list"
type_synonym u16 = "16 word"
type_synonym u32 = "32 word"
type_synonym u64 = "64 word"
type_synonym i64 = int

named_theorems codec_simps \<open>rewrite rules for encoders and decoders\<close>

subsection \<open>Strings as bytes\<close>

definition byte_of_char :: "char \<Rightarrow> byte" where
  "byte_of_char c = word_of_nat (of_char c)"

definition char_of_byte :: "byte \<Rightarrow> char" where
  "char_of_byte b = char_of (unat b)"

definition as_bytes :: "string \<Rightarrow> bytes" where
  "as_bytes s = map byte_of_char s"

lemma of_char_less_256: "(of_char c :: nat) < 256"
  by (metis of_char_mod_256 mod_less_divisor zero_less_numeral)

lemma byte_of_char_of_byte [simp]: "byte_of_char (char_of_byte b) = b"
proof -
  have "unat b < 256" using unsigned_less [of b] by simp
  then have "of_char (char_of (unat b) :: char) = unat b" by simp
  then show ?thesis by (simp add: char_of_byte_def byte_of_char_def)
qed

lemma char_of_byte_of_char [simp]: "char_of_byte (byte_of_char c) = c"
  using of_char_less_256 [of c]
  by (simp add: char_of_byte_def byte_of_char_def unat_of_nat)

lemma inj_byte_of_char: "inj byte_of_char"
  by (metis char_of_byte_of_char injI)

lemma as_bytes_inject [simp]: "as_bytes s = as_bytes t \<longleftrightarrow> s = t"
  by (simp add: as_bytes_def inj_byte_of_char inj_map_eq_map)

lemma length_as_bytes [simp]: "length (as_bytes s) = length s"
  by (simp add: as_bytes_def)

subsection \<open>Big-endian encodings\<close>

text \<open>\<open>be_bytes n w\<close> is the \<open>n\<close> low bytes of \<open>w\<close>, most significant first:
  \<open>u32::to_be_bytes\<close> for \<open>n = 4\<close>, \<open>u64::to_be_bytes\<close> for \<open>n = 8\<close>.\<close>

definition be_bytes :: "nat \<Rightarrow> 'a::len word \<Rightarrow> bytes" where
  "be_bytes n w = map (\<lambda>i. ucast (drop_bit (8 * i) w)) (rev [0..<n])"

text \<open>\<open>from_be_bytes\<close> reads a big-endian byte string back.\<close>

definition from_be_bytes :: "bytes \<Rightarrow> 'a::len word" where
  "from_be_bytes bs = foldl (\<lambda>acc b. push_bit 8 acc + ucast b) 0 bs"

lemma length_be_bytes [simp]: "length (be_bytes n w) = n"
  by (simp add: be_bytes_def)

lemma nth_be_bytes: "i < n \<Longrightarrow> be_bytes n w ! (n - 1 - i) = ucast (drop_bit (8 * i) w)"
  by (simp add: be_bytes_def rev_nth)

lemma be_bytes_inject:
  assumes "LENGTH('a) \<le> 8 * n"
  shows "be_bytes n (v :: 'a::len word) = be_bytes n w \<longleftrightarrow> v = w"
proof
  assume eq: "be_bytes n v = be_bytes n w"
  show "v = w"
  proof (rule bit_word_eqI)
    fix k assume k: "k < LENGTH('a)"
    define i where "i = k div 8"
    have i: "i < n" using k assms by (simp add: i_def less_mult_imp_div_less)
    have "(ucast (drop_bit (8 * i) v) :: byte) = ucast (drop_bit (8 * i) w)"
      using nth_be_bytes [OF i, of v] nth_be_bytes [OF i, of w] eq by simp
    then have "bit (ucast (drop_bit (8 * i) v) :: byte) (k mod 8)
        = bit (ucast (drop_bit (8 * i) w) :: byte) (k mod 8)" by simp
    moreover have "8 * i + k mod 8 = k" by (simp add: i_def)
    ultimately show "bit v k = bit w k"
      by (simp add: bit_simps)
  qed
qed simp

lemmas be_bytes_inject_u32 [simp] = be_bytes_inject [where 'a = 32 and n = 4, simplified]
lemmas be_bytes_inject_u64 [simp] = be_bytes_inject [where 'a = 64 and n = 8, simplified]

subsection \<open>Results\<close>

text \<open>The early return of the \<open>?\<close> operator: an error stops the computation.\<close>

definition bind_res :: "'e + 'a \<Rightarrow> ('a \<Rightarrow> 'e + 'b) \<Rightarrow> 'e + 'b" where
  "bind_res r f = (case r of Inl e \<Rightarrow> Inl e | Inr x \<Rightarrow> f x)"

definition map_err :: "('e \<Rightarrow> 'f) \<Rightarrow> 'e + 'a \<Rightarrow> 'f + 'a" where
  "map_err h r = (case r of Inl e \<Rightarrow> Inl (h e) | Inr x \<Rightarrow> Inr x)"

lemma bind_res_simps [simp]:
  "bind_res (Inl e) f = Inl e"
  "bind_res (Inr x) f = f x"
  by (simp_all add: bind_res_def)

lemma map_err_simps [simp]:
  "map_err h (Inl e) = Inl (h e)"
  "map_err h (Inr x) = Inr x"
  by (simp_all add: map_err_def)

lemma bind_res_eq_Inr: "bind_res r f = Inr y \<longleftrightarrow> (\<exists>x. r = Inr x \<and> f x = Inr y)"
  by (cases r) auto

lemma map_err_eq_Inr [simp]: "map_err h r = Inr x \<longleftrightarrow> r = Inr x"
  by (cases r) auto

text \<open>\<open>iter().map(f).collect::<Result<Vec<_>>>()\<close>: the first error wins.\<close>

fun map_res :: "('a \<Rightarrow> 'e + 'b) \<Rightarrow> 'a list \<Rightarrow> 'e + 'b list" where
  "map_res f [] = Inr []"
| "map_res f (x # xs) =
     (case f x of Inl e \<Rightarrow> Inl e
      | Inr y \<Rightarrow> (case map_res f xs of Inl e \<Rightarrow> Inl e | Inr ys \<Rightarrow> Inr (y # ys)))"

lemma map_res_map: "(\<And>x. x \<in> set xs \<Longrightarrow> f (g x) = Inr (h x)) \<Longrightarrow> map_res f (map g xs) = Inr (map h xs)"
  by (induction xs) auto

lemma map_res_total:
  "(\<And>x. x \<in> set xs \<Longrightarrow> \<exists>y. f x = Inr y \<and> Q y) \<Longrightarrow> \<exists>ys. map_res f xs = Inr ys \<and> (\<forall>y \<in> set ys. Q y)"
proof (induction xs)
  case (Cons x xs)
  obtain y where y: "f x = Inr y" "Q y" using Cons.prems [of x] by auto
  obtain ys where "map_res f xs = Inr ys" "\<forall>y \<in> set ys. Q y" using Cons.IH Cons.prems by force
  with y have "map_res f (x # xs) = Inr (y # ys) \<and> (\<forall>y \<in> set (y # ys). Q y)" by simp
  then show ?case by blast
qed simp

lemma map_res_Inr_iff: "map_res f xs = Inr ys \<longleftrightarrow> list_all2 (\<lambda>x y. f x = Inr y) xs ys"
proof (induction xs arbitrary: ys)
  case (Cons x xs)
  show ?case
  proof (cases "map_res f xs")
    case (Inl e)
    with Cons.IH show ?thesis by (cases "f x") (auto simp: list_all2_Cons1)
  next
    case (Inr zs)
    have "list_all2 (\<lambda>x y. f x = Inr y) xs ys' \<longleftrightarrow> ys' = zs" for ys'
      using Cons.IH [of ys'] Inr by auto
    with Inr show ?thesis by (cases "f x") (auto simp: list_all2_Cons1)
  qed
qed auto

subsection \<open>Decimal formatting\<close>

text \<open>\<open>format!("{}", n)\<close> for unsigned and signed integers.\<close>

fun show_nat :: "nat \<Rightarrow> string" where
  "show_nat n = (if n < 10 then [char_of (48 + n)] else show_nat (n div 10) @ [char_of (48 + n mod 10)])"

declare show_nat.simps [simp del]

definition show_int :: "int \<Rightarrow> string" where
  "show_int i = (if i < 0 then ''-'' @ show_nat (nat (- i)) else show_nat (nat i))"

definition show_u64 :: "u64 \<Rightarrow> string" where
  "show_u64 w = show_nat (unat w)"

text \<open>\<open>str::parse::<i64>()\<close>: an optional sign, at least one decimal digit, in range.\<close>

definition digit_of :: "char \<Rightarrow> nat option" where
  "digit_of c = (let n = of_char c in if 48 \<le> n \<and> n \<le> 57 then Some (n - 48) else None)"

fun parse_digits :: "nat \<Rightarrow> string \<Rightarrow> nat option" where
  "parse_digits acc [] = Some acc"
| "parse_digits acc (c # cs) = (case digit_of c of None \<Rightarrow> None | Some d \<Rightarrow> parse_digits (10 * acc + d) cs)"

definition parse_nat :: "string \<Rightarrow> nat option" where
  "parse_nat s = (if s = [] then None else parse_digits 0 s)"

definition parse_i64 :: "string \<Rightarrow> i64 option" where
  "parse_i64 s =
     (let (neg, ds) = (case s of c # r \<Rightarrow> if c = CHR ''-'' then (True, r) else if c = CHR ''+'' then (False, r) else (False, s)
                       | [] \<Rightarrow> (False, []))
      in case parse_nat ds of
           None \<Rightarrow> None
         | Some n \<Rightarrow> if neg then (if n \<le> 2 ^ 63 then Some (- int n) else None)
                     else if n < 2 ^ 63 then Some (int n) else None)"

lemma digit_of_char [simp]: "n < 10 \<Longrightarrow> digit_of (char_of (48 + n)) = Some n"
  by (simp add: digit_of_def Let_def)

lemma parse_digits_append:
  "parse_digits acc (s @ t) = (case parse_digits acc s of None \<Rightarrow> None | Some a \<Rightarrow> parse_digits a t)"
  by (induction acc s rule: parse_digits.induct) (auto split: option.splits)

lemma show_nat_ne [simp]: "show_nat n \<noteq> []"
  by (subst show_nat.simps) simp

lemma parse_digits_show: "parse_digits 0 (show_nat n) = Some n"
proof (induction n rule: show_nat.induct)
  case (1 n)
  show ?case
  proof (cases "n < 10")
    case True
    then show ?thesis by (subst show_nat.simps) simp
  next
    case False
    then have "parse_digits 0 (show_nat (n div 10)) = Some (n div 10)" using 1 by simp
    with False show ?thesis by (subst show_nat.simps) (simp add: parse_digits_append)
  qed
qed

lemma parse_nat_show [simp]: "parse_nat (show_nat n) = Some n"
  by (simp add: parse_nat_def parse_digits_show)

lemma parse_digits_chars: "parse_digits acc s = Some n \<Longrightarrow> c \<in> set s \<Longrightarrow> digit_of c \<noteq> None"
  by (induction acc s arbitrary: n rule: parse_digits.induct) (auto split: option.splits)

lemma show_nat_digits: "c \<in> set (show_nat n) \<Longrightarrow> digit_of c \<noteq> None"
  using parse_digits_chars [OF parse_digits_show] .

lemma hd_show_nat: "show_nat n = c # r \<Longrightarrow> c \<noteq> CHR ''-'' \<and> c \<noteq> CHR ''+''"
  using show_nat_digits [of c n] by (auto simp: digit_of_def)

lemma parse_i64_show_int: "- (2 ^ 63) \<le> i \<Longrightarrow> i < 2 ^ 63 \<Longrightarrow> parse_i64 (show_int i) = Some i"
proof (cases "i < 0")
  case False
  assume "i < 2 ^ 63"
  then have "nat i < 2 ^ 63" using False by (simp add: nat_less_iff)
  moreover obtain c r where "show_nat (nat i) = c # r" by (cases "show_nat (nat i)") auto
  ultimately show ?thesis
    using False hd_show_nat [of "nat i" c r] parse_nat_show [of "nat i"] by (simp add: parse_i64_def show_int_def)
next
  case True
  assume "- (2 ^ 63) \<le> i"
  then have "nat (- i) \<le> 2 ^ 63" using True by (simp add: nat_le_iff)
  with True show ?thesis using parse_nat_show [of "nat (- i)"] by (simp add: parse_i64_def show_int_def)
qed

lemma inj_show_nat: "show_nat m = show_nat n \<longleftrightarrow> m = n"
  by (metis option.inject parse_nat_show)

lemma show_int_inject [simp]: "show_int i = show_int j \<longleftrightarrow> i = j"
proof
  assume eq: "show_int i = show_int j"
  obtain c r where i: "show_nat (nat i) = c # r" by (cases "show_nat (nat i)") auto
  obtain d q where j: "show_nat (nat j) = d # q" by (cases "show_nat (nat j)") auto
  show "i = j"
    using eq hd_show_nat [OF i] hd_show_nat [OF j] i j inj_show_nat [of "nat i" "nat j"] inj_show_nat [of "nat (- i)" "nat (- j)"]
    by (auto simp: show_int_def split: if_splits)
qed simp

lemma show_int_chars: "c \<in> set (show_int i) \<Longrightarrow> digit_of c \<noteq> None \<or> c = CHR ''-''"
  using show_nat_digits by (auto simp: show_int_def split: if_splits)

subsection \<open>Wrapping and saturating arithmetic\<close>

text \<open>In a release build \<open>i64\<close> arithmetic wraps; \<open>wrap_i64\<close> reduces a mathematical result to the range.\<close>

definition wrap_i64 :: "int \<Rightarrow> i64" where
  "wrap_i64 i = (i + 2 ^ 63) mod 2 ^ 64 - 2 ^ 63"

lemma wrap_i64_id: "- (2 ^ 63) \<le> i \<Longrightarrow> i < 2 ^ 63 \<Longrightarrow> wrap_i64 i = i"
  by (simp add: wrap_i64_def)

lemma wrap_i64_high: "2 ^ 63 \<le> i \<Longrightarrow> i < 2 ^ 64 + 2 ^ 63 \<Longrightarrow> wrap_i64 i = i - 2 ^ 64"
proof -
  assume a: "2 ^ 63 \<le> i" "i < 2 ^ 64 + 2 ^ 63"
  have "(i + 2 ^ 63) mod 2 ^ 64 = ((i - 2 ^ 63) + 2 ^ 64) mod 2 ^ 64" by (rule arg_cong [where f = "\<lambda>x. x mod 2 ^ 64"]) simp
  also have "\<dots> = (i - 2 ^ 63) mod 2 ^ 64" by (rule mod_add_self2)
  also have "\<dots> = i - 2 ^ 63" using a by (intro mod_pos_pos_trivial) simp_all
  finally show ?thesis by (simp add: wrap_i64_def)
qed

text \<open>\<open>u64::saturating_add\<close> and \<open>saturating_sub\<close>, on the values.\<close>

definition sat_add :: "nat \<Rightarrow> nat \<Rightarrow> nat \<Rightarrow> nat" where
  "sat_add w a b = min (a + b) (2 ^ w - 1)"

subsection \<open>Powers of two\<close>

lemma power_two_sandwich_unique:
  assumes "2 ^ i < (n :: nat)" "n \<le> 2 ^ Suc i" "2 ^ j < n" "n \<le> 2 ^ Suc j"
  shows "i = j"
proof (rule ccontr)
  assume "i \<noteq> j"
  then consider "Suc i \<le> j" | "Suc j \<le> i" by linarith
  then show False
  proof cases
    case 1
    then have "(2::nat) ^ Suc i \<le> 2 ^ j" by (rule power_increasing) simp
    with assms show False by simp
  next
    case 2
    then have "(2::nat) ^ Suc j \<le> 2 ^ i" by (rule power_increasing) simp
    with assms show False by simp
  qed
qed

end
