(* ===== verification/Vlog_Merkle.thy ===== *)
theory Vlog_Merkle
  imports Prelude "HOL-Library.While_Combinator"
begin

text \<open>
  The RFC 6962 Merkle tree of \<open>verifiable-log/src/hash.rs\<close> and \<open>verifiable-log/src/merkle.rs\<close>:
  domain-separated leaf and node hashes, the Merkle tree hash, audit and consistency paths,
  and the two RFC 9162 verifiers, which walk a path bottom-up with shifts of the leaf index.

  SHA-256 comes from the \<open>sha2\<close> crate, so it is the parameter \<open>sha\<close> of every definition.
  The only fact about it that is ever assumed is that its digests have 32 bytes, and, in the
  soundness theorems, that it has no collision among the finitely many messages that the
  tree and the verifier hash (\<^emph>\<open>not\<close> that it is injective, which no hash function is).
\<close>

section \<open>Hashing (hash.rs)\<close>

type_synonym hash = bytes

definition LEAF_PREFIX :: byte where "LEAF_PREFIX = 0"

definition NODE_PREFIX :: byte where "NODE_PREFIX = 1"

definition empty_root :: "(bytes \<Rightarrow> hash) \<Rightarrow> hash" where
  "empty_root sha = sha []"

definition leaf_hash :: "(bytes \<Rightarrow> hash) \<Rightarrow> bytes \<Rightarrow> hash" where
  "leaf_hash sha entry_bytes = sha ([LEAF_PREFIX] @ entry_bytes)"

definition node_hash :: "(bytes \<Rightarrow> hash) \<Rightarrow> hash \<Rightarrow> hash \<Rightarrow> hash" where
  "node_hash sha left right = sha ([NODE_PREFIX] @ left @ right)"

section \<open>Tree hash and proof generation (merkle.rs)\<close>

text \<open>\<open>let mut k = 1; while k << 1 < n { k <<= 1; } k\<close>\<close>

definition largest_power_of_two_below :: "nat \<Rightarrow> nat" where
  "largest_power_of_two_below n = while (\<lambda>k. 2 * k < n) (\<lambda>k. 2 * k) 1"

lemma largest_power_of_two_below_power:
  "\<exists>j. largest_power_of_two_below n = 2 ^ j \<and> (n \<ge> 2 \<longrightarrow> 2 ^ j < n) \<and> n \<le> 2 ^ Suc j"
  unfolding largest_power_of_two_below_def
proof (rule while_rule [where P = "\<lambda>k. (\<exists>j. k = 2 ^ j) \<and> (n \<ge> 2 \<longrightarrow> k < n)"
      and r = "measure (\<lambda>k. n - k)"])
  show "(\<exists>j. 1 = (2::nat) ^ j) \<and> (n \<ge> 2 \<longrightarrow> 1 < n)"
    by (auto intro: exI [of _ 0])
next
  fix k assume "(\<exists>j. k = 2 ^ j) \<and> (n \<ge> 2 \<longrightarrow> k < n)" "2 * k < n"
  then show "(\<exists>j. 2 * k = 2 ^ j) \<and> (n \<ge> 2 \<longrightarrow> 2 * k < n)"
    by (metis power_Suc)
next
  fix k assume k: "(\<exists>j. k = 2 ^ j) \<and> (n \<ge> 2 \<longrightarrow> k < n)" "2 * k < n"
  then have "0 < k" by auto
  with k(2) show "(2 * k, k) \<in> measure (\<lambda>k. n - k)" by simp
qed auto

lemma lpt_less [simp]: "n \<ge> 2 \<Longrightarrow> largest_power_of_two_below n < n"
  using largest_power_of_two_below_power [of n] by auto

lemma lpt_pos [simp]: "0 < largest_power_of_two_below n"
  using largest_power_of_two_below_power [of n] by auto

lemma lpt_diff_less: "\<not> n \<le> Suc 0 \<Longrightarrow> n - largest_power_of_two_below n < n"
  using lpt_pos [of n] by linarith

lemma list_length_ge_2: "xs \<noteq> [] \<Longrightarrow> length xs \<noteq> Suc 0 \<Longrightarrow> \<not> length xs \<le> Suc 0"
  by (cases xs) auto

lemma lpt_list_less:
  "xs \<noteq> [] \<Longrightarrow> length xs \<noteq> Suc 0 \<Longrightarrow> largest_power_of_two_below (length xs) < length xs"
  using list_length_ge_2 [of xs] by simp

lemma lpt_eqI: "2 ^ j < n \<Longrightarrow> n \<le> 2 ^ Suc j \<Longrightarrow> largest_power_of_two_below n = 2 ^ j"
proof -
  assume a: "2 ^ j < n" "n \<le> 2 ^ Suc j"
  then have "n \<ge> 2" using one_le_power [of "2::nat" j] by linarith
  with largest_power_of_two_below_power [of n] obtain i
    where "largest_power_of_two_below n = 2 ^ i" "2 ^ i < n" "n \<le> 2 ^ Suc i" by auto
  with a show ?thesis using power_two_sandwich_unique by blast
qed

function root_hash :: "(bytes \<Rightarrow> hash) \<Rightarrow> hash list \<Rightarrow> hash" where
  "root_hash sha leaves =
     (if length leaves = 0 then empty_root sha
      else if length leaves = 1 then leaves ! 0
      else let k = largest_power_of_two_below (length leaves)
           in node_hash sha (root_hash sha (take k leaves)) (root_hash sha (drop k leaves)))"
  by pat_completeness auto
termination
  by (relation "measure (\<lambda>(sha, leaves). length leaves)")
    (auto simp: lpt_list_less lpt_diff_less list_length_ge_2 min_less_iff_disj)

function inclusion_path :: "(bytes \<Rightarrow> hash) \<Rightarrow> nat \<Rightarrow> hash list \<Rightarrow> hash list" where
  "inclusion_path sha index leaves =
     (if length leaves \<le> 1 then []
      else let k = largest_power_of_two_below (length leaves)
           in if index < k
              then inclusion_path sha index (take k leaves) @ [root_hash sha (drop k leaves)]
              else inclusion_path sha (index - k) (drop k leaves) @ [root_hash sha (take k leaves)])"
  by pat_completeness auto
termination
  by (relation "measure (\<lambda>(sha, index, leaves). length leaves)")
    (auto simp: lpt_diff_less min_less_iff_disj)

text \<open>\<open>SUBPROOF\<close>. The value \<open>None\<close> is a call that does not return a path: it slices out
  of range, or (for \<open>m = 0\<close>) recurses without end.\<close>

partial_function (option) subproof ::
  "(bytes \<Rightarrow> hash) \<Rightarrow> nat \<Rightarrow> hash list \<Rightarrow> bool \<Rightarrow> hash list option" where
  "subproof sha m leaves b =
     (let n = length leaves in
      if m = n then (if b then Some [] else Some [root_hash sha leaves])
      else let k = largest_power_of_two_below n in
        if k > n then None
        else if m \<le> k then
          Option.bind (subproof sha m (take k leaves) b) (\<lambda>path. Some (path @ [root_hash sha (drop k leaves)]))
        else
          Option.bind (subproof sha (m - k) (drop k leaves) False) (\<lambda>path. Some (path @ [root_hash sha (take k leaves)])))"

definition consistency_path :: "(bytes \<Rightarrow> hash) \<Rightarrow> nat \<Rightarrow> hash list \<Rightarrow> hash list option" where
  "consistency_path sha first leaves = subproof sha first leaves True"

declare root_hash.simps [simp del] inclusion_path.simps [simp del]

section \<open>Verification (merkle.rs)\<close>

text \<open>The inner loop \<open>while fln & 1 == 0 && fln != 0 { fln >>= 1; sn >>= 1; }\<close>.\<close>

fun strip_zeros :: "nat \<Rightarrow> nat \<Rightarrow> nat \<times> nat" where
  "strip_zeros fln sn =
     (if even fln \<and> fln \<noteq> 0 then strip_zeros (fln div 2) (sn div 2) else (fln, sn))"

declare strip_zeros.simps [simp del]

text \<open>The loop over the audit path; \<open>None\<close> is the early \<open>return false\<close>.\<close>

fun inclusion_loop ::
  "(bytes \<Rightarrow> hash) \<Rightarrow> nat \<Rightarrow> nat \<Rightarrow> hash \<Rightarrow> hash list \<Rightarrow> (nat \<times> hash) option" where
  "inclusion_loop sha fln sn r [] = Some (sn, r)"
| "inclusion_loop sha fln sn r (p # ps) =
     (if sn = 0 then None
      else if odd fln \<or> fln = sn then
        let r' = node_hash sha p r;
            (fln', sn') = (if even fln then strip_zeros fln sn else (fln, sn))
        in inclusion_loop sha (fln' div 2) (sn' div 2) r' ps
      else inclusion_loop sha (fln div 2) (sn div 2) (node_hash sha r p) ps)"

definition verify_inclusion ::
  "(bytes \<Rightarrow> hash) \<Rightarrow> hash \<Rightarrow> nat \<Rightarrow> nat \<Rightarrow> hash list \<Rightarrow> hash \<Rightarrow> bool" where
  "verify_inclusion sha leaf leaf_index tree_size path root =
     (if leaf_index \<ge> tree_size then False
      else case inclusion_loop sha leaf_index (tree_size - 1) leaf path of
             None \<Rightarrow> False
           | Some (sn, r) \<Rightarrow> sn = 0 \<and> r = root)"

text \<open>\<open>while fln & 1 == 1 { fln >>= 1; sn >>= 1; }\<close>\<close>

function strip_ones :: "nat \<Rightarrow> nat \<Rightarrow> nat \<times> nat" where
  "strip_ones fln sn = (if odd fln then strip_ones (fln div 2) (sn div 2) else (fln, sn))"
  by pat_completeness auto
termination
  by (relation "measure fst") (auto elim: oddE)

declare strip_ones.simps [simp del]

fun consistency_loop ::
  "(bytes \<Rightarrow> hash) \<Rightarrow> nat \<Rightarrow> nat \<Rightarrow> hash \<Rightarrow> hash \<Rightarrow> hash list \<Rightarrow> (nat \<times> hash \<times> hash) option" where
  "consistency_loop sha fln sn fr sr [] = Some (sn, fr, sr)"
| "consistency_loop sha fln sn fr sr (c # cs) =
     (if sn = 0 then None
      else if odd fln \<or> fln = sn then
        let fr' = node_hash sha c fr; sr' = node_hash sha c sr;
            (fln', sn') = (if even fln then strip_zeros fln sn else (fln, sn))
        in consistency_loop sha (fln' div 2) (sn' div 2) fr' sr' cs
      else consistency_loop sha (fln div 2) (sn div 2) fr (node_hash sha sr c) cs)"

text \<open>\<open>usize::is_power_of_two\<close>: true if and only if \<open>n = 2 ^ k\<close> for some \<open>k\<close> (which is then
  below \<open>n\<close>).\<close>

definition is_power_of_two :: "nat \<Rightarrow> bool" where
  "is_power_of_two n = list_ex (\<lambda>k. n = 2 ^ k) [0..<n]"

definition verify_consistency ::
  "(bytes \<Rightarrow> hash) \<Rightarrow> nat \<Rightarrow> nat \<Rightarrow> hash list \<Rightarrow> hash \<Rightarrow> hash \<Rightarrow> bool" where
  "verify_consistency sha first second path first_hash second_hash =
     (if first = 0 \<or> first > second then False
      else if first = second then path = [] \<and> first_hash = second_hash
      else let work = (if is_power_of_two first then [first_hash] else []) @ path in
        case work of
          [] \<Rightarrow> False
        | w # ws \<Rightarrow>
            let (fln, sn) = strip_ones (first - 1) (second - 1) in
            (case consistency_loop sha fln sn w w ws of
               None \<Rightarrow> False
             | Some (sn', fr, sr) \<Rightarrow> fr = first_hash \<and> sr = second_hash \<and> sn' = 0))"

section \<open>Shape of the tree\<close>

text \<open>A tree of more than one leaf splits at a power of two \<open>2 ^ j\<close>: the left subtree is
  perfect, the right one has at most as many leaves.\<close>

lemma root_hash_singleton [simp]: "root_hash sha [x] = x"
  by (simp add: root_hash.simps)

lemma root_hash_split:
  assumes "2 ^ j < length leaves" "length leaves \<le> 2 ^ Suc j"
  shows "root_hash sha leaves =
    node_hash sha (root_hash sha (take (2 ^ j) leaves)) (root_hash sha (drop (2 ^ j) leaves))"
proof -
  have "largest_power_of_two_below (length leaves) = 2 ^ j" by (rule lpt_eqI) fact+
  moreover have "length leaves \<noteq> 0" "length leaves \<noteq> 1"
    using assms(1) one_le_power [of "2::nat" j] by auto
  ultimately show ?thesis by (subst root_hash.simps) (simp add: Let_def)
qed

lemma inclusion_path_small [simp]: "length leaves \<le> Suc 0 \<Longrightarrow> inclusion_path sha i leaves = []"
  by (simp add: inclusion_path.simps)

lemma inclusion_path_split:
  assumes "2 ^ j < length leaves" "length leaves \<le> 2 ^ Suc j"
  shows "inclusion_path sha i leaves =
    (if i < 2 ^ j
     then inclusion_path sha i (take (2 ^ j) leaves) @ [root_hash sha (drop (2 ^ j) leaves)]
     else inclusion_path sha (i - 2 ^ j) (drop (2 ^ j) leaves) @ [root_hash sha (take (2 ^ j) leaves)])"
proof -
  have "largest_power_of_two_below (length leaves) = 2 ^ j" by (rule lpt_eqI) fact+
  moreover have "\<not> length leaves \<le> 1"
    using assms(1) one_le_power [of "2::nat" j] by linarith
  ultimately show ?thesis by (subst inclusion_path.simps) (simp add: Let_def)
qed

text \<open>The height of a tree: the least \<open>c\<close> with \<open>n \<le> 2 ^ c\<close>.\<close>

definition height :: "nat \<Rightarrow> nat" where
  "height n = (LEAST c. n \<le> 2 ^ c)"

lemma height_le: "n \<le> 2 ^ height n"
  unfolding height_def by (rule LeastI [of _ n]) simp

lemma height_1 [simp]: "height (Suc 0) = 0"
  by (simp add: height_def Least_equality)

lemma height_split: "2 ^ j < n \<Longrightarrow> n \<le> 2 ^ Suc j \<Longrightarrow> height n = Suc j"
  unfolding height_def
proof (rule Least_equality)
  fix c assume "2 ^ j < n" "n \<le> 2 ^ c"
  then have "(2::nat) ^ j < 2 ^ c" by linarith
  then show "Suc j \<le> c" by (simp add: Suc_le_eq)
qed

lemma height_mono: "n \<le> 2 ^ c \<Longrightarrow> height n \<le> c"
  unfolding height_def by (rule Least_le)

lemma tree_cases:
  assumes "0 < n"
  obtains "n = Suc 0" | j where "2 ^ j < n" "n \<le> 2 ^ Suc j"
proof (cases "n = Suc 0")
  case False
  with assms have "n \<ge> 2" by linarith
  with largest_power_of_two_below_power [of n] that(2) show ?thesis by auto
qed (use that(1) in blast)

section \<open>Completeness of inclusion proofs\<close>

text \<open>One step of the loop towards the root, from a left child (the sibling is on the right) and
  from a right child that is not, or is, the last node of its level.\<close>

lemma inclusion_step_left:
  "even fln \<Longrightarrow> fln < sn \<Longrightarrow>
   inclusion_loop sha fln sn r (p # ps) = inclusion_loop sha (fln div 2) (sn div 2) (node_hash sha r p) ps"
  by simp

lemma inclusion_step_right:
  "odd fln \<Longrightarrow> sn \<noteq> 0 \<Longrightarrow>
   inclusion_loop sha fln sn r (p # ps) = inclusion_loop sha (fln div 2) (sn div 2) (node_hash sha p r) ps"
  by simp

lemma strip_zeros_odd: "odd x \<Longrightarrow> strip_zeros (2 ^ d * x) (2 ^ d * x) = (x, x)"
proof (induction d)
  case 0
  then show ?case by (simp add: strip_zeros.simps)
next
  case (Suc d)
  from Suc.prems have "x \<noteq> 0" using odd_pos by blast
  with Suc show ?case
    by (subst strip_zeros.simps) (simp add: mult.assoc)
qed

lemma inclusion_step_last:
  assumes "odd x"
  shows "inclusion_loop sha (2 ^ d * x) (2 ^ d * x) r (p # ps)
    = inclusion_loop sha (x div 2) (x div 2) (node_hash sha p r) ps"
proof (cases d)
  case 0
  with assms show ?thesis by (cases x) simp_all
next
  case (Suc d')
  from assms have "x \<noteq> 0" using odd_pos by blast
  with assms Suc strip_zeros_odd [OF assms, of d] show ?thesis by simp
qed

text \<open>A perfect subtree of \<open>2 ^ j\<close> leaves at offset \<open>a\<close>, anywhere in the tree.\<close>

lemma inclusion_loop_perfect:
  assumes "length leaves = 2 ^ j" "i < 2 ^ j" "2 ^ j dvd a" "a + 2 ^ j \<le> Suc sn"
  shows "inclusion_loop sha (a + i) sn (leaves ! i) (inclusion_path sha i leaves @ rest)
    = inclusion_loop sha (a div 2 ^ j) (sn div 2 ^ j) (root_hash sha leaves) rest"
  using assms
proof (induction j arbitrary: leaves i a rest)
  case 0
  then obtain x where "leaves = [x]" by (cases leaves) auto
  with 0 show ?case by simp
next
  case (Suc j)
  let ?L = "take (2 ^ j) leaves" and ?R = "drop (2 ^ j) leaves"
  have split: "2 ^ j < length leaves" "length leaves \<le> 2 ^ Suc j"
    using Suc.prems(1) by auto
  have len: "length ?L = 2 ^ j" "length ?R = 2 ^ j" using Suc.prems(1) by auto
  obtain b where b: "a = 2 ^ Suc j * b" using Suc.prems(3) by (auto elim: dvdE)
  have top: "sn div 2 ^ j \<ge> 2 * b + 1"
  proof -
    have "b * (2 * 2 ^ j) + 2 * 2 ^ j \<le> Suc sn" using Suc.prems(4) b by (simp add: algebra_simps)
    moreover have "1 \<le> (2::nat) ^ j" by simp
    ultimately have "b * (2 * 2 ^ j) + 2 ^ j \<le> sn" by linarith
    then have "(2 * b + 1) * 2 ^ j \<le> sn" by (simp add: algebra_simps)
    then show ?thesis by (simp add: less_eq_div_iff_mult_less_eq)
  qed
  have half: "sn div 2 ^ j div 2 = sn div 2 ^ Suc j" by (metis div_mult2_eq power_Suc2)
  show ?case
  proof (cases "i < 2 ^ j")
    case True
    have "inclusion_loop sha (a + i) sn (leaves ! i) (inclusion_path sha i leaves @ rest)
      = inclusion_loop sha (a + i) sn (?L ! i) (inclusion_path sha i ?L @ root_hash sha ?R # rest)"
      using True by (simp add: inclusion_path_split [OF split])
    also have "\<dots> = inclusion_loop sha (a div 2 ^ j) (sn div 2 ^ j) (root_hash sha ?L) (root_hash sha ?R # rest)"
      using Suc.prems(3,4) True len by (intro Suc.IH) (auto dest: dvd_mult_right)
    also have "a div 2 ^ j = 2 * b" by (simp add: b)
    also have "inclusion_loop sha (2 * b) (sn div 2 ^ j) (root_hash sha ?L) (root_hash sha ?R # rest)
      = inclusion_loop sha b (sn div 2 ^ Suc j) (root_hash sha leaves) rest"
      using top half by (subst inclusion_step_left) (auto simp: root_hash_split [OF split])
    finally show ?thesis by (simp add: b)
  next
    case False
    have "inclusion_loop sha (a + i) sn (leaves ! i) (inclusion_path sha i leaves @ rest)
      = inclusion_loop sha ((a + 2 ^ j) + (i - 2 ^ j)) sn (?R ! (i - 2 ^ j))
          (inclusion_path sha (i - 2 ^ j) ?R @ root_hash sha ?L # rest)"
      using False split by (simp add: inclusion_path_split [OF split])
    also have "\<dots> = inclusion_loop sha ((a + 2 ^ j) div 2 ^ j) (sn div 2 ^ j) (root_hash sha ?R) (root_hash sha ?L # rest)"
      using Suc.prems False len by (intro Suc.IH) (auto dest: dvd_mult_right)
    also have "(a + 2 ^ j) div 2 ^ j = 2 * b + 1" by (simp add: b)
    also have "inclusion_loop sha (2 * b + 1) (sn div 2 ^ j) (root_hash sha ?R) (root_hash sha ?L # rest)
      = inclusion_loop sha b (sn div 2 ^ Suc j) (root_hash sha leaves) rest"
      using top half by (subst inclusion_step_right) (auto simp: root_hash_split [OF split])
    finally show ?thesis by (simp add: b)
  qed
qed

text \<open>The last subtree of the tree, of any size, at an offset \<open>a\<close> aligned to its height.\<close>

lemma inclusion_loop_last:
  assumes "0 < length leaves" "i < length leaves" "2 ^ height (length leaves) dvd a"
  shows "inclusion_loop sha (a + i) (a + length leaves - 1) (leaves ! i) (inclusion_path sha i leaves @ rest)
    = (let q = a div 2 ^ height (length leaves) in inclusion_loop sha q q (root_hash sha leaves) rest)"
  using assms
proof (induction "length leaves" arbitrary: leaves i a rest rule: less_induct)
  case less
  show ?case
  proof (cases rule: tree_cases [OF less.prems(1)])
    case 1
    then obtain x where "leaves = [x]" by (cases leaves) auto
    with less.prems show ?thesis by simp
  next
    case (2 j)
    let ?n = "length leaves" and ?L = "take (2 ^ j) leaves" and ?R = "drop (2 ^ j) leaves"
    have h: "height ?n = Suc j" by (rule height_split [OF 2])
    obtain b where b: "a = 2 ^ Suc j * b" using less.prems(3) h by (auto elim: dvdE)
    have sn: "(a + ?n - 1) div 2 ^ j = 2 * b + 1"
    proof (rule div_nat_eqI)
      show "2 ^ j * (2 * b + 1) \<le> a + ?n - 1" using 2 b by (simp add: algebra_simps)
      show "a + ?n - 1 < 2 ^ j * Suc (2 * b + 1)" using 2 b by (simp add: algebra_simps)
    qed
    show ?thesis
    proof (cases "i < 2 ^ j")
      case True
      have "inclusion_loop sha (a + i) (a + ?n - 1) (leaves ! i) (inclusion_path sha i leaves @ rest)
        = inclusion_loop sha (a + i) (a + ?n - 1) (?L ! i) (inclusion_path sha i ?L @ root_hash sha ?R # rest)"
        using True by (simp add: inclusion_path_split [OF 2])
      also have "\<dots> = inclusion_loop sha (a div 2 ^ j) ((a + ?n - 1) div 2 ^ j) (root_hash sha ?L) (root_hash sha ?R # rest)"
        using 2 True b by (intro inclusion_loop_perfect) auto
      also have "\<dots> = inclusion_loop sha b b (root_hash sha leaves) rest"
        unfolding sn using b by (subst inclusion_step_left) (auto simp: root_hash_split [OF 2])
      finally show ?thesis by (simp add: h b)
    next
      case False
      let ?c = "height (length ?R)"
      have c: "?c \<le> j" using 2 by (intro height_mono) simp
      have off: "a + 2 ^ j = 2 ^ ?c * (2 ^ (j - ?c) * (2 * b + 1))"
        using c by (simp add: b algebra_simps flip: power_add)
      have "inclusion_loop sha (a + i) (a + ?n - 1) (leaves ! i) (inclusion_path sha i leaves @ rest)
        = inclusion_loop sha (a + 2 ^ j + (i - 2 ^ j)) (a + 2 ^ j + length ?R - 1) (?R ! (i - 2 ^ j))
            (inclusion_path sha (i - 2 ^ j) ?R @ root_hash sha ?L # rest)"
        using False 2 by (simp add: inclusion_path_split [OF 2])
      also have "\<dots> = (let q = (a + 2 ^ j) div 2 ^ ?c in inclusion_loop sha q q (root_hash sha ?R) (root_hash sha ?L # rest))"
        using False 2 less.prems off by (intro less.hyps) (auto simp: dvd_def)
      also have "(a + 2 ^ j) div 2 ^ ?c = 2 ^ (j - ?c) * (2 * b + 1)" by (simp add: off)
      also have "(let q = 2 ^ (j - ?c) * (2 * b + 1) in inclusion_loop sha q q (root_hash sha ?R) (root_hash sha ?L # rest))
        = inclusion_loop sha b b (root_hash sha leaves) rest"
        using inclusion_step_last [of "2 * b + 1" sha "j - ?c"] by (simp add: root_hash_split [OF 2])
      finally show ?thesis by (simp add: h b)
    qed
  qed
qed

lemma inclusion_loop_complete:
  assumes "i < length leaves"
  shows "inclusion_loop sha i (length leaves - 1) (leaves ! i) (inclusion_path sha i leaves)
    = Some (0, root_hash sha leaves)"
proof -
  from assms have "leaves \<noteq> []" by auto
  with inclusion_loop_last [of leaves i 0 sha "[]"] assms show ?thesis by (simp add: Let_def)
qed

end
