(* ===== verification/Vlog_Merkle_Sound.thy ===== *)
theory Vlog_Merkle_Sound
  imports Vlog_Merkle
begin

text \<open>
  What the Merkle verifiers of \<open>verifiable-log/src/merkle.rs\<close> guarantee: an accepted inclusion
  proof is the honest one, an accepted consistency proof forces the old root to be the root of a
  prefix, and a root binds its leaves, each up to a collision of \<open>sha\<close> among messages that the
  statement lists. Also the completeness of consistency proofs.
\<close>

section \<open>Control flow of the verifiers\<close>

text \<open>Which side the sibling is on, level by level, is a function of the index and the size alone.\<close>

lemma strip_zeros_snd_le: "snd (strip_zeros fln sn) \<le> sn"
proof (induction fln sn rule: strip_zeros.induct)
  case (1 fln sn)
  have "sn div 2 \<le> sn" by simp
  then show ?case
    using "1" by (subst strip_zeros.simps) (simp, linarith)
qed

function dirs :: "nat \<Rightarrow> nat \<Rightarrow> bool list" where
  "dirs fln sn =
     (if sn = 0 then []
      else if odd fln \<or> fln = sn then
        let (fln', sn') = (if even fln then strip_zeros fln sn else (fln, sn))
        in True # dirs (fln' div 2) (sn' div 2)
      else False # dirs (fln div 2) (sn div 2))"
  by pat_completeness auto
termination
proof (relation "measure snd", goal_cases)
  case (2 fln sn x fln' sn')
  then have "sn' \<le> sn"
    using strip_zeros_snd_le [of fln sn] by (metis order_refl snd_conv)
  with 2 show ?case by simp
qed auto

declare dirs.simps [simp del]

fun climb :: "(bytes \<Rightarrow> hash) \<Rightarrow> bool list \<Rightarrow> hash \<Rightarrow> hash list \<Rightarrow> hash" where
  "climb sha (d # ds) r (p # ps) = climb sha ds (if d then node_hash sha p r else node_hash sha r p) ps"
| "climb sha _ r _ = r"

fun climb_old :: "(bytes \<Rightarrow> hash) \<Rightarrow> bool list \<Rightarrow> hash \<Rightarrow> hash list \<Rightarrow> hash" where
  "climb_old sha (d # ds) r (p # ps) = climb_old sha ds (if d then node_hash sha p r else r) ps"
| "climb_old sha _ r _ = r"

text \<open>The messages that climbing hashes.\<close>

fun climb_msgs :: "(bytes \<Rightarrow> hash) \<Rightarrow> bool list \<Rightarrow> hash \<Rightarrow> hash list \<Rightarrow> bytes list" where
  "climb_msgs sha (d # ds) r (p # ps) =
     (if d then [NODE_PREFIX] @ p @ r else [NODE_PREFIX] @ r @ p)
     # climb_msgs sha ds (if d then node_hash sha p r else node_hash sha r p) ps"
| "climb_msgs sha _ r _ = []"

lemma dirs_eq_Nil [simp]: "dirs fln sn = [] \<longleftrightarrow> sn = 0"
  by (subst dirs.simps) (auto split: prod.splits)

lemma inclusion_loop_iff:
  "inclusion_loop sha fln sn r path = Some (0, r') \<longleftrightarrow>
   length path = length (dirs fln sn) \<and> r' = climb sha (dirs fln sn) r path"
proof (induction sha fln sn r path rule: inclusion_loop.induct)
  case (1 sha fln sn r)
  then show ?case by auto
next
  case (2 sha fln sn r p ps)
  show ?case
  proof (cases "sn = 0 \<or> \<not> (odd fln \<or> fln = sn)")
    case True
    then consider "sn = 0" | "sn \<noteq> 0" "\<not> (odd fln \<or> fln = sn)" by blast
    then show ?thesis
    proof cases
      case 1
      then show ?thesis by (simp add: dirs.simps)
    next
      case nf: 2
      then have "dirs fln sn = False # dirs (fln div 2) (sn div 2)"
        by (subst dirs.simps) simp
      with nf 2(2) [OF nf] show ?thesis by simp
    qed
  next
    case False
    then have c: "sn \<noteq> 0" "odd fln \<or> fln = sn" by auto
    obtain f s where fs: "(if even fln then strip_zeros fln sn else (fln, sn)) = (f, s)" by fastforce
    with c have "dirs fln sn = True # dirs (f div 2) (s div 2)"
      by (subst dirs.simps) simp
    with c fs 2(1) [OF c refl fs [symmetric] refl] show ?thesis by simp
  qed
qed

lemma consistency_loop_iff:
  "consistency_loop sha fln sn fr sr path = Some (0, fr', sr') \<longleftrightarrow>
   length path = length (dirs fln sn) \<and> fr' = climb_old sha (dirs fln sn) fr path
   \<and> sr' = climb sha (dirs fln sn) sr path"
proof (induction sha fln sn fr sr path rule: consistency_loop.induct)
  case (1 sha fln sn fr sr)
  then show ?case by auto
next
  case (2 sha fln sn fr sr c cs)
  show ?case
  proof (cases "sn = 0 \<or> \<not> (odd fln \<or> fln = sn)")
    case True
    then consider "sn = 0" | "sn \<noteq> 0" "\<not> (odd fln \<or> fln = sn)" by blast
    then show ?thesis
    proof cases
      case 1
      then show ?thesis by (simp add: dirs.simps)
    next
      case nf: 2
      then have "dirs fln sn = False # dirs (fln div 2) (sn div 2)"
        by (subst dirs.simps) simp
      with nf 2(2) [OF nf] show ?thesis by simp
    qed
  next
    case False
    then have g: "sn \<noteq> 0" "odd fln \<or> fln = sn" by auto
    obtain f s where fs: "(if even fln then strip_zeros fln sn else (fln, sn)) = (f, s)" by fastforce
    with g have "dirs fln sn = True # dirs (f div 2) (s div 2)"
      by (subst dirs.simps) simp
    with g fs 2(1) [OF g refl refl fs [symmetric] refl] show ?thesis by simp
  qed
qed

section \<open>Climbing is injective up to collisions\<close>

definition is_hash :: "hash \<Rightarrow> bool" where
  "is_hash h = (length h = 32)"

text \<open>The assumption on SHA-256: a digest has 32 bytes.\<close>

definition hash_fn :: "(bytes \<Rightarrow> hash) \<Rightarrow> bool" where
  "hash_fn sha = (\<forall>m. is_hash (sha m))"

lemma is_hash_sha [simp]: "hash_fn sha \<Longrightarrow> is_hash (sha m)"
  by (simp add: hash_fn_def)

lemma is_hash_node [simp]: "hash_fn sha \<Longrightarrow> is_hash (node_hash sha l r)"
  by (simp add: node_hash_def)

lemma is_hash_append_inject:
  "is_hash l \<Longrightarrow> is_hash l' \<Longrightarrow> l @ r = l' @ r' \<longleftrightarrow> l = l' \<and> r = r'"
  by (simp add: is_hash_def)

lemma climb_inject:
  assumes "hash_fn sha"
    and "inj_on sha (set (climb_msgs sha ds r ps) \<union> set (climb_msgs sha ds r' ps'))"
    and "length ps = length ds" "length ps' = length ds"
    and "is_hash r" "is_hash r'" "\<forall>p \<in> set ps. is_hash p" "\<forall>p \<in> set ps'. is_hash p"
    and "climb sha ds r ps = climb sha ds r' ps'"
  shows "r = r' \<and> ps = ps'"
  using assms(2-)
proof (induction ds arbitrary: r r' ps ps')
  case (Cons d ds)
  obtain p q where ps: "ps = p # q" "length q = length ds"
    using Cons.prems(2) by (cases ps) auto
  obtain p' q' where ps': "ps' = p' # q'" "length q' = length ds"
    using Cons.prems(3) by (cases ps') auto
  let ?m = "\<lambda>p r. if d then [NODE_PREFIX] @ p @ r else [NODE_PREFIX] @ r @ p"
  let ?n = "\<lambda>p r. if d then node_hash sha p r else node_hash sha r p"
  have inj: "inj_on sha (insert (?m p r) (insert (?m p' r')
      (set (climb_msgs sha ds (?n p r) q) \<union> set (climb_msgs sha ds (?n p' r') q'))))"
    by (rule inj_on_subset [OF Cons.prems(1)]) (auto simp: ps(1) ps'(1))
  have IH: "?n p r = ?n p' r' \<and> q = q'"
  proof (rule Cons.IH)
    show "inj_on sha (set (climb_msgs sha ds (?n p r) q) \<union> set (climb_msgs sha ds (?n p' r') q'))"
      using inj by (rule inj_on_subset) blast
  qed (use Cons.prems(4-) ps ps' assms(1) in simp_all)
  have "sha (?m p r) = sha (?m p' r')"
    using IH by (simp add: node_hash_def split: if_splits)
  then have "?m p r = ?m p' r'"
    by (rule inj_onD [OF inj]) simp_all
  then show ?case
    using Cons.prems(4-7) ps(1) ps'(1) IH
    by (cases d) (simp_all add: is_hash_append_inject)
qed auto

section \<open>Completeness of consistency proofs\<close>

lemma is_power_of_two_iff: "is_power_of_two n \<longleftrightarrow> (\<exists>k. n = 2 ^ k)"
proof
  assume "\<exists>k. n = 2 ^ k"
  then obtain k where "n = 2 ^ k" ..
  then have "k \<in> set [0..<n]" "n = 2 ^ k" by auto
  then show "is_power_of_two n" by (auto simp: is_power_of_two_def list_ex_iff)
qed (auto simp: is_power_of_two_def list_ex_iff)

lemma power_two_strictly_between: "2 ^ j < (m :: nat) \<Longrightarrow> m < 2 ^ Suc j \<Longrightarrow> \<not> is_power_of_two m"
proof
  assume m: "2 ^ j < m" "m < 2 ^ Suc j" and "is_power_of_two m"
  then obtain k where "m = 2 ^ k" by (auto simp: is_power_of_two_iff)
  with m have "(2::nat) ^ j < 2 ^ k" "(2::nat) ^ k < 2 ^ Suc j" by simp_all
  then have "j < k" "k < Suc j" by (simp_all only: power_strict_increasing_iff one_less_numeral_iff semiring_norm)
  then show False by simp
qed

lemma consistency_step_left:
  "even fln \<Longrightarrow> fln < sn \<Longrightarrow>
   consistency_loop sha fln sn fr sr (c # cs) = consistency_loop sha (fln div 2) (sn div 2) fr (node_hash sha sr c) cs"
  by simp

lemma consistency_step_right:
  "odd fln \<Longrightarrow> sn \<noteq> 0 \<Longrightarrow>
   consistency_loop sha fln sn fr sr (c # cs)
   = consistency_loop sha (fln div 2) (sn div 2) (node_hash sha c fr) (node_hash sha c sr) cs"
  by simp

lemma consistency_step_last:
  assumes "odd x"
  shows "consistency_loop sha (2 ^ d * x) (2 ^ d * x) fr sr (c # cs)
    = consistency_loop sha (x div 2) (x div 2) (node_hash sha c fr) (node_hash sha c sr) cs"
proof (cases d)
  case 0
  with assms show ?thesis by (cases x) simp_all
next
  case (Suc d')
  from assms have "x \<noteq> 0" using odd_pos by blast
  with assms Suc strip_zeros_odd [OF assms, of d] show ?thesis by simp
qed

lemma strip_ones_run: "strip_ones (2 ^ j * (2 * b) + 2 ^ j - 1) sn = (2 * b, sn div 2 ^ j)"
proof (induction j arbitrary: sn)
  case 0
  then show ?case by (simp add: strip_ones.simps)
next
  case (Suc j)
  let ?x = "2 ^ j * (2 * b) + 2 ^ j - 1"
  obtain c where c: "(2::nat) ^ j = Suc c" using gr0_implies_Suc [of "2 ^ j"] by auto
  have x: "2 ^ Suc j * (2 * b) + 2 ^ Suc j - 1 = 2 * ?x + 1"
    by (simp add: c algebra_simps)
  have "strip_ones (2 * ?x + 1) sn = strip_ones ?x (sn div 2)"
    by (subst strip_ones.simps) simp
  then show ?case by (simp only: x Suc.IH) (simp add: div_mult2_eq)
qed

lemma subproof_split:
  assumes "2 ^ j < length leaves" "length leaves \<le> 2 ^ Suc j" "m \<noteq> length leaves"
  shows "subproof sha m leaves b =
    (if m \<le> 2 ^ j
     then map_option (\<lambda>path. path @ [root_hash sha (drop (2 ^ j) leaves)]) (subproof sha m (take (2 ^ j) leaves) b)
     else map_option (\<lambda>path. path @ [root_hash sha (take (2 ^ j) leaves)]) (subproof sha (m - 2 ^ j) (drop (2 ^ j) leaves) False))"
  using assms by (subst subproof.simps)
    (simp add: Let_def lpt_eqI [OF assms(1,2)] map_conv_bind_option comp_def)

lemma subproof_whole: "m = length leaves \<Longrightarrow> subproof sha m leaves b = Some (if b then [] else [root_hash sha leaves])"
  by (subst subproof.simps) simp

text \<open>What a subtree contributes: the first \<open>m\<close> of its leaves are old. Started on the topmost
  perfect subtree that ends at the old size, in the loop state \<open>(F, S)\<close>, the verifier consumes the
  path of the subtree and arrives in the state \<open>(f, s)\<close> with the root of the old leaves and the
  root of all leaves of the subtree.\<close>

definition proves :: "(bytes \<Rightarrow> hash) \<Rightarrow> nat \<Rightarrow> hash list \<Rightarrow> nat \<Rightarrow> nat \<Rightarrow> nat \<Rightarrow> nat \<Rightarrow> bool" where
  "proves sha m leaves F S f s \<longleftrightarrow>
    (\<exists>w ts. subproof sha m leaves False = Some (w # ts)
      \<and> subproof sha m leaves True = Some (if is_power_of_two m then ts else w # ts)
      \<and> (is_power_of_two m \<longrightarrow> w = root_hash sha (take m leaves))
      \<and> (\<forall>rest. consistency_loop sha F S w w (ts @ rest)
          = consistency_loop sha f s (root_hash sha (take m leaves)) (root_hash sha leaves) rest))"

lemma proves_whole:
  assumes "is_power_of_two m" "m = length leaves"
  shows "proves sha m leaves F S F S"
  using assms by (simp add: proves_def subproof_whole)

lemma proves_left:
  assumes j: "2 ^ j < length leaves" "length leaves \<le> 2 ^ Suc j" and m: "m \<le> 2 ^ j"
    and sub: "proves sha m (take (2 ^ j) leaves) F S f s" and f: "even f" "f < s"
  shows "proves sha m leaves F S (f div 2) (s div 2)"
proof -
  let ?L = "take (2 ^ j) leaves" and ?R = "drop (2 ^ j) leaves"
  have tk: "take m ?L = take m leaves" using m by (simp add: min_absorb1)
  obtain w ts where w: "subproof sha m ?L False = Some (w # ts)"
      "subproof sha m ?L True = Some (if is_power_of_two m then ts else w # ts)"
      "is_power_of_two m \<longrightarrow> w = root_hash sha (take m leaves)"
    and run: "\<And>rest. consistency_loop sha F S w w (ts @ rest)
          = consistency_loop sha f s (root_hash sha (take m leaves)) (root_hash sha ?L) rest"
    using sub [unfolded proves_def tk] by blast
  have "m \<noteq> length leaves" using j m by simp
  note sp = subproof_split [OF j this]
  show ?thesis
    unfolding proves_def
  proof (intro exI conjI allI)
    show "subproof sha m leaves False = Some (w # ts @ [root_hash sha ?R])"
      using w(1) m by (simp add: sp)
    show "subproof sha m leaves True = Some (if is_power_of_two m then ts @ [root_hash sha ?R] else w # ts @ [root_hash sha ?R])"
      using w(2) m by (simp add: sp)
    show "is_power_of_two m \<longrightarrow> w = root_hash sha (take m leaves)" by (rule w(3))
    show "consistency_loop sha F S w w ((ts @ [root_hash sha ?R]) @ rest)
      = consistency_loop sha (f div 2) (s div 2) (root_hash sha (take m leaves)) (root_hash sha leaves) rest" for rest
      using run [of "root_hash sha ?R # rest"] consistency_step_left [OF f]
      by (simp only: append.assoc append.simps root_hash_split [OF j])
  qed
qed

lemma proves_right:
  assumes j: "2 ^ j < length leaves" "length leaves \<le> 2 ^ Suc j" and m: "2 ^ j < m" "m < length leaves"
    and sub: "proves sha (m - 2 ^ j) (drop (2 ^ j) leaves) F S f s"
    and step: "\<And>fr sr c cs. consistency_loop sha f s fr sr (c # cs)
      = consistency_loop sha f' s' (node_hash sha c fr) (node_hash sha c sr) cs"
  shows "proves sha m leaves F S f' s'"
proof -
  let ?L = "take (2 ^ j) leaves" and ?R = "drop (2 ^ j) leaves"
  have old: "root_hash sha (take m leaves) = node_hash sha (root_hash sha ?L) (root_hash sha (take (m - 2 ^ j) ?R))"
    using m j root_hash_split [of j "take m leaves" sha] by (simp add: min_absorb1 min_absorb2 drop_take)
  have np: "\<not> is_power_of_two m" using m j by (intro power_two_strictly_between [of j]) auto
  obtain w ts where w: "subproof sha (m - 2 ^ j) ?R False = Some (w # ts)"
    and run: "\<And>rest. consistency_loop sha F S w w (ts @ rest)
          = consistency_loop sha f s (root_hash sha (take (m - 2 ^ j) ?R)) (root_hash sha ?R) rest"
    using sub [unfolded proves_def] by blast
  have "m \<noteq> length leaves" using m by simp
  note sp = subproof_split [OF j this]
  show ?thesis
    unfolding proves_def
  proof (intro exI conjI allI)
    show "subproof sha m leaves False = Some (w # ts @ [root_hash sha ?L])"
      using w m by (simp add: sp)
    show "subproof sha m leaves True = Some (if is_power_of_two m then ts @ [root_hash sha ?L] else w # ts @ [root_hash sha ?L])"
      using w m np by (simp add: sp)
    show "is_power_of_two m \<longrightarrow> w = root_hash sha (take m leaves)" using np by simp
    show "consistency_loop sha F S w w ((ts @ [root_hash sha ?L]) @ rest)
      = consistency_loop sha f' s' (root_hash sha (take m leaves)) (root_hash sha leaves) rest" for rest
      using run [of "root_hash sha ?L # rest"] step
      by (simp only: append.assoc append.simps root_hash_split [OF j] old)
  qed
qed

lemma proves_perfect:
  assumes "length leaves = 2 ^ j" "0 < m" "m \<le> 2 ^ j" "2 ^ j dvd a" "a + 2 ^ j \<le> Suc sn"
    and "m < 2 ^ j \<or> 2 ^ Suc j dvd a" and "strip_ones (a + m - 1) sn = (F, S)"
  shows "proves sha m leaves F S (a div 2 ^ j) (sn div 2 ^ j)"
  using assms
proof (induction j arbitrary: leaves m a)
  case 0
  then have "even a" "m = 1" by auto
  with 0 have "F = a" "S = sn" by (auto simp: strip_ones.simps)
  with 0 \<open>m = 1\<close> show ?case using proves_whole [of m leaves] by (simp add: is_power_of_two_def)
next
  case (Suc j)
  let ?L = "take (2 ^ j) leaves" and ?R = "drop (2 ^ j) leaves"
  have split: "2 ^ j < length leaves" "length leaves \<le> 2 ^ Suc j"
    using Suc.prems(1) by auto
  obtain b where b: "a = 2 ^ Suc j * b" using Suc.prems(4) by (auto elim: dvdE)
  have half: "sn div 2 ^ j div 2 = sn div 2 ^ Suc j" "a div 2 ^ j div 2 = a div 2 ^ Suc j"
    by (metis div_mult2_eq power_Suc2)+
  have top: "2 * b + 1 \<le> sn div 2 ^ j"
  proof -
    have "b * (2 * 2 ^ j) + 2 * 2 ^ j \<le> Suc sn" using Suc.prems(5) b by (simp add: algebra_simps)
    moreover have "1 \<le> (2::nat) ^ j" by simp
    ultimately have "b * (2 * 2 ^ j) + 2 ^ j \<le> sn" by linarith
    then have "(2 * b + 1) * 2 ^ j \<le> sn" by (simp add: algebra_simps)
    then show ?thesis by (simp add: less_eq_div_iff_mult_less_eq)
  qed
  consider "m = 2 ^ Suc j" | "m \<le> 2 ^ j" | "2 ^ j < m" "m < 2 ^ Suc j"
    using Suc.prems(3) by linarith
  then show ?case
  proof cases
    case 1
    with Suc.prems(6) obtain c where c: "a = 2 ^ Suc (Suc j) * c" by (auto elim: dvdE)
    have "a + m - 1 = 2 ^ Suc j * (2 * c) + 2 ^ Suc j - 1" using 1 c by simp
    with Suc.prems(7) strip_ones_run [of "Suc j" c sn] have "F = 2 * c" "S = sn div 2 ^ Suc j" by auto
    moreover have "is_power_of_two m" using 1 is_power_of_two_iff by blast
    moreover have "a div 2 ^ Suc j = 2 * c" using c by simp
    moreover have "m = length leaves" using 1 Suc.prems(1) by simp
    ultimately show ?thesis using proves_whole by (simp only:)
  next
    case 2
    have "proves sha m ?L F S (a div 2 ^ j) (sn div 2 ^ j)"
      using 2 Suc.prems split by (intro Suc.IH) (auto dest: dvd_mult_right)
    then have "proves sha m leaves F S (a div 2 ^ j div 2) (sn div 2 ^ j div 2)"
      using top b by (intro proves_left [OF split 2]) auto
    then show ?thesis by (simp only: half)
  next
    case 3
    have "proves sha (m - 2 ^ j) ?R F S ((a + 2 ^ j) div 2 ^ j) (sn div 2 ^ j)"
      using 3 Suc.prems split by (intro Suc.IH) (auto dest: dvd_mult_right)
    moreover have "(a + 2 ^ j) div 2 ^ j = 2 * b + 1" using b by simp
    ultimately have "proves sha m leaves F S b (sn div 2 ^ Suc j)"
      using 3 split Suc.prems(1) top half(1)
      by (intro proves_right [OF split 3(1), of _ F S "2 * b + 1" "sn div 2 ^ j"])
        (auto simp: consistency_step_right simp del: consistency_loop.simps)
    then show ?thesis using b by simp
  qed
qed

lemma proves_last:
  assumes "0 < m" "m < length leaves" "2 ^ height (length leaves) dvd a"
    and "strip_ones (a + m - 1) (a + length leaves - 1) = (F, S)"
  shows "proves sha m leaves F S (a div 2 ^ height (length leaves)) (a div 2 ^ height (length leaves))"
  using assms
proof (induction "length leaves" arbitrary: leaves m a rule: less_induct)
  case less
  let ?n = "length leaves"
  have "0 < ?n" using less.prems(2) by linarith
  then show ?case
  proof (cases rule: tree_cases)
    case 1
    with less.prems show ?thesis by simp
  next
    case (2 j)
    let ?L = "take (2 ^ j) leaves" and ?R = "drop (2 ^ j) leaves"
    have h: "height ?n = Suc j" by (rule height_split [OF 2])
    obtain b where b: "a = 2 ^ Suc j * b" using less.prems(3) h by (auto elim: dvdE)
    have sn: "(a + ?n - 1) div 2 ^ j = 2 * b + 1"
    proof (rule div_nat_eqI)
      show "2 ^ j * (2 * b + 1) \<le> a + ?n - 1" using 2 b by (simp add: algebra_simps)
      show "a + ?n - 1 < 2 ^ j * Suc (2 * b + 1)" using 2 b by (simp add: algebra_simps)
    qed
    have "proves sha m leaves F S b b"
    proof (cases "m \<le> 2 ^ j")
      case True
      have "proves sha m ?L F S (a div 2 ^ j) ((a + ?n - 1) div 2 ^ j)"
        using 2 True less.prems b by (intro proves_perfect) auto
      moreover have "a div 2 ^ j = 2 * b" using b by simp
      ultimately have "proves sha m ?L F S (2 * b) (2 * b + 1)" by (simp only: sn)
      from proves_left [OF 2 True this] show ?thesis by simp
    next
      case False
      then have m: "2 ^ j < m" by simp
      let ?c = "height (length ?R)"
      have c: "?c \<le> j" using 2 by (intro height_mono) simp
      have off: "a + 2 ^ j = 2 ^ ?c * (2 ^ (j - ?c) * (2 * b + 1))"
        using c by (simp add: b algebra_simps flip: power_add)
      have "proves sha (m - 2 ^ j) ?R F S ((a + 2 ^ j) div 2 ^ ?c) ((a + 2 ^ j) div 2 ^ ?c)"
      proof (rule less.hyps)
        show "strip_ones (a + 2 ^ j + (m - 2 ^ j) - 1) (a + 2 ^ j + length ?R - 1) = (F, S)"
          using less.prems(4) m 2 by simp
        show "2 ^ ?c dvd a + 2 ^ j" unfolding off by simp
      qed (use m 2 less.prems(2) in auto)
      moreover have "(a + 2 ^ j) div 2 ^ ?c = 2 ^ (j - ?c) * (2 * b + 1)" by (simp add: off)
      ultimately have "proves sha (m - 2 ^ j) ?R F S (2 ^ (j - ?c) * (2 * b + 1)) (2 ^ (j - ?c) * (2 * b + 1))"
        by simp
      then show ?thesis
        using consistency_step_last [of "2 * b + 1" sha "j - ?c"] less.prems(2)
        by (intro proves_right [OF 2 m]) (simp_all del: consistency_loop.simps)
    qed
    then show ?thesis by (simp add: h b)
  qed
qed

text \<open>The honest path: the verifier's start node \<open>w\<close> and the rest of the path \<open>ts\<close>.\<close>

lemma consistency_path_honest:
  assumes "0 < m" "m < length leaves" "strip_ones (m - 1) (length leaves - 1) = (F, S)"
  shows "\<exists>w ts. consistency_path sha m leaves = Some (if is_power_of_two m then ts else w # ts)
    \<and> (is_power_of_two m \<longrightarrow> w = root_hash sha (take m leaves))
    \<and> consistency_loop sha F S w w ts = Some (0, root_hash sha (take m leaves), root_hash sha leaves)"
proof -
  have "proves sha m leaves F S 0 0"
    using proves_last [of m leaves 0 F S sha] assms by simp
  then obtain w ts where
    "subproof sha m leaves True = Some (if is_power_of_two m then ts else w # ts)"
    "is_power_of_two m \<longrightarrow> w = root_hash sha (take m leaves)"
    and run: "\<And>rest. consistency_loop sha F S w w (ts @ rest)
          = consistency_loop sha 0 0 (root_hash sha (take m leaves)) (root_hash sha leaves) rest"
    unfolding proves_def by blast
  with run [of "[]"] show ?thesis by (auto simp: consistency_path_def)
qed

lemma verify_consistency_unfold:
  assumes "0 < first" "first < second" "strip_ones (first - 1) (second - 1) = (F, S)"
  shows "verify_consistency sha first second path first_hash second_hash \<longleftrightarrow>
    (\<exists>w ws. (if is_power_of_two first then [first_hash] else []) @ path = w # ws
      \<and> consistency_loop sha F S w w ws = Some (0, first_hash, second_hash))"
  using assms unfolding verify_consistency_def
  by (cases "(if is_power_of_two first then [first_hash] else []) @ path")
    (auto simp: Let_def split: option.splits)

lemma consistency_complete:
  assumes "0 < m" "m \<le> length leaves"
  shows "\<exists>path. consistency_path sha m leaves = Some path
    \<and> verify_consistency sha m (length leaves) path (root_hash sha (take m leaves)) (root_hash sha leaves)"
proof (cases "m = length leaves")
  case True
  with assms show ?thesis
    by (simp add: consistency_path_def subproof_whole verify_consistency_def)
next
  case False
  with assms have m: "0 < m" "m < length leaves" by auto
  obtain F S where FS: "strip_ones (m - 1) (length leaves - 1) = (F, S)" by fastforce
  from consistency_path_honest [OF m FS, of sha] show ?thesis
    by (auto simp: verify_consistency_unfold [OF m FS])
qed

section \<open>Soundness\<close>

text \<open>The messages the verifiers hash, and the messages the tree hash hashes.\<close>

definition inclusion_msgs :: "(bytes \<Rightarrow> hash) \<Rightarrow> hash \<Rightarrow> nat \<Rightarrow> nat \<Rightarrow> hash list \<Rightarrow> bytes list" where
  "inclusion_msgs sha leaf leaf_index tree_size path = climb_msgs sha (dirs leaf_index (tree_size - 1)) leaf path"

definition consistency_msgs :: "(bytes \<Rightarrow> hash) \<Rightarrow> nat \<Rightarrow> nat \<Rightarrow> hash list \<Rightarrow> hash \<Rightarrow> bytes list" where
  "consistency_msgs sha first second path first_hash =
     (case (if is_power_of_two first then [first_hash] else []) @ path of
        [] \<Rightarrow> []
      | w # ws \<Rightarrow> (let (fln, sn) = strip_ones (first - 1) (second - 1) in climb_msgs sha (dirs fln sn) w ws))"

function root_msgs :: "(bytes \<Rightarrow> hash) \<Rightarrow> hash list \<Rightarrow> bytes list" where
  "root_msgs sha leaves =
     (if length leaves = 0 \<or> length leaves = 1 then []
      else let k = largest_power_of_two_below (length leaves) in
        ([NODE_PREFIX] @ root_hash sha (take k leaves) @ root_hash sha (drop k leaves))
        # root_msgs sha (take k leaves) @ root_msgs sha (drop k leaves))"
  by pat_completeness auto
termination
  by (relation "measure (\<lambda>(sha, leaves). length leaves)")
    (auto simp: lpt_list_less lpt_diff_less list_length_ge_2 min_less_iff_disj)

declare root_msgs.simps [simp del]

lemma is_hash_root:
  assumes "hash_fn sha" "\<forall>l \<in> set leaves. is_hash l"
  shows "is_hash (root_hash sha leaves)"
proof (cases "leaves = []")
  case True
  with assms show ?thesis by (simp add: root_hash.simps empty_root_def)
next
  case False
  then have "0 < length leaves" by simp
  then show ?thesis
  proof (cases rule: tree_cases)
    case 1
    with assms show ?thesis by (cases leaves) auto
  next
    case (2 j)
    with assms show ?thesis by (simp add: root_hash_split)
  qed
qed

lemma root_hash_inject:
  assumes "hash_fn sha" "length xs = length ys"
    and "\<forall>l \<in> set xs. is_hash l" "\<forall>l \<in> set ys. is_hash l"
    and "inj_on sha (set (root_msgs sha xs) \<union> set (root_msgs sha ys))"
    and "root_hash sha xs = root_hash sha ys"
  shows "xs = ys"
  using assms(2-)
proof (induction "length xs" arbitrary: xs ys rule: less_induct)
  case less
  show ?case
  proof (cases "xs = []")
    case True
    with less.prems show ?thesis by simp
  next
    case False
    then have "0 < length xs" by simp
    then show ?thesis
    proof (cases rule: tree_cases)
      case 1
      with less.prems obtain x y where "xs = [x]" "ys = [y]"
        by (metis length_0_conv length_Suc_conv)
      with less.prems show ?thesis by simp
    next
      case (2 j)
      let ?t = "take (2 ^ j)" and ?d = "drop (2 ^ j)"
      have 3: "2 ^ j < length ys" "length ys \<le> 2 ^ Suc j" using 2 less.prems(1) by auto
      have msgs: "root_msgs sha zs = ([NODE_PREFIX] @ root_hash sha (?t zs) @ root_hash sha (?d zs))
          # root_msgs sha (?t zs) @ root_msgs sha (?d zs)"
        if "2 ^ j < length zs" "length zs \<le> 2 ^ Suc j" for zs
      proof -
        have "length zs \<noteq> 0" "length zs \<noteq> 1" using that(1) one_le_power [of "2::nat" j] by auto
        then show ?thesis by (subst root_msgs.simps) (simp add: lpt_eqI [OF that] Let_def)
      qed
      note inj = less.prems(4) [unfolded msgs [OF 2] msgs [OF 3]]
      have "node_hash sha (root_hash sha (?t xs)) (root_hash sha (?d xs))
        = node_hash sha (root_hash sha (?t ys)) (root_hash sha (?d ys))"
        using less.prems(5) by (simp only: root_hash_split [OF 2] root_hash_split [OF 3])
      then have "sha ([NODE_PREFIX] @ root_hash sha (?t xs) @ root_hash sha (?d xs))
          = sha ([NODE_PREFIX] @ root_hash sha (?t ys) @ root_hash sha (?d ys))"
        by (simp only: node_hash_def)
      then have "[NODE_PREFIX] @ root_hash sha (?t xs) @ root_hash sha (?d xs)
          = [NODE_PREFIX] @ root_hash sha (?t ys) @ root_hash sha (?d ys)"
        by (rule inj_onD [OF inj]) (simp_all only: set_simps Un_iff insert_iff simp_thms)
      moreover have "is_hash (root_hash sha (?t xs))" "is_hash (root_hash sha (?t ys))"
        using less.prems(2,3) by (auto intro!: is_hash_root [OF assms(1)] dest: in_set_takeD)
      ultimately have eq: "root_hash sha (?t xs) = root_hash sha (?t ys)" "root_hash sha (?d xs) = root_hash sha (?d ys)"
        by (simp_all add: is_hash_append_inject)
      have "?t xs = ?t ys"
      proof (rule less.hyps)
        show "inj_on sha (set (root_msgs sha (?t xs)) \<union> set (root_msgs sha (?t ys)))"
          by (rule inj_on_subset [OF inj]) auto
      qed (use 2 less.prems(1-3) eq(1) in \<open>auto dest: in_set_takeD\<close>)
      moreover have "?d xs = ?d ys"
      proof (rule less.hyps)
        show "inj_on sha (set (root_msgs sha (?d xs)) \<union> set (root_msgs sha (?d ys)))"
          by (rule inj_on_subset [OF inj]) auto
      qed (use 2 less.prems(1-3) eq(2) in \<open>auto dest: in_set_dropD\<close>)
      ultimately show ?thesis by (metis append_take_drop_id)
    qed
  qed
qed

lemma tree_induct [consumes 1, case_names one split]:
  assumes "leaves \<noteq> []"
    and one: "\<And>x. P [x]"
    and split: "\<And>j leaves. 2 ^ j < length leaves \<Longrightarrow> length leaves \<le> 2 ^ Suc j \<Longrightarrow>
      P (take (2 ^ j) leaves) \<Longrightarrow> P (drop (2 ^ j) leaves) \<Longrightarrow> P leaves"
  shows "P leaves"
  using assms(1)
proof (induction "length leaves" arbitrary: leaves rule: less_induct)
  case less
  then have "0 < length leaves" by simp
  then show ?case
  proof (cases rule: tree_cases)
    case 1
    with one show ?thesis by (cases leaves) auto
  next
    case (2 j)
    then show ?thesis by (intro split [OF 2] less.hyps) auto
  qed
qed

lemma is_hash_inclusion_path:
  assumes "hash_fn sha" "\<forall>l \<in> set leaves. is_hash l" "p \<in> set (inclusion_path sha i leaves)"
  shows "is_hash p"
proof -
  from assms(3) have "leaves \<noteq> []" by auto
  then show ?thesis
    using assms(2,3)
  proof (induction leaves arbitrary: i rule: tree_induct)
    case (split j leaves)
    then have "is_hash (root_hash sha (take (2 ^ j) leaves))" "is_hash (root_hash sha (drop (2 ^ j) leaves))"
      by (auto intro!: is_hash_root [OF assms(1)] dest: in_set_takeD in_set_dropD)
    with split show ?case
      by (auto simp: inclusion_path_split dest: in_set_takeD in_set_dropD split: if_splits)
  qed simp
qed

lemma is_hash_subproof:
  assumes "hash_fn sha" "leaves \<noteq> []" "\<forall>l \<in> set leaves. is_hash l" "0 < m" "m \<le> length leaves"
  shows "\<exists>path. subproof sha m leaves b = Some path \<and> (\<forall>p \<in> set path. is_hash p)"
  using assms(2-)
proof (induction leaves arbitrary: m b rule: tree_induct)
  case (one x)
  then show ?case by (simp add: subproof_whole)
next
  case (split j leaves)
  have h: "is_hash (root_hash sha (take (2 ^ j) leaves))" "is_hash (root_hash sha (drop (2 ^ j) leaves))"
    using split.prems(1) by (auto intro!: is_hash_root [OF assms(1)] dest: in_set_takeD in_set_dropD)
  consider "m = length leaves" | "m \<noteq> length leaves" "m \<le> 2 ^ j" | "m \<noteq> length leaves" "2 ^ j < m" by linarith
  then show ?case
  proof cases
    case 1
    with split.prems show ?thesis using is_hash_root [OF assms(1)] by (simp add: subproof_whole)
  next
    case 2
    have "\<exists>path. subproof sha m (take (2 ^ j) leaves) b = Some path \<and> (\<forall>p \<in> set path. is_hash p)"
      using split.hyps split.prems 2 by (intro split.IH(1)) (auto dest: in_set_takeD)
    with 2 h show ?thesis by (auto simp: subproof_split [OF split.hyps])
  next
    case 3
    have "\<exists>path. subproof sha (m - 2 ^ j) (drop (2 ^ j) leaves) False = Some path \<and> (\<forall>p \<in> set path. is_hash p)"
      using split.hyps split.prems 3 by (intro split.IH(2)) (auto dest: in_set_dropD)
    with 3 h show ?thesis by (auto simp: subproof_split [OF split.hyps])
  qed
qed

text \<open>The premises of soundness: \<open>sha\<close> yields 32-byte digests, the values have the type
  \<open>[u8; 32]\<close>, and \<open>sha\<close> has no collision among the messages hashed by the verifier on the
  presented and on the honest proof.\<close>

definition inclusion_safe :: "(bytes \<Rightarrow> hash) \<Rightarrow> hash \<Rightarrow> nat \<Rightarrow> hash list \<Rightarrow> hash list \<Rightarrow> bool" where
  "inclusion_safe sha leaf i path leaves \<longleftrightarrow>
     hash_fn sha \<and> is_hash leaf \<and> list_all is_hash path \<and> list_all is_hash leaves
     \<and> inj_on sha (set (inclusion_msgs sha leaf i (length leaves) path)
          \<union> set (inclusion_msgs sha (leaves ! i) i (length leaves) (inclusion_path sha i leaves)))"

definition consistency_safe :: "(bytes \<Rightarrow> hash) \<Rightarrow> nat \<Rightarrow> hash list \<Rightarrow> hash \<Rightarrow> hash list \<Rightarrow> bool" where
  "consistency_safe sha m path first_hash leaves \<longleftrightarrow>
     hash_fn sha \<and> is_hash first_hash \<and> list_all is_hash path \<and> list_all is_hash leaves
     \<and> inj_on sha (set (consistency_msgs sha m (length leaves) path first_hash)
          \<union> set (case consistency_path sha m leaves of None \<Rightarrow> []
                 | Some p \<Rightarrow> consistency_msgs sha m (length leaves) p (root_hash sha (take m leaves))))"

lemma inclusion_complete:
  "i < length leaves \<Longrightarrow>
   verify_inclusion sha (leaves ! i) i (length leaves) (inclusion_path sha i leaves) (root_hash sha leaves)"
  using inclusion_loop_complete [of i leaves sha] by (simp add: verify_inclusion_def)

lemma verify_inclusion_iff:
  "verify_inclusion sha leaf i n path root \<longleftrightarrow>
   i < n \<and> length path = length (dirs i (n - 1)) \<and> root = climb sha (dirs i (n - 1)) leaf path"
  using inclusion_loop_iff [of sha i "n - 1" leaf path root]
  by (auto simp: verify_inclusion_def split: option.splits)

lemma verify_inclusion_in_range: "verify_inclusion sha leaf i n path root \<Longrightarrow> i < n"
  by (simp add: verify_inclusion_iff)

lemma inclusion_sound:
  assumes ok: "verify_inclusion sha leaf i (length leaves) path (root_hash sha leaves)"
    and safe: "inclusion_safe sha leaf i path leaves"
  shows "leaf = leaves ! i \<and> path = inclusion_path sha i leaves"
proof -
  let ?ds = "dirs i (length leaves - 1)"
  have i: "i < length leaves" using ok by (simp add: verify_inclusion_iff)
  have hs: "hash_fn sha" "\<forall>l \<in> set leaves. is_hash l"
    using safe by (auto simp: inclusion_safe_def list_all_iff)
  note honest = inclusion_complete [OF i, of sha, unfolded verify_inclusion_iff]
  show ?thesis
  proof (rule climb_inject [OF hs(1)])
    show "inj_on sha (set (climb_msgs sha ?ds leaf path) \<union> set (climb_msgs sha ?ds (leaves ! i) (inclusion_path sha i leaves)))"
      using safe by (simp add: inclusion_safe_def inclusion_msgs_def)
    show "climb sha ?ds leaf path = climb sha ?ds (leaves ! i) (inclusion_path sha i leaves)"
      using ok honest by (simp add: verify_inclusion_iff)
    show "\<forall>p \<in> set (inclusion_path sha i leaves). is_hash p"
      using is_hash_inclusion_path [OF hs] by blast
  qed (use safe ok honest hs i in \<open>auto simp: inclusion_safe_def verify_inclusion_iff list_all_iff\<close>)
qed

lemma consistency_msgs_unfold:
  assumes "strip_ones (first - 1) (second - 1) = (F, S)"
    and "(if is_power_of_two first then [first_hash] else []) @ path = w # ws"
  shows "consistency_msgs sha first second path first_hash = climb_msgs sha (dirs F S) w ws"
  using assms by (simp add: consistency_msgs_def)

lemma consistency_sound:
  assumes ok: "verify_consistency sha m (length leaves) path first_hash (root_hash sha leaves)"
    and safe: "consistency_safe sha m path first_hash leaves"
  shows "0 < m \<and> m \<le> length leaves \<and> first_hash = root_hash sha (take m leaves)
    \<and> consistency_path sha m leaves = Some path"
proof -
  have m: "0 < m" "m \<le> length leaves"
    using ok by (auto simp: verify_consistency_def split: if_splits)
  have hs: "hash_fn sha" "\<forall>l \<in> set leaves. is_hash l"
    using safe by (auto simp: consistency_safe_def list_all_iff)
  show ?thesis
  proof (cases "m = length leaves")
    case True
    with ok m show ?thesis
      by (simp add: verify_consistency_def consistency_path_def subproof_whole)
  next
    case False
    with m have m': "0 < m" "m < length leaves" by auto
    obtain F S where FS: "strip_ones (m - 1) (length leaves - 1) = (F, S)" by fastforce
    obtain v us where v: "consistency_path sha m leaves = Some (if is_power_of_two m then us else v # us)"
        "is_power_of_two m \<longrightarrow> v = root_hash sha (take m leaves)"
        "consistency_loop sha F S v v us = Some (0, root_hash sha (take m leaves), root_hash sha leaves)"
      using consistency_path_honest [OF m' FS, of sha] by blast
    obtain w ws where w: "(if is_power_of_two m then [first_hash] else []) @ path = w # ws"
        "consistency_loop sha F S w w ws = Some (0, first_hash, root_hash sha leaves)"
      using ok unfolding verify_consistency_unfold [OF m' FS] by blast
    let ?ds = "dirs F S" and ?p = "if is_power_of_two m then us else v # us"
    have "leaves \<noteq> []" using m' by auto
    then have vh: "\<forall>p \<in> set (v # us). is_hash p"
      using is_hash_subproof [OF hs(1) _ hs(2) m, of True] v(1,2) is_hash_root [OF hs(1), of "take m leaves"] hs(2)
      by (auto simp: consistency_path_def dest: in_set_takeD split: if_splits)
    have wh: "\<forall>p \<in> set (w # ws). is_hash p"
      using safe w(1) by (auto simp: consistency_safe_def list_all_iff split: if_splits)
    have hon: "(if is_power_of_two m then [root_hash sha (take m leaves)] else []) @ ?p = v # us"
      using v(2) by simp
    have inj: "inj_on sha (set (climb_msgs sha ?ds w ws) \<union> set (climb_msgs sha ?ds v us))"
      using safe unfolding consistency_safe_def v(1) option.case
        consistency_msgs_unfold [OF FS w(1)] consistency_msgs_unfold [OF FS hon] by blast
    have eqs: "w = v \<and> ws = us"
      by (rule climb_inject [OF hs(1) inj])
        (use v(3) w(2) vh wh in \<open>auto simp: consistency_loop_iff\<close>)
    then have "first_hash = root_hash sha (take m leaves)" using v(3) w(2) by simp
    moreover have "path = ?p" using w(1) eqs by (auto split: if_splits)
    ultimately show ?thesis using m v(1) by simp
  qed
qed

section \<open>The audited list\<close>

text \<open>The interface the log relies on: a scheme with which a holder of the root alone checks single
  elements of a list. \<open>safe\<close> collects the premises under which an accepted proof is believed.\<close>

locale inclusion_scheme =
  fixes root :: "'h list \<Rightarrow> 'h"
    and prove :: "nat \<Rightarrow> 'h list \<Rightarrow> 'p"
    and verify :: "'h \<Rightarrow> nat \<Rightarrow> nat \<Rightarrow> 'p \<Rightarrow> 'h \<Rightarrow> bool"
    and safe :: "'h \<Rightarrow> nat \<Rightarrow> 'p \<Rightarrow> 'h list \<Rightarrow> bool"
  assumes complete: "i < length xs \<Longrightarrow> verify (xs ! i) i (length xs) (prove i xs) (root xs)"
    and in_range: "verify x i n p r \<Longrightarrow> i < n"
    and sound: "verify x i (length xs) p (root xs) \<Longrightarrow> safe x i p xs \<Longrightarrow> x = xs ! i"
begin

lemma accepted_is_member:
  "verify x i (length xs) p (root xs) \<Longrightarrow> safe x i p xs \<Longrightarrow> x \<in> set xs"
  using in_range sound by (metis nth_mem)

lemma position_binds:
  assumes "verify x i (length xs) p (root xs)" "safe x i p xs"
    and "verify y i (length xs) q (root xs)" "safe y i q xs"
  shows "x = y"
  using assms sound by metis

lemma complete_map:
  "i < length es \<Longrightarrow> verify (h (es ! i)) i (length es) (prove i (map h es)) (root (map h es))"
  using complete [of i "map h es"] by simp

end

interpretation merkle: inclusion_scheme
  "root_hash sha" "inclusion_path sha" "verify_inclusion sha" "inclusion_safe sha" for sha
  by unfold_locales (auto simp: inclusion_complete dest: inclusion_sound verify_inclusion_in_range)

section \<open>Properties\<close>

text \<open>A 32-byte checksum, to instantiate \<open>sha\<close> in the examples.\<close>

definition checksum :: "bytes \<Rightarrow> hash" where
  "checksum m = replicate 32 (sum_list m)"

lemma hash_fn_checksum: "hash_fn checksum"
  by (simp add: hash_fn_def is_hash_def checksum_def)

abbreviation leaf1 :: hash where "leaf1 \<equiv> replicate 32 1"
abbreviation leaf2 :: hash where "leaf2 \<equiv> replicate 32 2"
abbreviation leaf3 :: hash where "leaf3 \<equiv> replicate 32 3"

text \<open>C14. Inclusion proofs are complete: for every list of leaf hashes and every index in range, the
  verifier accepts the path that \<open>inclusion_path\<close> generates, for the leaf at that index, against the
  root that \<open>root_hash\<close> computes. No assumption on the hash function is needed.\<close>

theorem verify_inclusion_accepts_generated_path:
  assumes "index < length leaves"
  shows "verify_inclusion sha (leaves ! index) index (length leaves)
    (inclusion_path sha index leaves) (root_hash sha leaves)"
  using assms by (rule merkle.complete)

theorem verify_inclusion_accepts_generated_path_witness:
  "1 < length [leaf1, leaf2, leaf3] \<and> verify_inclusion checksum leaf2 1 3
    (inclusion_path checksum 1 [leaf1, leaf2, leaf3]) (root_hash checksum [leaf1, leaf2, leaf3])"
  using verify_inclusion_accepts_generated_path [of 1 "[leaf1, leaf2, leaf3]" checksum]
  by (simp add: numeral_3_eq_3)

text \<open>C2. Inclusion proofs are sound: whatever leaf and path the verifier accepts at an index against the
  root of a list of leaf hashes, the index is in range, the leaf is the one at that index and the path
  is the generated one, unless \<open>sha\<close> collides on the messages hashed on the way.\<close>

theorem verify_inclusion_only_generated_path:
  assumes "verify_inclusion sha leaf index (length leaves) path (root_hash sha leaves)"
    and "inclusion_safe sha leaf index path leaves"
  shows "index < length leaves \<and> leaf = leaves ! index \<and> path = inclusion_path sha index leaves"
  using merkle.in_range [OF assms(1)] inclusion_sound [OF assms] by blast

lemma dirs_1_1: "dirs 1 1 = [True]"
  by (simp add: dirs.simps)

lemma pair_safe: "inclusion_safe checksum leaf2 1 [leaf1] [leaf1, leaf2]"
  by (simp add: inclusion_safe_def hash_fn_checksum inclusion_msgs_def dirs_1_1 [simplified]
      is_hash_def inclusion_path.simps largest_power_of_two_below_def while_unfold)

theorem verify_inclusion_only_generated_path_witness:
  "verify_inclusion checksum leaf2 1 (length [leaf1, leaf2]) [leaf1] (root_hash checksum [leaf1, leaf2])
   \<and> inclusion_safe checksum leaf2 1 [leaf1] [leaf1, leaf2]
   \<and> leaf2 = [leaf1, leaf2] ! 1 \<and> [leaf1] = inclusion_path checksum 1 [leaf1, leaf2]"
proof -
  have ok: "verify_inclusion checksum leaf2 1 (length [leaf1, leaf2]) [leaf1] (root_hash checksum [leaf1, leaf2])"
    by (simp add: verify_inclusion_def root_hash.simps largest_power_of_two_below_def while_unfold)
  show ?thesis
    using ok pair_safe verify_inclusion_only_generated_path [OF ok pair_safe] by blast
qed

text \<open>C13. Consistency proofs are complete, and their generation ends: for every size \<open>m\<close> between 1 and the
  number of leaves, \<open>consistency_path\<close> returns a path, and the verifier accepts it between the root
  of the first \<open>m\<close> leaves and the root of all leaves.\<close>

theorem verify_consistency_accepts_generated_path:
  assumes "0 < m" and "m \<le> length leaves"
  shows "\<exists>path. consistency_path sha m leaves = Some path \<and>
    verify_consistency sha m (length leaves) path (root_hash sha (take m leaves)) (root_hash sha leaves)"
  using assms by (rule consistency_complete)

theorem verify_consistency_accepts_generated_path_witness:
  "(0::nat) < 2 \<and> 2 \<le> length [leaf1, leaf2, leaf3] \<and>
   (\<exists>path. consistency_path checksum 2 [leaf1, leaf2, leaf3] = Some path \<and>
     verify_consistency checksum 2 (length [leaf1, leaf2, leaf3]) path
       (root_hash checksum (take 2 [leaf1, leaf2, leaf3])) (root_hash checksum [leaf1, leaf2, leaf3]))"
proof -
  have h: "(0::nat) < 2" "2 \<le> length [leaf1, leaf2, leaf3]" by simp_all
  show ?thesis using h verify_consistency_accepts_generated_path [OF h, of checksum] by blast
qed

lemma consistency_1_2:
  "consistency_path checksum 1 [leaf1, leaf2] = Some [leaf2]"
  "consistency_msgs checksum 1 2 [leaf2] leaf1 = [[NODE_PREFIX] @ leaf1 @ leaf2]"
  by (simp_all add: consistency_path_def subproof.simps largest_power_of_two_below_def while_unfold
      consistency_msgs_def is_power_of_two_def strip_ones.simps dirs.simps)

lemma consistency_safe_1_2: "consistency_safe checksum 1 [leaf2] leaf1 [leaf1, leaf2]"
  using consistency_1_2 by (simp add: consistency_safe_def hash_fn_checksum is_hash_def numeral_2_eq_2)

lemma verify_consistency_1_2:
  "verify_consistency checksum 1 (length [leaf1, leaf2]) [leaf2] leaf1 (root_hash checksum [leaf1, leaf2])"
  by (simp add: verify_consistency_def is_power_of_two_def strip_ones.simps root_hash.simps
      largest_power_of_two_below_def while_unfold)

text \<open>C3. The log is append-only between two heads that a consistency proof connects: if the old and the new
  root are the roots of two lists of leaf hashes of the stated sizes and the verifier accepts, the old
  list is a prefix of the new one, unless \<open>sha\<close> collides on the messages hashed by the verifier or by
  the tree hash of the old leaves and of the new leaves' prefix.\<close>

theorem verify_consistency_append_only:
  assumes "verify_consistency sha (length old) (length new) path (root_hash sha old) (root_hash sha new)"
    and "consistency_safe sha (length old) path (root_hash sha old) new"
    and "list_all is_hash old"
    and "inj_on sha (set (root_msgs sha old) \<union> set (root_msgs sha (take (length old) new)))"
  shows "\<exists>appended. new = old @ appended"
proof -
  have s: "length old \<le> length new" "root_hash sha old = root_hash sha (take (length old) new)"
    using consistency_sound [OF assms(1,2)] by auto
  have "old = take (length old) new"
    using assms(2-4) s by (intro root_hash_inject [of sha])
      (auto simp: consistency_safe_def list_all_iff dest: in_set_takeD)
  then show ?thesis by (metis append_take_drop_id)
qed

theorem verify_consistency_append_only_witness:
  "verify_consistency checksum (length [leaf1]) (length [leaf1, leaf2]) [leaf2]
     (root_hash checksum [leaf1]) (root_hash checksum [leaf1, leaf2])
   \<and> (\<exists>appended. [leaf1, leaf2] = [leaf1] @ appended)"
proof -
  have h: "verify_consistency checksum (length [leaf1]) (length [leaf1, leaf2]) [leaf2]
     (root_hash checksum [leaf1]) (root_hash checksum [leaf1, leaf2])"
    using verify_consistency_1_2 by simp
  have "consistency_safe checksum (length [leaf1]) [leaf2] (root_hash checksum [leaf1]) [leaf1, leaf2]"
    using consistency_safe_1_2 by simp
  moreover have "inj_on checksum (set (root_msgs checksum [leaf1])
      \<union> set (root_msgs checksum (take (length [leaf1]) [leaf1, leaf2])))"
    by (simp add: root_msgs.simps)
  moreover have "list_all is_hash [leaf1]" by (simp add: is_hash_def)
  ultimately show ?thesis using h verify_consistency_append_only [OF h] by blast
qed

end
