(* ===== verification/Vlog_Log.thy ===== *)
theory Vlog_Log
  imports Vlog_Merkle_Sound
begin

text \<open>
  The log of the \<open>verifiable-log\<close> crate around the tree: errors (\<open>error.rs\<close>), hex on the wire
  (\<open>hash.rs\<close>), entries, tenant rules and the append-only log (\<open>log.rs\<close>), the wire proofs and
  their standalone verifiers (\<open>proof.rs\<close>), and signed tree heads (\<open>sth.rs\<close>).

  The crates \<open>sha2\<close>, \<open>hex\<close> and \<open>ed25519_dalek\<close> are the fields of the record \<open>lib\<close>, which
  every definition that calls them takes. What is assumed of them is in \<open>lib_ok\<close>: digests,
  signatures and public keys have their fixed lengths, decoding inverts hex encoding, and a
  signature made with a key verifies under its public key.
\<close>

section \<open>Third-party crates\<close>

record lib =
  sha256 :: "bytes \<Rightarrow> hash"
  hex_encode :: "bytes \<Rightarrow> string"
  hex_decode :: "string \<Rightarrow> string + bytes"
  ed_sign :: "bytes \<Rightarrow> bytes \<Rightarrow> bytes"
  ed_public :: "bytes \<Rightarrow> bytes"
  ed_from_bytes :: "bytes \<Rightarrow> bytes option"
  ed_verify :: "bytes \<Rightarrow> bytes \<Rightarrow> bytes \<Rightarrow> bool"

definition hex_ok :: "lib \<Rightarrow> bool" where
  "hex_ok L = (\<forall>b. hex_decode L (hex_encode L b) = Inr b)"

definition ed25519_ok :: "lib \<Rightarrow> bool" where
  "ed25519_ok L = (\<forall>k m. length (ed_sign L k m) = 64 \<and> length (ed_public L k) = 32
     \<and> ed_from_bytes L (ed_public L k) = Some (ed_public L k)
     \<and> ed_verify L (ed_public L k) m (ed_sign L k m))"

definition lib_ok :: "lib \<Rightarrow> bool" where
  "lib_ok L = (hash_fn (sha256 L) \<and> hex_ok L \<and> ed25519_ok L)"

section \<open>Errors (error.rs)\<close>

record invariant_violation =
  iv_tenant :: string
  iv_message :: string

datatype vl_error =
    IndexOutOfRange nat nat
  | InvalidTreeSizes nat nat
  | Invariant invariant_violation
  | Hex string
  | BadHashLength nat
  | BadSignatureLength nat
  | BadPublicKeyLength nat
  | BadPublicKey

definition iv_new :: "string \<Rightarrow> string \<Rightarrow> invariant_violation" where
  "iv_new t msg = \<lparr>iv_tenant = t, iv_message = msg\<rparr>"

section \<open>Hex on the wire (hash.rs)\<close>

definition to_hex :: "lib \<Rightarrow> hash \<Rightarrow> string" where
  "to_hex L h = hex_encode L h"

definition from_hex :: "lib \<Rightarrow> string \<Rightarrow> vl_error + hash" where
  "from_hex L s = bind_res (map_err Hex (hex_decode L s))
     (\<lambda>bs. if length bs \<noteq> 32 then Inl (BadHashLength (length bs)) else Inr bs)"

section \<open>Entries and tenant rules (log.rs)\<close>

record entry =
  tenant :: string
  data :: bytes

definition entry_new :: "string \<Rightarrow> bytes \<Rightarrow> entry" where
  "entry_new t d = \<lparr>tenant = t, data = d\<rparr>"

text \<open>\<open>tenant.len() as u32\<close> truncates a length of \<open>2 ^ 32\<close> or more.\<close>

definition entry_encode :: "entry \<Rightarrow> bytes" where
  "entry_encode e =
     (let t = as_bytes (tenant e)
      in be_bytes 4 (word_of_nat (length t) :: u32) @ t @ data e)"

definition entry_leaf_hash :: "lib \<Rightarrow> entry \<Rightarrow> hash" where
  "entry_leaf_hash L e = leaf_hash (sha256 L) (entry_encode e)"

text \<open>A \<open>TenantInvariant\<close> is its \<open>check\<close>: the committed entries of the tenant, the candidate.\<close>

type_synonym tenant_invariant = "entry list \<Rightarrow> entry \<Rightarrow> invariant_violation + unit"

definition unique_data_check :: tenant_invariant where
  "unique_data_check existing candidate =
     (if list_ex (\<lambda>e. data e = data candidate) existing
      then Inl (iv_new (tenant candidate)
        (''duplicate entry for tenant `'' @ tenant candidate @ ''` (payload already committed)''))
      else Inr ())"

section \<open>The log (log.rs)\<close>

record vlog =
  vl_entries :: "entry list"
  vl_leaves :: "hash list"
  vl_invariants :: "string \<rightharpoonup> tenant_invariant"

definition vlog_new :: vlog where
  "vlog_new = \<lparr>vl_entries = [], vl_leaves = [], vl_invariants = Map.empty\<rparr>"

definition register_invariant :: "vlog \<Rightarrow> string \<Rightarrow> tenant_invariant \<Rightarrow> vlog" where
  "register_invariant log t rule = log\<lparr>vl_invariants := (vl_invariants log)(t \<mapsto> rule)\<rparr>"

definition vlog_append :: "lib \<Rightarrow> vlog \<Rightarrow> entry \<Rightarrow> (vl_error + nat) \<times> vlog" where
  "vlog_append L log e =
     (let checked = (case vl_invariants log (tenant e) of
             None \<Rightarrow> Inr ()
           | Some rule \<Rightarrow> rule (filter (\<lambda>x. tenant x = tenant e) (vl_entries log)) e)
      in case checked of
           Inl v \<Rightarrow> (Inl (Invariant v), log)
         | Inr _ \<Rightarrow>
             (Inr (length (vl_entries log)),
              log\<lparr>vl_leaves := vl_leaves log @ [entry_leaf_hash L e],
                  vl_entries := vl_entries log @ [e]\<rparr>))"

definition vlog_size :: "vlog \<Rightarrow> nat" where
  "vlog_size log = length (vl_entries log)"

definition vlog_is_empty :: "vlog \<Rightarrow> bool" where
  "vlog_is_empty log = (vl_entries log = [])"

definition vlog_root :: "lib \<Rightarrow> vlog \<Rightarrow> hash" where
  "vlog_root L log = root_hash (sha256 L) (vl_leaves log)"

definition vlog_root_at :: "lib \<Rightarrow> vlog \<Rightarrow> nat \<Rightarrow> vl_error + hash" where
  "vlog_root_at L log n =
     (if n > length (vl_leaves log) then Inl (IndexOutOfRange n (length (vl_leaves log)))
      else Inr (root_hash (sha256 L) (take n (vl_leaves log))))"

definition vlog_entry :: "vlog \<Rightarrow> nat \<Rightarrow> entry option" where
  "vlog_entry log i = (if i < length (vl_entries log) then Some (vl_entries log ! i) else None)"

section \<open>Signed tree heads (sth.rs)\<close>

record sth =
  sth_tree_size :: u64
  sth_root_hash :: string
  sth_timestamp :: u64
  sth_signature :: string

definition STH_DOMAIN :: bytes where
  "STH_DOMAIN = as_bytes ''pollis-verifiable-log:sth:v1''"

definition signing_message_with_context :: "bytes \<Rightarrow> u64 \<Rightarrow> hash \<Rightarrow> u64 \<Rightarrow> bytes" where
  "signing_message_with_context ctxt tsize root timestamp =
     ctxt @ be_bytes 8 tsize @ root @ be_bytes 8 timestamp"

definition sth_create_with_context :: "lib \<Rightarrow> bytes \<Rightarrow> u64 \<Rightarrow> hash \<Rightarrow> u64 \<Rightarrow> bytes \<Rightarrow> sth" where
  "sth_create_with_context L key tsize root timestamp ctxt =
     (let message = signing_message_with_context ctxt tsize root timestamp;
          signature = ed_sign L key message
      in \<lparr>sth_tree_size = tsize, sth_root_hash = to_hex L root, sth_timestamp = timestamp,
          sth_signature = hex_encode L signature\<rparr>)"

definition sth_create :: "lib \<Rightarrow> bytes \<Rightarrow> u64 \<Rightarrow> hash \<Rightarrow> u64 \<Rightarrow> sth" where
  "sth_create L key tsize root timestamp = sth_create_with_context L key tsize root timestamp STH_DOMAIN"

definition root_bytes :: "lib \<Rightarrow> sth \<Rightarrow> vl_error + hash" where
  "root_bytes L s = from_hex L (sth_root_hash s)"

definition sig_from_hex :: "lib \<Rightarrow> string \<Rightarrow> vl_error + bytes" where
  "sig_from_hex L s = bind_res (map_err Hex (hex_decode L s))
     (\<lambda>bs. if length bs \<noteq> 64 then Inl (BadSignatureLength (length bs)) else Inr bs)"

definition verifying_key_from_hex :: "lib \<Rightarrow> string \<Rightarrow> vl_error + bytes" where
  "verifying_key_from_hex L s = bind_res (map_err Hex (hex_decode L s))
     (\<lambda>bs. if length bs \<noteq> 32 then Inl (BadPublicKeyLength (length bs))
       else case ed_from_bytes L bs of None \<Rightarrow> Inl BadPublicKey | Some vk \<Rightarrow> Inr vk)"

definition verify_with_context :: "lib \<Rightarrow> sth \<Rightarrow> bytes \<Rightarrow> bytes \<Rightarrow> bool" where
  "verify_with_context L s vk ctxt =
     (case root_bytes L s of
        Inl _ \<Rightarrow> False
      | Inr root \<Rightarrow>
          (case sig_from_hex L (sth_signature s) of
             Inl _ \<Rightarrow> False
           | Inr signature \<Rightarrow>
               ed_verify L vk
                 (signing_message_with_context ctxt (sth_tree_size s) root (sth_timestamp s)) signature))"

definition sth_verify :: "lib \<Rightarrow> sth \<Rightarrow> bytes \<Rightarrow> bool" where
  "sth_verify L s vk = verify_with_context L s vk STH_DOMAIN"

definition is_equivocation :: "sth \<Rightarrow> sth \<Rightarrow> bool" where
  "is_equivocation a b = (sth_tree_size a = sth_tree_size b \<and> sth_root_hash a \<noteq> sth_root_hash b)"

definition signed_tree_head :: "lib \<Rightarrow> vlog \<Rightarrow> bytes \<Rightarrow> u64 \<Rightarrow> sth" where
  "signed_tree_head L log key timestamp =
     sth_create L key (word_of_nat (vlog_size log)) (vlog_root L log) timestamp"

section \<open>Wire proofs (log.rs, proof.rs)\<close>

record inclusion_proof =
  ip_leaf_index :: u64
  ip_tree_size :: u64
  ip_audit_path :: "string list"

record consistency_proof =
  cp_first_size :: u64
  cp_second_size :: u64
  cp_path :: "string list"

definition vlog_inclusion_proof :: "lib \<Rightarrow> vlog \<Rightarrow> nat \<Rightarrow> vl_error + inclusion_proof" where
  "vlog_inclusion_proof L log index =
     (if index \<ge> length (vl_leaves log) then Inl (IndexOutOfRange index (length (vl_leaves log)))
      else let path = inclusion_path (sha256 L) index (vl_leaves log) in
        Inr \<lparr>ip_leaf_index = word_of_nat index, ip_tree_size = word_of_nat (length (vl_leaves log)),
             ip_audit_path = map (to_hex L) path\<rparr>)"

text \<open>\<open>None\<close> would be a call of \<open>consistency_path\<close> that does not return.\<close>

definition vlog_consistency_proof :: "lib \<Rightarrow> vlog \<Rightarrow> nat \<Rightarrow> nat \<Rightarrow> (vl_error + consistency_proof) option" where
  "vlog_consistency_proof L log first second =
     (if first = 0 \<or> first > second \<or> second > length (vl_leaves log)
      then Some (Inl (InvalidTreeSizes first second))
      else map_option (\<lambda>path. Inr \<lparr>cp_first_size = word_of_nat first, cp_second_size = word_of_nat second,
              cp_path = map (to_hex L) path\<rparr>)
             (consistency_path (sha256 L) first (take second (vl_leaves log))))"

definition decode_path :: "lib \<Rightarrow> string list \<Rightarrow> vl_error + hash list" where
  "decode_path L hexes = map_res (from_hex L) hexes"

definition verify_inclusion_proof :: "lib \<Rightarrow> entry \<Rightarrow> inclusion_proof \<Rightarrow> sth \<Rightarrow> bool" where
  "verify_inclusion_proof L e p s =
     (if ip_tree_size p \<noteq> sth_tree_size s then False
      else case root_bytes L s of
        Inl _ \<Rightarrow> False
      | Inr root \<Rightarrow>
          (case decode_path L (ip_audit_path p) of
             Inl _ \<Rightarrow> False
           | Inr path \<Rightarrow>
               verify_inclusion (sha256 L) (entry_leaf_hash L e) (unat (ip_leaf_index p))
                 (unat (ip_tree_size p)) path root))"

definition verify_consistency_proof :: "lib \<Rightarrow> sth \<Rightarrow> sth \<Rightarrow> consistency_proof \<Rightarrow> bool" where
  "verify_consistency_proof L old new p =
     (if cp_first_size p \<noteq> sth_tree_size old \<or> cp_second_size p \<noteq> sth_tree_size new then False
      else case root_bytes L old of
        Inl _ \<Rightarrow> False
      | Inr old_root \<Rightarrow>
          (case root_bytes L new of
             Inl _ \<Rightarrow> False
           | Inr new_root \<Rightarrow>
               (case decode_path L (cp_path p) of
                  Inl _ \<Rightarrow> False
                | Inr path \<Rightarrow>
                    verify_consistency (sha256 L) (unat (cp_first_size p)) (unat (cp_second_size p))
                      path old_root new_root)))"

section \<open>Hex and encoding lemmas\<close>

lemma from_hex_to_hex: "hex_ok L \<Longrightarrow> is_hash h \<Longrightarrow> from_hex L (to_hex L h) = Inr h"
  by (simp add: from_hex_def to_hex_def hex_ok_def is_hash_def)

lemma from_hex_is_hash: "from_hex L s = Inr h \<Longrightarrow> is_hash h"
  by (auto simp: from_hex_def bind_res_eq_Inr is_hash_def split: if_splits)

lemma decode_path_encoded:
  "hex_ok L \<Longrightarrow> \<forall>h \<in> set path. is_hash h \<Longrightarrow> decode_path L (map (to_hex L) path) = Inr path"
  using map_res_map [of path "from_hex L" "to_hex L" "\<lambda>h. h"]
  by (simp add: decode_path_def from_hex_to_hex)

lemma decode_path_is_hash: "decode_path L hexes = Inr path \<Longrightarrow> list_all is_hash path"
  unfolding decode_path_def map_res_Inr_iff
  by (induction hexes path rule: list_all2_induct) (auto dest: from_hex_is_hash)

lemma is_hash_leaf_hash [simp]: "hash_fn sha \<Longrightarrow> is_hash (leaf_hash sha b)"
  by (simp add: leaf_hash_def)

lemma entry_encode_inject:
  assumes "length (tenant a) < 2 ^ 32" "length (tenant b) < 2 ^ 32"
  shows "entry_encode a = entry_encode b \<longleftrightarrow> a = b"
proof
  assume eq: "entry_encode a = entry_encode b"
  then have "(word_of_nat (length (tenant a)) :: u32) = word_of_nat (length (tenant b))"
    by (simp add: entry_encode_def Let_def append_eq_append_conv)
  then have "unat (word_of_nat (length (tenant a)) :: u32) = unat (word_of_nat (length (tenant b)) :: u32)"
    by (rule arg_cong)
  with assms have "length (tenant a) = length (tenant b)"
    by (simp add: unat_of_nat)
  with eq show "a = b" by (simp add: entry_encode_def Let_def append_eq_append_conv)
qed simp

section \<open>The invariant of the log\<close>

text \<open>The leaves are the leaf hashes of the entries, in the same order.\<close>

definition vlog_inv :: "lib \<Rightarrow> vlog \<Rightarrow> bool" where
  "vlog_inv L log = (vl_leaves log = map (entry_leaf_hash L) (vl_entries log))"

lemma vlog_inv_new [simp]: "vlog_inv L vlog_new"
  by (simp add: vlog_inv_def vlog_new_def)

lemma vlog_inv_register [simp]: "vlog_inv L (register_invariant log t rule) = vlog_inv L log"
  by (simp add: vlog_inv_def register_invariant_def)

lemma vlog_append_cases:
  obtains (rejected) v where "vlog_append L log e = (Inl (Invariant v), log)"
    and "\<exists>rule. vl_invariants log (tenant e) = Some rule
      \<and> rule (filter (\<lambda>x. tenant x = tenant e) (vl_entries log)) e = Inl v"
  | (accepted) "vlog_append L log e = (Inr (length (vl_entries log)),
      log\<lparr>vl_leaves := vl_leaves log @ [entry_leaf_hash L e], vl_entries := vl_entries log @ [e]\<rparr>)"
    and "\<And>rule. vl_invariants log (tenant e) = Some rule \<Longrightarrow>
      rule (filter (\<lambda>x. tenant x = tenant e) (vl_entries log)) e = Inr ()"
proof (cases "vl_invariants log (tenant e)")
  case None
  then show ?thesis by (intro accepted) (simp_all add: vlog_append_def)
next
  case (Some rule)
  then show ?thesis
  proof (cases "rule (filter (\<lambda>x. tenant x = tenant e) (vl_entries log)) e")
    case (Inl v)
    with Some show ?thesis by (intro rejected) (simp_all add: vlog_append_def)
  next
    case (Inr u)
    with Some show ?thesis by (intro accepted) (simp_all add: vlog_append_def)
  qed
qed

lemma vlog_inv_append: "vlog_inv L log \<Longrightarrow> vlog_inv L (snd (vlog_append L log e))"
  by (rule vlog_append_cases [of L log e]) (simp_all add: vlog_inv_def)

lemma vl_invariants_append [simp]: "vl_invariants (snd (vlog_append L log e)) = vl_invariants log"
  by (rule vlog_append_cases [of L log e]) simp_all

lemma is_hash_vl_leaves: "hash_fn (sha256 L) \<Longrightarrow> vlog_inv L log \<Longrightarrow> \<forall>l \<in> set (vl_leaves log). is_hash l"
  by (auto simp: vlog_inv_def entry_leaf_hash_def)

section \<open>Proofs made by the log verify\<close>

lemma root_bytes_created [simp]:
  "hex_ok L \<Longrightarrow> is_hash root \<Longrightarrow>
   root_bytes L (sth_create_with_context L key n root ts ctxt) = Inr root"
  by (simp add: root_bytes_def sth_create_with_context_def Let_def from_hex_to_hex)

lemma sth_tree_size_created [simp]: "sth_tree_size (sth_create_with_context L key n root ts ctxt) = n"
  by (simp add: sth_create_with_context_def Let_def)

lemma sth_root_hash_created [simp]:
  "sth_root_hash (sth_create_with_context L key n root ts ctxt) = to_hex L root"
  by (simp add: sth_create_with_context_def Let_def)

lemma verify_created:
  assumes "lib_ok L" "is_hash root"
  shows "verify_with_context L (sth_create_with_context L key n root ts ctxt) (ed_public L key) ctxt"
proof -
  have "hex_ok L" "ed25519_ok L" using assms(1) by (auto simp: lib_ok_def)
  then have "sig_from_hex L (hex_encode L (ed_sign L key m)) = Inr (ed_sign L key m)" for m
    by (simp add: sig_from_hex_def hex_ok_def ed25519_ok_def)
  with \<open>hex_ok L\<close> \<open>ed25519_ok L\<close> assms(2) show ?thesis
    by (simp add: verify_with_context_def)
      (simp add: sth_create_with_context_def Let_def ed25519_ok_def)
qed

lemma inclusion_proof_verifies:
  assumes "lib_ok L" "vlog_inv L log" "i < vlog_size log" "vlog_size log < 2 ^ 64"
    and "vlog_inclusion_proof L log i = Inr p"
    and "root_bytes L s = Inr (vlog_root L log)" "sth_tree_size s = word_of_nat (vlog_size log)"
  shows "verify_inclusion_proof L (vl_entries log ! i) p s"
proof -
  let ?sha = "sha256 L" and ?n = "length (vl_leaves log)"
  have ok: "hash_fn ?sha" "hex_ok L" using assms(1) by (auto simp: lib_ok_def)
  have n: "?n = vlog_size log" using assms(2) by (simp add: vlog_inv_def vlog_size_def)
  note leaves = is_hash_vl_leaves [OF ok(1) assms(2)]
  have p: "p = \<lparr>ip_leaf_index = word_of_nat i, ip_tree_size = word_of_nat ?n,
      ip_audit_path = map (to_hex L) (inclusion_path ?sha i (vl_leaves log))\<rparr>"
    using assms(3,5) n by (simp add: vlog_inclusion_proof_def)
  have dec: "decode_path L (ip_audit_path p) = Inr (inclusion_path ?sha i (vl_leaves log))"
    using is_hash_inclusion_path [OF ok(1) leaves] by (simp add: p decode_path_encoded [OF ok(2)])
  have "unat (word_of_nat i :: u64) = i" "unat (word_of_nat ?n :: u64) = ?n"
    using assms(3,4) n by (simp_all add: unat_of_nat)
  moreover have "verify_inclusion ?sha (entry_leaf_hash L (vl_entries log ! i)) i ?n
      (inclusion_path ?sha i (vl_leaves log)) (root_hash ?sha (vl_leaves log))"
    using merkle.complete_map [of i "vl_entries log" ?sha "entry_leaf_hash L"] assms(2,3)
    by (simp add: vlog_inv_def vlog_size_def)
  ultimately show ?thesis
    using assms(6,7) n by (simp add: verify_inclusion_proof_def dec vlog_root_def) (simp add: p)
qed

lemma consistency_proof_verifies:
  assumes "lib_ok L" "vlog_inv L log" "0 < a" "a \<le> b" "b \<le> vlog_size log" "vlog_size log < 2 ^ 64"
  shows "\<exists>p. vlog_consistency_proof L log a b = Some (Inr p)
    \<and> (\<forall>old new ra rb. vlog_root_at L log a = Inr ra \<longrightarrow> vlog_root_at L log b = Inr rb
        \<longrightarrow> root_bytes L old = Inr ra \<longrightarrow> sth_tree_size old = word_of_nat a
        \<longrightarrow> root_bytes L new = Inr rb \<longrightarrow> sth_tree_size new = word_of_nat b
        \<longrightarrow> verify_consistency_proof L old new p)"
proof -
  let ?sha = "sha256 L" and ?lv = "take b (vl_leaves log)"
  have ok: "hash_fn ?sha" "hex_ok L" using assms(1) by (auto simp: lib_ok_def)
  have n: "length (vl_leaves log) = vlog_size log" using assms(2) by (simp add: vlog_inv_def vlog_size_def)
  have lv: "length ?lv = b" "\<forall>l \<in> set ?lv. is_hash l" "take a ?lv = take a (vl_leaves log)"
    using assms n is_hash_vl_leaves [OF ok(1) assms(2)] by (auto dest: in_set_takeD simp: min_absorb1)
  obtain path where path: "consistency_path ?sha a ?lv = Some path"
    and vc: "verify_consistency ?sha a b path (root_hash ?sha (take a (vl_leaves log))) (root_hash ?sha ?lv)"
    using consistency_complete [of a ?lv ?sha, unfolded lv(1,3)] assms(3,4) by blast
  have "?lv \<noteq> []" using lv(1) assms(3,4) by (metis list.size(3) not_le)
  from is_hash_subproof [OF ok(1) this lv(2), of a True] path lv(1) assms(3,4)
  have "\<forall>h \<in> set path. is_hash h" by (simp add: consistency_path_def)
  then have dec: "decode_path L (map (to_hex L) path) = Inr path"
    by (simp add: decode_path_encoded [OF ok(2)])
  have "unat (word_of_nat a :: u64) = a" "unat (word_of_nat b :: u64) = b"
    using assms by (simp_all add: unat_of_nat)
  with vc dec have "verify_consistency_proof L old new \<lparr>cp_first_size = word_of_nat a,
      cp_second_size = word_of_nat b, cp_path = map (to_hex L) path\<rparr>"
    if "root_bytes L old = Inr (root_hash ?sha (take a (vl_leaves log)))" "sth_tree_size old = word_of_nat a"
      "root_bytes L new = Inr (root_hash ?sha ?lv)" "sth_tree_size new = word_of_nat b" for old new
    using that by (simp add: verify_consistency_proof_def)
  moreover have "vlog_consistency_proof L log a b = Some (Inr \<lparr>cp_first_size = word_of_nat a,
      cp_second_size = word_of_nat b, cp_path = map (to_hex L) path\<rparr>)"
    using assms(3-5) n path by (simp add: vlog_consistency_proof_def)
  moreover have "vlog_root_at L log a = Inr (root_hash ?sha (take a (vl_leaves log)))"
      "vlog_root_at L log b = Inr (root_hash ?sha ?lv)"
    using assms(4,5) n by (simp_all add: vlog_root_at_def)
  ultimately show ?thesis by auto
qed

section \<open>Tenant rules as a contract\<close>

text \<open>The committed entries of one tenant, in order.\<close>

definition tenant_entries :: "string \<Rightarrow> vlog \<Rightarrow> entry list" where
  "tenant_entries t log = filter (\<lambda>e. tenant e = t) (vl_entries log)"

text \<open>The two loops in which the code appends a list of entries: the builder stops at the first
  rejected entry, a verifier goes on and collects the violations.\<close>

fun append_all :: "lib \<Rightarrow> vlog \<Rightarrow> entry list \<Rightarrow> vl_error + vlog" where
  "append_all L log [] = Inr log"
| "append_all L log (e # es) =
     (case vlog_append L log e of (Inl err, _) \<Rightarrow> Inl err | (Inr _, log') \<Rightarrow> append_all L log' es)"

fun replay_all :: "lib \<Rightarrow> vlog \<Rightarrow> entry list \<Rightarrow> vl_error list \<times> vlog" where
  "replay_all L log [] = ([], log)"
| "replay_all L log (e # es) =
     (case vlog_append L log e of (res, log') \<Rightarrow>
        (case replay_all L log' es of (errs, log'') \<Rightarrow>
           ((case res of Inl err \<Rightarrow> err # errs | Inr _ \<Rightarrow> errs), log'')))"

text \<open>A rule that decides, one entry at a time, whether the committed list may grow: \<open>holds\<close> is
  the property of whole lists that it maintains.\<close>

locale tenant_rule =
  fixes check :: tenant_invariant and holds :: "entry list \<Rightarrow> bool"
  assumes holds_Nil: "holds []"
    and check_iff: "holds es \<Longrightarrow> check es c = Inr () \<longleftrightarrow> holds (es @ [c])"
begin

lemma append_keeps:
  assumes "vl_invariants log t = Some check" "holds (tenant_entries t log)"
  shows "holds (tenant_entries t (snd (vlog_append L log e)))"
proof (rule vlog_append_cases [of L log e])
  fix v assume "vlog_append L log e = (Inl (Invariant v), log)"
  with assms show ?thesis by simp
next
  assume a: "vlog_append L log e = (Inr (length (vl_entries log)),
      log\<lparr>vl_leaves := vl_leaves log @ [entry_leaf_hash L e], vl_entries := vl_entries log @ [e]\<rparr>)"
    and rule: "\<And>rule. vl_invariants log (tenant e) = Some rule \<Longrightarrow>
      rule (filter (\<lambda>x. tenant x = tenant e) (vl_entries log)) e = Inr ()"
  show ?thesis
  proof (cases "tenant e = t")
    case True
    with rule assms(1) have "check (tenant_entries t log) e = Inr ()" by (auto simp: tenant_entries_def)
    with assms(2) have "holds (tenant_entries t log @ [e])" by (simp add: check_iff)
    with a True show ?thesis by (simp add: tenant_entries_def)
  next
    case False
    with a assms(2) show ?thesis by (simp add: tenant_entries_def)
  qed
qed

lemma append_accepts_iff:
  assumes "vl_invariants log t = Some check" "holds (tenant_entries t log)" "tenant e = t"
  shows "(\<exists>i. fst (vlog_append L log e) = Inr i) \<longleftrightarrow> holds (tenant_entries t log @ [e])"
proof -
  have "check (tenant_entries t log) e = Inr () \<longleftrightarrow> holds (tenant_entries t log @ [e])"
    using assms(2) by (rule check_iff)
  with assms(1,3) show ?thesis
    by (cases "check (tenant_entries t log) e") (auto simp: vlog_append_def tenant_entries_def)
qed

lemma offered_keeps:
  assumes "vl_invariants log t = Some check" "holds (tenant_entries t log)"
  shows "holds (tenant_entries t (fold (\<lambda>e log. snd (vlog_append L log e)) es log))"
  using assms
proof (induction es arbitrary: log)
  case (Cons e es)
  have "vl_invariants (snd (vlog_append L log e)) t = Some check" using Cons.prems(1) by simp
  from Cons.IH [OF this append_keeps [OF Cons.prems]] show ?case by simp
qed simp

lemma append_all_keeps:
  assumes "vl_invariants log t = Some check" "holds (tenant_entries t log)"
    and "append_all L log es = Inr log'"
  shows "holds (tenant_entries t log')"
  using assms
proof (induction es arbitrary: log)
  case (Cons e es)
  obtain r m where a: "vlog_append L log e = (r, m)" by fastforce
  with Cons.prems(3) have "append_all L m es = Inr log'" by (cases r) auto
  moreover have "vl_invariants m t = Some check" using Cons.prems(1) a vl_invariants_append [of L log e] by simp
  moreover have "holds (tenant_entries t m)" using append_keeps [OF Cons.prems(1,2), of L e] a by simp
  ultimately show ?case by (rule Cons.IH [rotated 2])
qed simp

lemma replay_clean_iff:
  assumes "vl_invariants log t = Some check" "holds (tenant_entries t log)" "\<forall>e \<in> set es. tenant e = t"
    and "\<And>xs ys. holds (xs @ ys) \<Longrightarrow> holds xs"
  shows "fst (replay_all L log es) = [] \<longleftrightarrow> holds (tenant_entries t log @ es)"
  using assms(1-3)
proof (induction es arbitrary: log)
  case (Cons e es)
  have t: "tenant e = t" using Cons.prems(3) by simp
  show ?case
  proof (rule vlog_append_cases [of L log e])
    fix v assume a: "vlog_append L log e = (Inl (Invariant v), log)"
    have "\<not> holds (tenant_entries t log @ [e])"
      using append_accepts_iff [OF Cons.prems(1,2) t, of L] a by simp
    then have "\<not> holds (tenant_entries t log @ e # es)"
      using assms(4) [of "tenant_entries t log @ [e]" es] by auto
    with a show ?thesis by (simp split: prod.splits)
  next
    assume a: "vlog_append L log e = (Inr (length (vl_entries log)),
      log\<lparr>vl_leaves := vl_leaves log @ [entry_leaf_hash L e], vl_entries := vl_entries log @ [e]\<rparr>)"
    let ?m = "log\<lparr>vl_leaves := vl_leaves log @ [entry_leaf_hash L e], vl_entries := vl_entries log @ [e]\<rparr>"
    have "tenant_entries t ?m = tenant_entries t log @ [e]" using t by (simp add: tenant_entries_def)
    moreover have "holds (tenant_entries t ?m)" using append_keeps [OF Cons.prems(1,2), of L e] a by simp
    ultimately have "fst (replay_all L ?m es) = [] \<longleftrightarrow> holds ((tenant_entries t log @ [e]) @ es)"
      using Cons.IH [of ?m] Cons.prems(1,3) by simp
    with a show ?thesis by (simp split: prod.splits)
  qed
qed (simp add: assms(2))

end

text \<open>The example rule of the crate keeps the payloads of a tenant distinct.\<close>

definition distinct_data :: "entry list \<Rightarrow> bool" where
  "distinct_data es = distinct (map data es)"

interpretation unique_data: tenant_rule unique_data_check distinct_data
  by unfold_locales (auto simp: unique_data_check_def distinct_data_def list_ex_iff image_iff, metis)

lemma distinct_data_prefix: "distinct_data (xs @ ys) \<Longrightarrow> distinct_data xs"
  by (simp add: distinct_data_def)

section \<open>Reachable logs\<close>

text \<open>The logs the public interface can build: the fields are private, so a log is only ever
  created, given rules and appended to.\<close>

inductive vlog_reach :: "lib \<Rightarrow> vlog \<Rightarrow> bool" for L where
  reach_new: "vlog_reach L vlog_new"
| reach_register: "vlog_reach L log \<Longrightarrow> vlog_reach L (register_invariant log t rule)"
| reach_append: "vlog_reach L log \<Longrightarrow> vlog_reach L (snd (vlog_append L log e))"

lemma vlog_reach_inv: "vlog_reach L log \<Longrightarrow> vlog_inv L log"
  by (induction rule: vlog_reach.induct) (simp_all add: vlog_inv_append)

lemma append_all_reach: "append_all L log es = Inr log' \<Longrightarrow> vlog_reach L log \<Longrightarrow> vlog_reach L log'"
proof (induction es arbitrary: log)
  case (Cons e es)
  obtain r m where a: "vlog_append L log e = (r, m)" by fastforce
  with Cons.prems(1) have "append_all L m es = Inr log'" by (cases r) auto
  moreover have "vlog_reach L m" using reach_append [OF Cons.prems(2), of e] a by simp
  ultimately show ?case by (rule Cons.IH)
qed simp

lemma append_all_entries: "append_all L log es = Inr log' \<Longrightarrow> vl_entries log' = vl_entries log @ es"
proof (induction es arbitrary: log)
  case (Cons e es)
  show ?case
  proof (rule vlog_append_cases [of L log e])
    fix v assume "vlog_append L log e = (Inl (Invariant v), log)"
    with Cons.prems show ?thesis by simp
  next
    assume "vlog_append L log e = (Inr (length (vl_entries log)),
      log\<lparr>vl_leaves := vl_leaves log @ [entry_leaf_hash L e], vl_entries := vl_entries log @ [e]\<rparr>)"
    with Cons.prems have "append_all L (log\<lparr>vl_leaves := vl_leaves log @ [entry_leaf_hash L e],
        vl_entries := vl_entries log @ [e]\<rparr>) es = Inr log'" by simp
    from Cons.IH [OF this] show ?thesis by simp
  qed
qed simp

lemma is_hash_vlog_root: "hash_fn (sha256 L) \<Longrightarrow> vlog_inv L log \<Longrightarrow> is_hash (root_hash (sha256 L) (take n (vl_leaves log)))"
  using is_hash_vl_leaves [of L log] is_hash_root [of "sha256 L" "take n (vl_leaves log)"]
  by (blast dest: in_set_takeD)

lemma entry_leaf_hash_inject:
  assumes "entry_leaf_hash L a = entry_leaf_hash L b"
    and "inj_on (sha256 L) {LEAF_PREFIX # entry_encode a, LEAF_PREFIX # entry_encode b}"
    and "length (tenant a) < 2 ^ 32" "length (tenant b) < 2 ^ 32"
  shows "a = b"
proof -
  have "LEAF_PREFIX # entry_encode a = LEAF_PREFIX # entry_encode b"
    by (rule inj_onD [OF assms(2)]) (use assms(1) in \<open>simp_all add: entry_leaf_hash_def leaf_hash_def\<close>)
  with assms(3,4) show ?thesis by (simp add: entry_encode_inject)
qed

section \<open>A concrete library for witnesses\<close>

text \<open>A small instance of the external functions: the toy hash, hexadecimal replaced by the identity on
  bytes, and a signature that is the public key followed by the hash of the message.\<close>

definition demo_public :: "bytes \<Rightarrow> bytes" where
  "demo_public k = take 32 (k @ replicate 32 0)"

definition demo_lib :: lib where
  "demo_lib = \<lparr>sha256 = checksum, hex_encode = map char_of_byte, hex_decode = (\<lambda>s. Inr (as_bytes s)),
     ed_sign = (\<lambda>k m. demo_public k @ checksum m), ed_public = demo_public, ed_from_bytes = Some,
     ed_verify = (\<lambda>pk m s. s = pk @ checksum m)\<rparr>"

lemma length_checksum [simp]: "length (checksum b) = 32"
  using hash_fn_checksum by (simp add: hash_fn_def is_hash_def)

lemma lib_ok_demo: "lib_ok demo_lib"
  by (auto simp: lib_ok_def hex_ok_def ed25519_ok_def demo_lib_def hash_fn_checksum demo_public_def
      as_bytes_def comp_def)

section \<open>Properties of the log\<close>

text \<open>The canonical entry encoding is injective: two entries with the same encoding have the same tenant and
  the same payload, for tenants shorter than \<open>2 ^ 32\<close> bytes (the length the four-byte prefix can hold).\<close>

theorem entry_encoding_unambiguous:
  assumes "length (tenant a) < 2 ^ 32" "length (tenant b) < 2 ^ 32" "entry_encode a = entry_encode b"
  shows "a = b"
  using assms entry_encode_inject by blast

theorem entry_encoding_unambiguous_witness:
  "entry_encode (entry_new ''ab'' [1]) = entry_encode \<lparr>tenant = ''ab'', data = [1]\<rparr>
   \<and> entry_new ''ab'' [1] = \<lparr>tenant = ''ab'', data = [1]\<rparr>"
  using entry_encoding_unambiguous [of "entry_new ''ab'' [1]" "\<lparr>tenant = ''ab'', data = [1]\<rparr>"]
  by (simp add: entry_new_def)

text \<open>For every log that the interface can build and every committed entry, the log issues an inclusion
  proof; its signed head verifies under the signer's key and the proof verifies against that head.\<close>

theorem log_inclusion_proof_verifies:
  assumes "lib_ok L" "vlog_reach L log" "i < vlog_size log" "vlog_size log < 2 ^ 64"
  shows "sth_verify L (signed_tree_head L log key ts) (ed_public L key)
    \<and> (\<exists>p. vlog_inclusion_proof L log i = Inr p
        \<and> verify_inclusion_proof L (vl_entries log ! i) p (signed_tree_head L log key ts))"
proof
  have ok: "hash_fn (sha256 L)" "hex_ok L" using assms(1) by (auto simp: lib_ok_def)
  note log = vlog_reach_inv [OF assms(2)]
  have root: "is_hash (vlog_root L log)"
    using is_hash_vlog_root [OF ok(1) log, of "length (vl_leaves log)"] by (simp add: vlog_root_def)
  then show "sth_verify L (signed_tree_head L log key ts) (ed_public L key)"
    by (simp add: sth_verify_def signed_tree_head_def sth_create_def verify_created assms(1))
  obtain p where p: "vlog_inclusion_proof L log i = Inr p"
    using assms(3) log by (simp add: vlog_inclusion_proof_def vlog_inv_def vlog_size_def)
  then have "verify_inclusion_proof L (vl_entries log ! i) p (signed_tree_head L log key ts)"
    using assms log root ok by (intro inclusion_proof_verifies) (simp_all add: signed_tree_head_def sth_create_def)
  with p show "\<exists>p. vlog_inclusion_proof L log i = Inr p
      \<and> verify_inclusion_proof L (vl_entries log ! i) p (signed_tree_head L log key ts)" by blast
qed

definition demo_log :: vlog where
  "demo_log = snd (vlog_append demo_lib (snd (vlog_append demo_lib vlog_new (entry_new ''a'' [1]))) (entry_new ''b'' [2]))"

lemma reach_demo_log: "vlog_reach demo_lib demo_log"
  unfolding demo_log_def by (intro vlog_reach.intros)

lemma entries_demo_log: "vl_entries demo_log = [entry_new ''a'' [1], entry_new ''b'' [2]]"
  by (simp add: demo_log_def vlog_append_def vlog_new_def)

theorem log_inclusion_proof_verifies_witness:
  "lib_ok demo_lib \<and> vlog_reach demo_lib demo_log \<and>
   (\<exists>p. vlog_inclusion_proof demo_lib demo_log 1 = Inr p \<and>
      verify_inclusion_proof demo_lib (entry_new ''b'' [2]) p (signed_tree_head demo_lib demo_log [7] 5))"
  using log_inclusion_proof_verifies [OF lib_ok_demo reach_demo_log, of 1 "[7]" 5] lib_ok_demo reach_demo_log
  by (simp add: vlog_size_def entries_demo_log)

text \<open>Between any two non-empty sizes of a log that the interface can build, the log issues a consistency
  proof, and it verifies between heads signed, under any context, for the roots \<open>root_at\<close> gives.\<close>

theorem log_consistency_proof_verifies:
  assumes "lib_ok L" "vlog_reach L log" "0 < a" "a \<le> b" "b \<le> vlog_size log" "vlog_size log < 2 ^ 64"
  shows "\<exists>p ra rb. vlog_consistency_proof L log a b = Some (Inr p)
    \<and> vlog_root_at L log a = Inr ra \<and> vlog_root_at L log b = Inr rb
    \<and> verify_consistency_proof L (sth_create_with_context L key (word_of_nat a) ra ts ctxt)
        (sth_create_with_context L key (word_of_nat b) rb ts' ctxt) p"
proof -
  have ok: "hash_fn (sha256 L)" "hex_ok L" using assms(1) by (auto simp: lib_ok_def)
  note log = vlog_reach_inv [OF assms(2)]
  have n: "length (vl_leaves log) = vlog_size log" using log by (simp add: vlog_inv_def vlog_size_def)
  obtain ra rb where r: "vlog_root_at L log a = Inr ra" "vlog_root_at L log b = Inr rb" "is_hash ra" "is_hash rb"
    using assms(4,5) n is_hash_vlog_root [OF ok(1) log] by (simp add: vlog_root_at_def)
  with ok have "root_bytes L (sth_create_with_context L key m ra ts ctxt) = Inr ra"
    "root_bytes L (sth_create_with_context L key m rb ts' ctxt) = Inr rb" for m by simp_all
  with r consistency_proof_verifies [OF assms(1) log assms(3-6)] show ?thesis by force
qed

theorem log_consistency_proof_verifies_witness:
  "lib_ok demo_lib \<and> vlog_reach demo_lib demo_log \<and>
   (\<exists>p ra rb. vlog_consistency_proof demo_lib demo_log 1 2 = Some (Inr p)
    \<and> vlog_root_at demo_lib demo_log 1 = Inr ra \<and> vlog_root_at demo_lib demo_log 2 = Inr rb
    \<and> verify_consistency_proof demo_lib (sth_create_with_context demo_lib [7] (word_of_nat 1) ra 5 STH_DOMAIN)
        (sth_create_with_context demo_lib [7] (word_of_nat 2) rb 6 STH_DOMAIN) p)"
  using log_consistency_proof_verifies [OF lib_ok_demo reach_demo_log, of 1 2 "[7]" 5 STH_DOMAIN 6]
    lib_ok_demo reach_demo_log
  by (simp only: vlog_size_def entries_demo_log) simp

text \<open>C28. Inclusion proofs are sound on the wire: an entry whose proof is accepted against a head that carries the
  root and the size of a reachable log is the entry the log holds at the index the proof names, unless
  the hash collides on the messages hashed on the way or the tenant is \<open>2 ^ 32\<close> bytes long.\<close>

theorem verified_entry_is_committed:
  assumes "vlog_reach L log" "verify_inclusion_proof L e p s"
    and "root_bytes L s = Inr (vlog_root L log)" "unat (sth_tree_size s) = vlog_size log"
    and "\<And>path. decode_path L (ip_audit_path p) = Inr path \<Longrightarrow>
      inclusion_safe (sha256 L) (entry_leaf_hash L e) (unat (ip_leaf_index p)) path (vl_leaves log)"
    and "\<And>e'. e' \<in> set (vl_entries log) \<Longrightarrow> length (tenant e') < 2 ^ 32
      \<and> inj_on (sha256 L) {LEAF_PREFIX # entry_encode e, LEAF_PREFIX # entry_encode e'}"
    and "length (tenant e) < 2 ^ 32"
  shows "unat (ip_leaf_index p) < vlog_size log \<and> e = vl_entries log ! unat (ip_leaf_index p)"
proof -
  let ?i = "unat (ip_leaf_index p)"
  have leaves: "vl_leaves log = map (entry_leaf_hash L) (vl_entries log)"
    using vlog_reach_inv [OF assms(1)] by (simp add: vlog_inv_def)
  obtain path where path: "decode_path L (ip_audit_path p) = Inr path"
    and v: "verify_inclusion (sha256 L) (entry_leaf_hash L e) ?i (length (vl_leaves log)) path
      (root_hash (sha256 L) (vl_leaves log))"
    using assms(2-4) leaves
    by (auto simp: verify_inclusion_proof_def vlog_root_def vlog_size_def split: if_splits sum.splits)
  have i: "?i < length (vl_leaves log)" and h: "entry_leaf_hash L e = vl_leaves log ! ?i"
    using merkle.in_range [OF v] inclusion_sound [OF v assms(5) [OF path]] by blast+
  have i': "?i < length (vl_entries log)" using i leaves by simp
  then have m: "vl_entries log ! ?i \<in> set (vl_entries log)" by simp
  have "entry_leaf_hash L e = entry_leaf_hash L (vl_entries log ! ?i)" using h i' leaves by simp
  from entry_leaf_hash_inject [OF this] assms(6) [OF m] assms(7) i' show ?thesis
    by (simp add: vlog_size_def)
qed

definition demo_entry :: entry where
  "demo_entry = entry_new ''a'' [1]"

definition demo_log1 :: vlog where
  "demo_log1 = snd (vlog_append demo_lib vlog_new demo_entry)"

definition demo_proof1 :: inclusion_proof where
  "demo_proof1 = \<lparr>ip_leaf_index = 0, ip_tree_size = 1, ip_audit_path = []\<rparr>"

lemma demo_log1_facts:
  "vlog_reach demo_lib demo_log1"
  "vl_entries demo_log1 = [demo_entry]" "vl_leaves demo_log1 = [entry_leaf_hash demo_lib demo_entry]"
  unfolding demo_log1_def by (intro vlog_reach.intros) (simp_all add: vlog_append_def vlog_new_def)

lemma demo_head1:
  "root_bytes demo_lib (signed_tree_head demo_lib demo_log1 [7] 5) = Inr (vlog_root demo_lib demo_log1)"
  "sth_tree_size (signed_tree_head demo_lib demo_log1 [7] 5) = 1"
proof -
  have "hex_ok demo_lib" "hash_fn (sha256 demo_lib)" using lib_ok_demo by (auto simp: lib_ok_def)
  then have "is_hash (vlog_root demo_lib demo_log1)"
    by (simp add: vlog_root_def demo_log1_facts entry_leaf_hash_def root_hash.simps)
  with \<open>hex_ok demo_lib\<close> show
    "root_bytes demo_lib (signed_tree_head demo_lib demo_log1 [7] 5) = Inr (vlog_root demo_lib demo_log1)"
    "sth_tree_size (signed_tree_head demo_lib demo_log1 [7] 5) = 1"
    by (simp_all add: signed_tree_head_def sth_create_def vlog_size_def demo_log1_facts)
qed

theorem verified_entry_is_committed_witness:
  "verify_inclusion_proof demo_lib demo_entry demo_proof1 (signed_tree_head demo_lib demo_log1 [7] 5)
   \<and> demo_entry = vl_entries demo_log1 ! unat (ip_leaf_index demo_proof1)"
proof -
  let ?s = "signed_tree_head demo_lib demo_log1 [7] 5"
  have v: "verify_inclusion_proof demo_lib demo_entry demo_proof1 ?s"
    by (simp add: verify_inclusion_proof_def demo_head1 demo_proof1_def decode_path_def verify_inclusion_def
        vlog_root_def demo_log1_facts root_hash.simps)
  have sz: "unat (sth_tree_size ?s) = vlog_size demo_log1"
    by (simp add: demo_head1 vlog_size_def demo_log1_facts)
  have safe: "inclusion_safe (sha256 demo_lib) (entry_leaf_hash demo_lib demo_entry)
      (unat (ip_leaf_index demo_proof1)) path (vl_leaves demo_log1)"
    if "decode_path demo_lib (ip_audit_path demo_proof1) = Inr path" for path
    using that by (simp add: decode_path_def demo_proof1_def inclusion_safe_def demo_log1_facts inclusion_msgs_def
        dirs.simps inclusion_path.simps demo_lib_def hash_fn_checksum entry_leaf_hash_def)
  show ?thesis
    using v verified_entry_is_committed [OF demo_log1_facts(1) v demo_head1(1) sz safe]
    by (simp add: demo_log1_facts demo_entry_def entry_new_def)
qed

end
