(* ===== verification/Vlog_Tenants.thy ===== *)
theory Vlog_Tenants
  imports Vlog_Log
begin

text \<open>The three tenants of the transparency log, \<open>verifiable-log-builder/src/commit_log.rs\<close>,
  \<open>account_key.rs\<close> and \<open>binaries.rs\<close>: their leaves, the \<open>TenantInvariant\<close> each registers and the
  property of the whole history it maintains. The JSON encoding of a leaf is serde's: the record
  \<open>json\<close> holds the encoders and decoders, \<open>json_ok\<close> what the code relies on.\<close>

section \<open>Leaves\<close>

record commit_leaf =
  cl_conversation_id :: string
  cl_epoch :: u64
  cl_sender_id :: string
  cl_seq :: i64
  cl_commit_sha256 :: string

record account_key_leaf =
  al_user_id :: string
  al_identity_version :: u64
  al_account_id_pub :: string
  al_seq :: i64

datatype layer = Payload | Signed | Exe

record toolchain =
  tc_rustc :: string
  tc_node :: string
  tc_pnpm :: string
  tc_runner_image :: string
  tc_source_date_epoch :: u64

record binary_record =
  br_release_tag :: string
  br_commit :: string
  br_platform :: string
  br_arch :: string
  br_bundle :: string
  br_artifact_name :: string
  br_layer :: layer
  br_payload_sha256 :: string
  br_artifact_sha256 :: string
  br_toolchain :: toolchain
  br_provenance_uri :: string

record json =
  commit_to_vec :: "commit_leaf \<Rightarrow> string + bytes"
  commit_from_slice :: "bytes \<Rightarrow> string + commit_leaf"
  account_to_vec :: "account_key_leaf \<Rightarrow> string + bytes"
  account_from_slice :: "bytes \<Rightarrow> string + account_key_leaf"
  binary_to_vec :: "binary_record \<Rightarrow> string + bytes"
  binary_from_slice :: "bytes \<Rightarrow> string + binary_record"

text \<open>What the code relies on for the leaves it handles: serialising one does not fail, and parsing
  what was serialised gives the leaf back.\<close>

definition codec_ok :: "('a \<Rightarrow> string + bytes) \<Rightarrow> (bytes \<Rightarrow> string + 'a) \<Rightarrow> 'a list \<Rightarrow> bool" where
  "codec_ok enc dec xs = (\<forall>x \<in> set xs. \<exists>b. enc x = Inr b \<and> dec b = Inr x)"

section \<open>The commit log (commit\_log.rs)\<close>

definition commit_TENANT :: string where "commit_TENANT = ''mls-commit-log''"

definition commit_to_entry :: "json \<Rightarrow> commit_leaf \<Rightarrow> string + entry" where
  "commit_to_entry J l = bind_res (commit_to_vec J l) (\<lambda>d. Inr (entry_new commit_TENANT d))"

definition commit_parse :: "json \<Rightarrow> entry \<Rightarrow> invariant_violation + commit_leaf" where
  "commit_parse J e = map_err (\<lambda>err. iv_new commit_TENANT (''malformed commit-log leaf: '' @ err))
     (commit_from_slice J (data e))"

fun commit_scan :: "json \<Rightarrow> commit_leaf \<Rightarrow> entry list \<Rightarrow> invariant_violation + unit" where
  "commit_scan J cand [] = Inr ()"
| "commit_scan J cand (prev_entry # rest) = bind_res (commit_parse J prev_entry) (\<lambda>prev.
     if cl_conversation_id prev \<noteq> cl_conversation_id cand then commit_scan J cand rest
     else if cl_epoch prev = cl_epoch cand then
       Inl (iv_new commit_TENANT (''fork in conversation `'' @ cl_conversation_id cand @ ''` at epoch ''
         @ show_u64 (cl_epoch cand) @ '': seq '' @ show_int (cl_seq cand) @ '' conflicts with seq ''
         @ show_int (cl_seq prev)))
     else if cl_epoch prev > cl_epoch cand then
       Inl (iv_new commit_TENANT (''epoch regression in conversation `'' @ cl_conversation_id cand @ ''`: seq ''
         @ show_int (cl_seq cand) @ '' is epoch '' @ show_u64 (cl_epoch cand) @ '' but seq ''
         @ show_int (cl_seq prev) @ '' already reached epoch '' @ show_u64 (cl_epoch prev)))
     else commit_scan J cand rest)"

definition commit_check :: "json \<Rightarrow> tenant_invariant" where
  "commit_check J existing candidate =
     bind_res (commit_parse J candidate) (\<lambda>cand. commit_scan J cand existing)"

section \<open>The account-key directory (account\_key.rs)\<close>

definition account_TENANT :: string where "account_TENANT = ''account-key''"

definition account_STH_CONTEXT :: bytes where
  "account_STH_CONTEXT = as_bytes ''pollis-verifiable-log:sth:v1:account-keys''"

definition account_to_entry :: "json \<Rightarrow> account_key_leaf \<Rightarrow> string + entry" where
  "account_to_entry J l = bind_res (account_to_vec J l) (\<lambda>d. Inr (entry_new account_TENANT d))"

definition account_parse :: "json \<Rightarrow> entry \<Rightarrow> invariant_violation + account_key_leaf" where
  "account_parse J e = map_err (\<lambda>err. iv_new account_TENANT (''malformed account-key leaf: '' @ err))
     (account_from_slice J (data e))"

fun account_scan :: "json \<Rightarrow> account_key_leaf \<Rightarrow> entry list \<Rightarrow> invariant_violation + unit" where
  "account_scan J cand [] = Inr ()"
| "account_scan J cand (prev_entry # rest) = bind_res (account_parse J prev_entry) (\<lambda>prev.
     if al_user_id prev \<noteq> al_user_id cand then account_scan J cand rest
     else if al_identity_version prev = al_identity_version cand then
       Inl (iv_new account_TENANT (''duplicate identity_version for user `'' @ al_user_id cand @ ''`: version ''
         @ show_u64 (al_identity_version cand) @ '' at seq '' @ show_int (al_seq cand)
         @ '' conflicts with seq '' @ show_int (al_seq prev)))
     else if al_identity_version prev > al_identity_version cand then
       Inl (iv_new account_TENANT (''identity_version regression for user `'' @ al_user_id cand @ ''`: seq ''
         @ show_int (al_seq cand) @ '' is version '' @ show_u64 (al_identity_version cand) @ '' but seq ''
         @ show_int (al_seq prev) @ '' already reached version '' @ show_u64 (al_identity_version prev)))
     else account_scan J cand rest)"

definition account_check :: "json \<Rightarrow> tenant_invariant" where
  "account_check J existing candidate =
     bind_res (account_parse J candidate) (\<lambda>cand. account_scan J cand existing)"

section \<open>Released binaries (binaries.rs)\<close>

definition binaries_TENANT :: string where "binaries_TENANT = ''binaries''"

definition binaries_STH_CONTEXT :: bytes where
  "binaries_STH_CONTEXT = as_bytes ''pollis-verifiable-log:sth:v1:binaries''"

definition binary_to_entry :: "json \<Rightarrow> binary_record \<Rightarrow> string + entry" where
  "binary_to_entry J r = bind_res (binary_to_vec J r) (\<lambda>d. Inr (entry_new binaries_TENANT d))"

definition fork_key :: "binary_record \<Rightarrow> string \<times> string \<times> string \<times> string \<times> layer" where
  "fork_key r = (br_release_tag r, br_platform r, br_arch r, br_bundle r, br_layer r)"

definition binary_parse :: "json \<Rightarrow> entry \<Rightarrow> invariant_violation + binary_record" where
  "binary_parse J e = map_err (\<lambda>err. iv_new binaries_TENANT (''malformed binary leaf: '' @ err))
     (binary_from_slice J (data e))"

text \<open>\<open>{:?}\<close> of a \<open>Layer\<close>.\<close>

fun layer_debug :: "layer \<Rightarrow> string" where
  "layer_debug Payload = ''Payload''"
| "layer_debug Signed = ''Signed''"
| "layer_debug Exe = ''Exe''"

text \<open>The walk over the prior leaves, with its three locals.\<close>

fun binary_scan :: "json \<Rightarrow> binary_record \<Rightarrow> entry list \<Rightarrow> bool \<Rightarrow> string option \<Rightarrow> bool
    \<Rightarrow> invariant_violation + (bool \<times> string option \<times> bool)" where
  "binary_scan J cand [] cand_tag_seen last_tag payload_seen = Inr (cand_tag_seen, last_tag, payload_seen)"
| "binary_scan J cand (prev_entry # rest) cand_tag_seen last_tag payload_seen =
     bind_res (binary_parse J prev_entry) (\<lambda>prev.
       if fork_key prev = fork_key cand \<and> br_artifact_sha256 prev \<noteq> br_artifact_sha256 cand then
         Inl (iv_new binaries_TENANT (''fork for '' @ br_release_tag cand @ ''/'' @ br_platform cand @ ''/''
           @ br_arch cand @ ''/'' @ br_bundle cand @ '' ('' @ layer_debug (br_layer cand)
           @ ''): artifact_sha256 '' @ br_artifact_sha256 cand @ '' conflicts with earlier ''
           @ br_artifact_sha256 prev))
       else binary_scan J cand rest
         (cand_tag_seen \<or> br_release_tag prev = br_release_tag cand)
         (Some (br_release_tag prev))
         (payload_seen \<or> (br_layer prev = Payload \<and> br_payload_sha256 prev = br_payload_sha256 cand)))"

definition binary_check :: "json \<Rightarrow> tenant_invariant" where
  "binary_check J existing candidate = bind_res (binary_parse J candidate) (\<lambda>cand.
     bind_res (binary_scan J cand existing False None False) (\<lambda>(cand_tag_seen, last_tag, payload_seen).
       if cand_tag_seen \<and> (case last_tag of None \<Rightarrow> False | Some t \<Rightarrow> t \<noteq> br_release_tag cand) then
         Inl (iv_new binaries_TENANT (''release_tag `'' @ br_release_tag cand
           @ ''` reappears out of publish order (current tag is `''
           @ (case last_tag of None \<Rightarrow> [] | Some t \<Rightarrow> t) @ ''`)''))
       else if br_layer cand \<noteq> Payload \<and> \<not> payload_seen then
         Inl (iv_new binaries_TENANT (layer_debug (br_layer cand) @ '' artifact `'' @ br_artifact_name cand
           @ ''` ('' @ br_release_tag cand @ '') has no matching payload leaf with payload_sha256 ''
           @ br_payload_sha256 cand))
       else Inr ()))"

section \<open>Rules that make a version ascend per key\<close>

text \<open>Every entry parses, and of two entries with the same key the later has the larger version.\<close>

definition ascending :: "(entry \<Rightarrow> invariant_violation + 'a) \<Rightarrow> ('a \<Rightarrow> 'k) \<Rightarrow> ('a \<Rightarrow> u64) \<Rightarrow> entry list \<Rightarrow> bool" where
  "ascending parse key ver es = (case map_res parse es of
       Inl _ \<Rightarrow> False
     | Inr ls \<Rightarrow> sorted_wrt (\<lambda>p c. key p = key c \<longrightarrow> ver p < ver c) ls)"

lemma map_res_snoc:
  "map_res f (xs @ [y]) = Inr zs \<longleftrightarrow> (\<exists>ws w. zs = ws @ [w] \<and> map_res f xs = Inr ws \<and> f y = Inr w)"
  by (auto simp: map_res_Inr_iff list_all2_append1 list_all2_Cons1) (metis list_all2_lengthD)

lemma map_res_append_Inr:
  "map_res f (xs @ ys) = Inr zs \<Longrightarrow> \<exists>us vs. zs = us @ vs \<and> map_res f xs = Inr us \<and> map_res f ys = Inr vs"
  by (auto simp: map_res_Inr_iff list_all2_append1)

lemma ascending_iff:
  "ascending parse key ver es \<longleftrightarrow>
     (\<exists>ls. map_res parse es = Inr ls \<and> sorted_wrt (\<lambda>p c. key p = key c \<longrightarrow> ver p < ver c) ls)"
  by (auto simp: ascending_def split: sum.splits)

lemma ascending_prefix: "ascending parse key ver (xs @ ys) \<Longrightarrow> ascending parse key ver xs"
  unfolding ascending_iff by (auto dest!: map_res_append_Inr simp: sorted_wrt_append)

locale ascending_check =
  fixes check :: tenant_invariant and parse :: "entry \<Rightarrow> invariant_violation + 'a"
    and key :: "'a \<Rightarrow> 'k" and ver :: "'a \<Rightarrow> u64"
  assumes check_unfold: "check es c = Inr () \<longleftrightarrow> (\<exists>x. parse c = Inr x \<and>
      (\<forall>e \<in> set es. \<exists>p. parse e = Inr p \<and> (key p = key x \<longrightarrow> ver p < ver x)))"
    and parse_data: "data e = data e' \<Longrightarrow> parse e = parse e'"
begin

lemma check_snoc:
  assumes "ascending parse key ver es"
  shows "check es c = Inr () \<longleftrightarrow> ascending parse key ver (es @ [c])"
proof -
  obtain ls where ls: "map_res parse es = Inr ls" "sorted_wrt (\<lambda>p c. key p = key c \<longrightarrow> ver p < ver c) ls"
    using assms by (auto simp: ascending_iff)
  have each: "(\<forall>e \<in> set es. \<exists>p. parse e = Inr p \<and> Q p) \<longleftrightarrow> (\<forall>p \<in> set ls. Q p)" for Q
    using ls(1) unfolding map_res_Inr_iff
    by (induction es ls rule: list_all2_induct) auto
  show ?thesis
    unfolding check_unfold each ascending_iff map_res_snoc
    using ls by (auto simp: sorted_wrt_append)
qed

lemma ascending_distinct_data: "ascending parse key ver es \<Longrightarrow> distinct_data es"
proof (induction es rule: rev_induct)
  case (snoc c es)
  have es: "ascending parse key ver es" using snoc.prems by (rule ascending_prefix)
  with snoc.prems check_snoc [OF es, of c] obtain x where x: "parse c = Inr x"
    "\<forall>e \<in> set es. \<exists>p. parse e = Inr p \<and> (key p = key x \<longrightarrow> ver p < ver x)"
    unfolding check_unfold by blast
  have "data e \<noteq> data c" if e: "e \<in> set es" for e
  proof
    assume "data e = data c"
    then have "parse e = parse c" by (rule parse_data)
    with x e show False by force
  qed
  then have "data c \<notin> data ` set es" by (metis imageE)
  with snoc.IH [OF es] show ?case by (simp add: distinct_data_def)
qed (simp add: distinct_data_def)

end

sublocale ascending_check \<subseteq> rule: tenant_rule check "ascending parse key ver"
  by unfold_locales (simp_all add: check_snoc, simp add: ascending_def)

lemma commit_scan_iff:
  "commit_scan J x es = Inr () \<longleftrightarrow> (\<forall>e \<in> set es. \<exists>p. commit_parse J e = Inr p
     \<and> (cl_conversation_id p = cl_conversation_id x \<longrightarrow> cl_epoch p < cl_epoch x))"
  by (induction es) (auto simp: bind_res_eq_Inr split: if_splits)

lemma account_scan_iff:
  "account_scan J x es = Inr () \<longleftrightarrow> (\<forall>e \<in> set es. \<exists>p. account_parse J e = Inr p
     \<and> (al_user_id p = al_user_id x \<longrightarrow> al_identity_version p < al_identity_version x))"
  by (induction es) (auto simp: bind_res_eq_Inr split: if_splits)

interpretation commit_rule: ascending_check "commit_check J" "commit_parse J" cl_conversation_id cl_epoch for J
  by unfold_locales (simp_all add: commit_check_def bind_res_eq_Inr commit_scan_iff commit_parse_def)

interpretation account_rule: ascending_check "account_check J" "account_parse J" al_user_id al_identity_version for J
  by unfold_locales (simp_all add: account_check_def bind_res_eq_Inr account_scan_iff account_parse_def)

abbreviation commit_history :: "json \<Rightarrow> entry list \<Rightarrow> bool" where
  "commit_history J \<equiv> ascending (commit_parse J) cl_conversation_id cl_epoch"

abbreviation account_history :: "json \<Rightarrow> entry list \<Rightarrow> bool" where
  "account_history J \<equiv> ascending (account_parse J) al_user_id al_identity_version"

section \<open>The rule of the binaries tree\<close>

text \<open>No unit is re-issued with other bytes, a tag's records are contiguous, and a record of a derived
  layer follows the payload it is bound to.\<close>

definition fork_free :: "binary_record list \<Rightarrow> bool" where
  "fork_free rs = sorted_wrt (\<lambda>p c. fork_key p = fork_key c \<longrightarrow> br_artifact_sha256 p = br_artifact_sha256 c) rs"

definition tags_contiguous :: "binary_record list \<Rightarrow> bool" where
  "tags_contiguous rs = (\<forall>k < length rs. \<forall>j < k. \<forall>i < j.
     br_release_tag (rs ! i) = br_release_tag (rs ! k) \<longrightarrow> br_release_tag (rs ! j) = br_release_tag (rs ! k))"

definition derived_paired :: "binary_record list \<Rightarrow> bool" where
  "derived_paired rs = (\<forall>k < length rs. br_layer (rs ! k) \<noteq> Payload \<longrightarrow>
     (\<exists>j < k. br_layer (rs ! j) = Payload \<and> br_payload_sha256 (rs ! j) = br_payload_sha256 (rs ! k)))"

definition release_history :: "binary_record list \<Rightarrow> bool" where
  "release_history rs = (fork_free rs \<and> tags_contiguous rs \<and> derived_paired rs)"

definition binary_history :: "json \<Rightarrow> entry list \<Rightarrow> bool" where
  "binary_history J es = (case map_res (binary_parse J) es of Inl _ \<Rightarrow> False | Inr rs \<Rightarrow> release_history rs)"

lemma binary_history_iff:
  "binary_history J es \<longleftrightarrow> (\<exists>rs. map_res (binary_parse J) es = Inr rs \<and> release_history rs)"
  by (auto simp: binary_history_def split: sum.splits)

lemma all_less_length_snoc:
  "(\<forall>k < length (rs @ [c]). P k) \<longleftrightarrow> (\<forall>k < length rs. P k) \<and> P (length rs)"
  by (auto simp: less_Suc_eq)

lemma derived_paired_snoc:
  "derived_paired (rs @ [c]) \<longleftrightarrow> derived_paired rs \<and> (br_layer c \<noteq> Payload \<longrightarrow>
     (\<exists>p \<in> set rs. br_layer p = Payload \<and> br_payload_sha256 p = br_payload_sha256 c))"
proof -
  let ?paired = "\<lambda>rs k. br_layer (rs ! k) \<noteq> Payload \<longrightarrow>
     (\<exists>j < k. br_layer (rs ! j) = Payload \<and> br_payload_sha256 (rs ! j) = br_payload_sha256 (rs ! k))"
  have "?paired (rs @ [c]) k = ?paired rs k" if "k < length rs" for k
  proof -
    have "(rs @ [c]) ! j = rs ! j" if "j \<le> k" for j using that \<open>k < length rs\<close> by (simp add: nth_append)
    then show ?thesis by (metis order.strict_implies_order order_refl)
  qed
  moreover have "?paired (rs @ [c]) (length rs) \<longleftrightarrow> (br_layer c \<noteq> Payload \<longrightarrow>
     (\<exists>p \<in> set rs. br_layer p = Payload \<and> br_payload_sha256 p = br_payload_sha256 c))"
    unfolding in_set_conv_nth Bex_def by (simp add: nth_append) blast
  ultimately show ?thesis unfolding derived_paired_def all_less_length_snoc by simp
qed

lemma tags_contiguous_snoc_iff:
  "tags_contiguous (rs @ [c]) \<longleftrightarrow> tags_contiguous rs \<and> (\<forall>j < length rs. \<forall>i < j.
     br_release_tag (rs ! i) = br_release_tag c \<longrightarrow> br_release_tag (rs ! j) = br_release_tag c)"
proof -
  have "(\<forall>k < length rs. \<forall>j < k. \<forall>i < j. br_release_tag ((rs @ [c]) ! i) = br_release_tag ((rs @ [c]) ! k)
        \<longrightarrow> br_release_tag ((rs @ [c]) ! j) = br_release_tag ((rs @ [c]) ! k)) \<longleftrightarrow> tags_contiguous rs"
    unfolding tags_contiguous_def by (intro all_cong) (simp add: nth_append)
  moreover have "(\<forall>j < length rs. \<forall>i < j. br_release_tag ((rs @ [c]) ! i) = br_release_tag c
        \<longrightarrow> br_release_tag ((rs @ [c]) ! j) = br_release_tag c) \<longleftrightarrow> (\<forall>j < length rs. \<forall>i < j.
     br_release_tag (rs ! i) = br_release_tag c \<longrightarrow> br_release_tag (rs ! j) = br_release_tag c)"
    by (intro all_cong) (simp add: nth_append)
  ultimately show ?thesis unfolding tags_contiguous_def [of "rs @ [c]"] all_less_length_snoc by simp
qed

lemma tags_contiguous_snoc:
  assumes "tags_contiguous rs"
  shows "tags_contiguous (rs @ [c]) \<longleftrightarrow>
    \<not> (br_release_tag c \<in> br_release_tag ` set rs \<and> br_release_tag (last rs) \<noteq> br_release_tag c)"
proof
  assume t: "tags_contiguous (rs @ [c])"
  show "\<not> (br_release_tag c \<in> br_release_tag ` set rs \<and> br_release_tag (last rs) \<noteq> br_release_tag c)"
  proof (rule notI, elim conjE imageE)
    fix r assume r: "r \<in> set rs" and eq: "br_release_tag c = br_release_tag r"
      and ne: "br_release_tag (last rs) \<noteq> br_release_tag c"
    obtain i where i: "i < length rs" "r = rs ! i" using r by (auto simp: in_set_conv_nth)
    have l: "last rs = rs ! (length rs - 1)" using r by (intro last_conv_nth) auto
    have "i \<noteq> length rs - 1" using l ne eq i by metis
    with i have "i < length rs - 1" by simp
    with t i eq have "br_release_tag (rs ! (length rs - 1)) = br_release_tag c"
      by (simp add: tags_contiguous_snoc_iff)
    with l eq ne show False by simp
  qed
next
  assume n: "\<not> (br_release_tag c \<in> br_release_tag ` set rs \<and> br_release_tag (last rs) \<noteq> br_release_tag c)"
  have "br_release_tag (rs ! j) = br_release_tag c"
    if j: "j < length rs" and i: "i < j" and eq: "br_release_tag (rs ! i) = br_release_tag c" for i j
  proof (cases "j = length rs - 1")
    case True
    have "rs ! i \<in> set rs" using i j by simp
    with n eq have "br_release_tag (last rs) = br_release_tag c" by (metis imageI)
    with True j show ?thesis by (metis gr_implies_not0 last_conv_nth list.size(3))
  next
    case False
    have "rs ! i \<in> set rs" using i j by simp
    with n eq have "br_release_tag (last rs) = br_release_tag c" by (metis imageI)
    then have "br_release_tag (rs ! (length rs - 1)) = br_release_tag c"
      using j by (metis gr_implies_not0 last_conv_nth list.size(3))
    moreover have "j < length rs - 1" "length rs - 1 < length rs" using False j by auto
    ultimately show ?thesis using assms i eq unfolding tags_contiguous_def by metis
  qed
  with assms show "tags_contiguous (rs @ [c])" by (simp add: tags_contiguous_snoc_iff)
qed

abbreviation issue_agrees :: "binary_record \<Rightarrow> binary_record \<Rightarrow> bool" where
  "issue_agrees p c \<equiv> fork_key p = fork_key c \<longrightarrow> br_artifact_sha256 p = br_artifact_sha256 c"

abbreviation pays_for :: "binary_record \<Rightarrow> binary_record \<Rightarrow> bool" where
  "pays_for p c \<equiv> br_layer p = Payload \<and> br_payload_sha256 p = br_payload_sha256 c"

lemma map_res_Cons_Inr:
  "map_res f (x # xs) = Inr ys \<longleftrightarrow> (\<exists>z zs. ys = z # zs \<and> f x = Inr z \<and> map_res f xs = Inr zs)"
  by (auto split: sum.splits)

lemma binary_scan_accepts:
  assumes "map_res (binary_parse J) es = Inr rs" "\<forall>p \<in> set rs. issue_agrees p c"
  shows "binary_scan J c es seen tag pay =
    Inr (seen \<or> (\<exists>p \<in> set rs. br_release_tag p = br_release_tag c),
      if rs = [] then tag else Some (br_release_tag (last rs)), pay \<or> (\<exists>p \<in> set rs. pays_for p c))"
  using assms
proof (induction es arbitrary: rs seen tag pay)
  case (Cons e es)
  obtain p ps where rs: "rs = p # ps" and p: "binary_parse J e = Inr p"
    and ps: "map_res (binary_parse J) es = Inr ps" using Cons.prems(1) unfolding map_res_Cons_Inr by blast
  have "\<not> (fork_key p = fork_key c \<and> br_artifact_sha256 p \<noteq> br_artifact_sha256 c)"
    using Cons.prems(2) by (auto simp: rs)
  with p have "binary_scan J c (e # es) seen tag pay = binary_scan J c es
      (seen \<or> br_release_tag p = br_release_tag c) (Some (br_release_tag p)) (pay \<or> pays_for p c)"
    by auto
  also have "\<dots> = Inr ((seen \<or> br_release_tag p = br_release_tag c) \<or> (\<exists>p \<in> set ps. br_release_tag p = br_release_tag c),
      if ps = [] then Some (br_release_tag p) else Some (br_release_tag (last ps)),
      (pay \<or> pays_for p c) \<or> (\<exists>p \<in> set ps. pays_for p c))"
    using Cons.prems(2) by (intro Cons.IH [OF ps]) (simp add: rs)
  finally show ?case by (simp add: rs)
qed simp

lemma binary_scan_accepted:
  "binary_scan J c es seen tag pay = Inr res \<Longrightarrow>
   \<exists>rs. map_res (binary_parse J) es = Inr rs \<and> (\<forall>p \<in> set rs. issue_agrees p c)"
proof (induction es arbitrary: seen tag pay)
  case (Cons e es)
  then obtain p where p: "binary_parse J e = Inr p" "issue_agrees p c"
    and rest: "binary_scan J c es (seen \<or> br_release_tag p = br_release_tag c) (Some (br_release_tag p))
      (pay \<or> pays_for p c) = Inr res"
    by (auto simp: bind_res_eq_Inr split: if_splits)
  from Cons.IH [OF rest] obtain ps where "map_res (binary_parse J) es = Inr ps" "\<forall>p \<in> set ps. issue_agrees p c"
    by blast
  with p have "map_res (binary_parse J) (e # es) = Inr (p # ps) \<and> (\<forall>q \<in> set (p # ps). issue_agrees q c)"
    by simp
  then show ?case by blast
qed simp

lemma binary_check_iff:
  "binary_check J es c = Inr () \<longleftrightarrow> (\<exists>rs r. map_res (binary_parse J) es = Inr rs \<and> binary_parse J c = Inr r
     \<and> (\<forall>p \<in> set rs. issue_agrees p r)
     \<and> \<not> (br_release_tag r \<in> br_release_tag ` set rs \<and> br_release_tag (last rs) \<noteq> br_release_tag r)
     \<and> (br_layer r \<noteq> Payload \<longrightarrow> (\<exists>p \<in> set rs. pays_for p r)))"
    (is "?l = ?r")
proof -
  have seen: "(\<exists>p \<in> set rs. br_release_tag p = br_release_tag r) \<longleftrightarrow> br_release_tag r \<in> br_release_tag ` set rs" for rs r
    by (metis imageE imageI)
  have ok: "binary_check J es c = Inr () \<longleftrightarrow>
      \<not> (br_release_tag r \<in> br_release_tag ` set rs \<and> br_release_tag (last rs) \<noteq> br_release_tag r)
      \<and> (br_layer r \<noteq> Payload \<longrightarrow> (\<exists>p \<in> set rs. pays_for p r))"
    if "map_res (binary_parse J) es = Inr rs" "\<forall>p \<in> set rs. issue_agrees p r" "binary_parse J c = Inr r" for rs r
    using binary_scan_accepts [OF that(1,2), of False None False] that(3) seen [of rs r]
    by (cases "rs = []") (simp_all add: binary_check_def)
  show ?thesis
  proof
    assume l: ?l
    then obtain r where r: "binary_parse J c = Inr r" and "\<exists>res. binary_scan J r es False None False = Inr res"
      by (auto simp: binary_check_def bind_res_eq_Inr)
    with binary_scan_accepted obtain rs where rs: "map_res (binary_parse J) es = Inr rs" "\<forall>p \<in> set rs. issue_agrees p r"
      by blast
    with l ok [OF rs r] r show ?r by blast
  next
    assume ?r
    with ok show ?l by blast
  qed
qed

interpretation binary_rule: tenant_rule "binary_check J" "binary_history J" for J
proof
  show "binary_history J []"
    by (simp add: binary_history_def release_history_def fork_free_def tags_contiguous_def derived_paired_def)
next
  fix es c assume "binary_history J es"
  then obtain rs where rs: "map_res (binary_parse J) es = Inr rs"
    and h: "fork_free rs" "tags_contiguous rs" "derived_paired rs"
    by (auto simp: binary_history_iff release_history_def)
  have "release_history (rs @ [r]) \<longleftrightarrow> (\<forall>p \<in> set rs. issue_agrees p r)
     \<and> \<not> (br_release_tag r \<in> br_release_tag ` set rs \<and> br_release_tag (last rs) \<noteq> br_release_tag r)
     \<and> (br_layer r \<noteq> Payload \<longrightarrow> (\<exists>p \<in> set rs. pays_for p r))" for r
    unfolding release_history_def tags_contiguous_snoc [OF h(2)] derived_paired_snoc
    using h by (simp add: fork_free_def sorted_wrt_append)
  then show "(binary_check J es c = Inr ()) = binary_history J (es @ [c])"
    unfolding binary_check_iff binary_history_iff map_res_snoc rs by auto
qed

section \<open>Properties of the tenants\<close>

text \<open>The log after every entry of \<open>es\<close> was offered to it, with one rule registered.\<close>

abbreviation offered :: "lib \<Rightarrow> string \<Rightarrow> tenant_invariant \<Rightarrow> entry list \<Rightarrow> vlog" where
  "offered L t rule es \<equiv>
     fold (\<lambda>e log. snd (vlog_append L log e)) es (register_invariant vlog_new t rule)"

lemma sorted_wrt_nth_iff: "sorted_wrt P xs \<longleftrightarrow> (\<forall>j < length xs. \<forall>i < j. P (xs ! i) (xs ! j))"
  by (auto simp: sorted_wrt_iff_nth_less)

lemma registered_new: "vl_invariants (register_invariant vlog_new t rule) t = Some rule"
  "tenant_entries t (register_invariant vlog_new t rule) = []"
  by (simp_all add: register_invariant_def vlog_new_def tenant_entries_def)

text \<open>A small codec for witnesses: one byte per field that matters.\<close>

definition demo_commit :: "byte \<Rightarrow> byte \<Rightarrow> commit_leaf" where
  "demo_commit c n = \<lparr>cl_conversation_id = [char_of_byte c], cl_epoch = ucast n, cl_sender_id = [], cl_seq = 0,
     cl_commit_sha256 = []\<rparr>"

definition demo_account :: "byte \<Rightarrow> byte \<Rightarrow> account_key_leaf" where
  "demo_account u n = \<lparr>al_user_id = [char_of_byte u], al_identity_version = ucast n, al_account_id_pub = [], al_seq = 0\<rparr>"

definition demo_binary :: "byte \<Rightarrow> byte \<Rightarrow> byte \<Rightarrow> byte \<Rightarrow> binary_record" where
  "demo_binary t l p a = \<lparr>br_release_tag = [char_of_byte t], br_commit = [], br_platform = [], br_arch = [],
     br_bundle = [], br_artifact_name = [], br_layer = (if l = 0 then Payload else if l = 1 then Signed else Exe),
     br_payload_sha256 = [char_of_byte p], br_artifact_sha256 = [char_of_byte a],
     br_toolchain = \<lparr>tc_rustc = [], tc_node = [], tc_pnpm = [], tc_runner_image = [], tc_source_date_epoch = 0\<rparr>,
     br_provenance_uri = []\<rparr>"

definition demo_json :: json where
  "demo_json = \<lparr>
     commit_to_vec = (\<lambda>l. Inr [byte_of_char (hd (cl_conversation_id l)), ucast (cl_epoch l)]),
     commit_from_slice = (\<lambda>b. case b of [c, n] \<Rightarrow> Inr (demo_commit c n) | _ \<Rightarrow> Inl ''bad''),
     account_to_vec = (\<lambda>l. Inr [byte_of_char (hd (al_user_id l)), ucast (al_identity_version l)]),
     account_from_slice = (\<lambda>b. case b of [u, n] \<Rightarrow> Inr (demo_account u n) | _ \<Rightarrow> Inl ''bad''),
     binary_to_vec = (\<lambda>r. Inr [byte_of_char (hd (br_release_tag r)),
       (case br_layer r of Payload \<Rightarrow> 0 | Signed \<Rightarrow> 1 | Exe \<Rightarrow> 2),
       byte_of_char (hd (br_payload_sha256 r)), byte_of_char (hd (br_artifact_sha256 r))]),
     binary_from_slice = (\<lambda>b. case b of [t, l, p, a] \<Rightarrow> Inr (demo_binary t l p a) | _ \<Rightarrow> Inl ''bad'')\<rparr>"

lemma demo_parse:
  "commit_parse demo_json (entry_new t [c, n]) = Inr (demo_commit c n)"
  "account_parse demo_json (entry_new t [c, n]) = Inr (demo_account c n)"
  "binary_parse demo_json (entry_new t [c, n, p, a]) = Inr (demo_binary c n p a)"
  by (simp_all add: commit_parse_def account_parse_def binary_parse_def demo_json_def entry_new_def)

lemma demo_commits_offered:
  "tenant_entries commit_TENANT (offered demo_lib commit_TENANT (commit_check demo_json)
     [entry_new commit_TENANT [97, 1], entry_new commit_TENANT [97, 2], entry_new commit_TENANT [97, 2]])
   = [entry_new commit_TENANT [97, 1], entry_new commit_TENANT [97, 2]]"
  by (simp add: vlog_append_def registered_new commit_check_def demo_parse tenant_entries_def register_invariant_def
      vlog_new_def entry_new_def [of commit_TENANT, THEN arg_cong [where f = tenant]] demo_commit_def)

text \<open>The commit log never forks and never goes back: whatever entries are offered to a log with the
  \<open>CommitLogInvariant\<close> registered, every committed commit-log entry is a leaf, and of two leaves of
  one conversation the later has the strictly larger epoch.\<close>

theorem commit_log_never_forks:
  "\<exists>ls. map_res (commit_parse J) (tenant_entries commit_TENANT (offered L commit_TENANT (commit_check J) es)) = Inr ls
     \<and> (\<forall>j < length ls. \<forall>i < j. cl_conversation_id (ls ! i) = cl_conversation_id (ls ! j)
          \<longrightarrow> cl_epoch (ls ! i) < cl_epoch (ls ! j))"
  using commit_rule.rule.offered_keeps [of "register_invariant vlog_new commit_TENANT (commit_check J)"
      commit_TENANT J L es] commit_rule.rule.holds_Nil [of J]
  by (simp add: registered_new ascending_iff sorted_wrt_nth_iff)

theorem commit_log_never_forks_witness:
  "map_res (commit_parse demo_json) (tenant_entries commit_TENANT (offered demo_lib commit_TENANT (commit_check demo_json)
     [entry_new commit_TENANT [97, 1], entry_new commit_TENANT [97, 2], entry_new commit_TENANT [97, 2]]))
     = Inr [demo_commit 97 1, demo_commit 97 2]
   \<and> cl_epoch ([demo_commit 97 1, demo_commit 97 2] ! 0) < cl_epoch ([demo_commit 97 1, demo_commit 97 2] ! 1)"
proof -
  have "map_res (commit_parse demo_json) (tenant_entries commit_TENANT (offered demo_lib commit_TENANT (commit_check demo_json)
     [entry_new commit_TENANT [97, 1], entry_new commit_TENANT [97, 2], entry_new commit_TENANT [97, 2]]))
     = Inr [demo_commit 97 1, demo_commit 97 2]"
    unfolding demo_commits_offered by (simp add: demo_parse)
  with commit_log_never_forks [of demo_json demo_lib
      "[entry_new commit_TENANT [97, 1], entry_new commit_TENANT [97, 2], entry_new commit_TENANT [97, 2]]"]
  show ?thesis by (auto simp: demo_commit_def)
qed

text \<open>The commit log rejects nothing else: an entry offered to it is accepted exactly if it is a leaf whose
  epoch exceeds the epoch of every committed leaf of its conversation.\<close>

theorem commit_log_accepts_exactly:
  assumes "map_res (commit_parse J) (tenant_entries commit_TENANT (offered L commit_TENANT (commit_check J) es)) = Inr ls"
    and "tenant e = commit_TENANT"
  shows "(\<exists>i. fst (vlog_append L (offered L commit_TENANT (commit_check J) es) e) = Inr i) \<longleftrightarrow>
    (\<exists>l. commit_parse J e = Inr l \<and> (\<forall>p \<in> set ls. cl_conversation_id p = cl_conversation_id l \<longrightarrow> cl_epoch p < cl_epoch l))"
proof -
  let ?log = "offered L commit_TENANT (commit_check J) es"
  have reg: "vl_invariants ?log commit_TENANT = Some (commit_check J)"
    by (induction es rule: rev_induct) (simp_all add: registered_new)
  have h: "commit_history J (tenant_entries commit_TENANT ?log)"
    using commit_rule.rule.offered_keeps [of "register_invariant vlog_new commit_TENANT (commit_check J)"
        commit_TENANT J L es] commit_rule.rule.holds_Nil [of J] by (simp add: registered_new)
  have "(\<exists>i. fst (vlog_append L ?log e) = Inr i) \<longleftrightarrow> commit_history J (tenant_entries commit_TENANT ?log @ [e])"
    using reg h assms(2) by (rule commit_rule.rule.append_accepts_iff)
  also have "\<dots> \<longleftrightarrow> (\<exists>l. commit_parse J e = Inr l \<and>
      (\<forall>p \<in> set ls. cl_conversation_id p = cl_conversation_id l \<longrightarrow> cl_epoch p < cl_epoch l))"
    using h assms(1) by (auto simp: ascending_iff map_res_snoc sorted_wrt_append)
  finally show ?thesis .
qed

theorem commit_log_accepts_exactly_witness:
  "\<not> (\<exists>i. fst (vlog_append demo_lib (offered demo_lib commit_TENANT (commit_check demo_json)
       [entry_new commit_TENANT [97, 1], entry_new commit_TENANT [97, 2], entry_new commit_TENANT [97, 2]])
       (entry_new commit_TENANT [97, 2])) = Inr i)"
proof -
  have "map_res (commit_parse demo_json) (tenant_entries commit_TENANT (offered demo_lib commit_TENANT (commit_check demo_json)
     [entry_new commit_TENANT [97, 1], entry_new commit_TENANT [97, 2], entry_new commit_TENANT [97, 2]]))
     = Inr [demo_commit 97 1, demo_commit 97 2]"
    unfolding demo_commits_offered by (simp add: demo_parse)
  from commit_log_accepts_exactly [OF this, of "entry_new commit_TENANT [97, 2]"]
  show ?thesis by (simp add: demo_parse) (simp add: entry_new_def demo_commit_def)
qed

text \<open>The account-key directory never re-issues a version: whatever entries are offered to a log with the
  \<open>AccountKeyInvariant\<close> registered, every committed entry is a leaf, and of two leaves of one user the
  later has the strictly larger identity version; so a user has at most one key per version.\<close>

lemma account_directory_versions_ascend:
  "\<exists>ls. map_res (account_parse J) (tenant_entries account_TENANT (offered L account_TENANT (account_check J) es)) = Inr ls
     \<and> (\<forall>j < length ls. \<forall>i < j. al_user_id (ls ! i) = al_user_id (ls ! j)
          \<longrightarrow> al_identity_version (ls ! i) < al_identity_version (ls ! j))"
  using account_rule.rule.offered_keeps [of "register_invariant vlog_new account_TENANT (account_check J)"
      account_TENANT J L es] account_rule.rule.holds_Nil [of J]
  by (simp add: registered_new ascending_iff sorted_wrt_nth_iff)

text \<open>The binaries tree keeps its release history: whatever entries are offered to a log with the
  \<open>BinaryInvariant\<close> registered, no released unit is committed with two artifact hashes, the records of
  a tag are contiguous, and each signed or executable record follows the payload record it names.\<close>

theorem binaries_tree_history:
  "\<exists>rs. map_res (binary_parse J) (tenant_entries binaries_TENANT (offered L binaries_TENANT (binary_check J) es)) = Inr rs
     \<and> (\<forall>k < length rs. \<forall>j < k. fork_key (rs ! j) = fork_key (rs ! k)
          \<longrightarrow> br_artifact_sha256 (rs ! j) = br_artifact_sha256 (rs ! k))
     \<and> (\<forall>k < length rs. \<forall>j < k. \<forall>i < j. br_release_tag (rs ! i) = br_release_tag (rs ! k)
          \<longrightarrow> br_release_tag (rs ! j) = br_release_tag (rs ! k))
     \<and> (\<forall>k < length rs. br_layer (rs ! k) \<noteq> Payload
          \<longrightarrow> (\<exists>j < k. br_layer (rs ! j) = Payload \<and> br_payload_sha256 (rs ! j) = br_payload_sha256 (rs ! k)))"
  using binary_rule.offered_keeps [of "register_invariant vlog_new binaries_TENANT (binary_check J)"
      binaries_TENANT J L es] binary_rule.holds_Nil [of J]
  unfolding registered_new binary_history_iff release_history_def fork_free_def sorted_wrt_nth_iff
    tags_contiguous_def derived_paired_def by blast

theorem binaries_tree_history_witness:
  "\<exists>rs. map_res (binary_parse demo_json) (tenant_entries binaries_TENANT (offered demo_lib binaries_TENANT
       (binary_check demo_json) [entry_new binaries_TENANT [1, 1, 5, 6], entry_new binaries_TENANT [1, 0, 5, 5]])) = Inr rs
     \<and> (\<forall>k < length rs. br_layer (rs ! k) \<noteq> Payload
          \<longrightarrow> (\<exists>j < k. br_layer (rs ! j) = Payload \<and> br_payload_sha256 (rs ! j) = br_payload_sha256 (rs ! k)))"
  using binaries_tree_history [of demo_json demo_lib
      "[entry_new binaries_TENANT [1, 1, 5, 6], entry_new binaries_TENANT [1, 0, 5, 5]]"] by blast

lemma context_lengths:
  "length STH_DOMAIN = 28" "length account_STH_CONTEXT = 41" "length binaries_STH_CONTEXT = 37"
  by (simp_all add: STH_DOMAIN_def account_STH_CONTEXT_def binaries_STH_CONTEXT_def length_as_bytes)

text \<open>Tree heads of the three trees cannot stand in for one another: no message signed under one of the
  three contexts is a message signed under another, and under one context the message determines the
  size, the root and the timestamp.\<close>

theorem signed_heads_separated:
  assumes "c \<in> {STH_DOMAIN, account_STH_CONTEXT, binaries_STH_CONTEXT}"
    and "c' \<in> {STH_DOMAIN, account_STH_CONTEXT, binaries_STH_CONTEXT}"
    and "is_hash root" "is_hash root'"
  shows "signing_message_with_context c n root ts = signing_message_with_context c' n' root' ts'
    \<longleftrightarrow> c = c' \<and> n = n' \<and> root = root' \<and> ts = ts'"
proof
  assume eq: "signing_message_with_context c n root ts = signing_message_with_context c' n' root' ts'"
  then have "length (signing_message_with_context c n root ts) = length (signing_message_with_context c' n' root' ts')"
    by simp
  then have "length c = length c'" using assms(3,4)
    by (simp add: signing_message_with_context_def is_hash_def length_be_bytes)
  then have "c = c'" using assms(1,2) by (auto simp: context_lengths)
  with eq assms(3,4) show "c = c' \<and> n = n' \<and> root = root' \<and> ts = ts'"
    by (simp add: signing_message_with_context_def is_hash_def length_be_bytes append_eq_append_conv)
qed simp

theorem signed_heads_separated_witness:
  "signing_message_with_context STH_DOMAIN 1 leaf1 2 \<noteq> signing_message_with_context account_STH_CONTEXT 1 leaf1 2"
proof -
  have "STH_DOMAIN \<noteq> account_STH_CONTEXT" using context_lengths by auto
  then show ?thesis
    using signed_heads_separated [of STH_DOMAIN account_STH_CONTEXT leaf1 leaf1 1 2 1 2] by (simp add: is_hash_def)
qed

end
