(* ===== verification/Vlog_Builder.thy ===== *)
theory Vlog_Builder
  imports Vlog_Tenants
begin

text \<open>The bundle builder of \<open>verifiable-log-builder\<close> (\<open>error.rs\<close>, \<open>source.rs\<close>, \<open>builder.rs\<close>) and the
  offline monitor that checks a bundle (\<open>verifiable-log/src/bin/monitor.rs\<close>). Reading the database and the
  bundle file is I/O: the rows and the parsed bundle are arguments here.\<close>

section \<open>Errors and rows (error.rs, source.rs)\<close>

datatype builder_error =
    Db string
  | Log vl_error
  | BuilderInvariant invariant_violation
  | Encode string
  | Io string
  | SigningKey string
  | NoDbSource
  | EmptyCommitLog
  | EmptyAccountKeyLog
  | NoSigningKey string

record commit_row =
  cr_seq :: i64
  cr_conversation_id :: string
  cr_epoch :: i64
  cr_sender_id :: string
  cr_commit_sha256 :: string

text \<open>\<open>self.epoch.max(0) as u64\<close>.\<close>

definition commit_row_to_leaf :: "commit_row \<Rightarrow> commit_leaf" where
  "commit_row_to_leaf r = \<lparr>cl_conversation_id = cr_conversation_id r, cl_epoch = word_of_int (max (cr_epoch r) 0),
     cl_sender_id = cr_sender_id r, cl_seq = cr_seq r, cl_commit_sha256 = cr_commit_sha256 r\<rparr>"

record account_key_row =
  ar_seq :: i64
  ar_user_id :: string
  ar_identity_version :: i64
  ar_account_id_pub :: string

definition account_row_to_leaf :: "account_key_row \<Rightarrow> account_key_leaf" where
  "account_row_to_leaf r = \<lparr>al_user_id = ar_user_id r,
     al_identity_version = word_of_int (max (ar_identity_version r) 0),
     al_account_id_pub = ar_account_id_pub r, al_seq = ar_seq r\<rparr>"

definition sha256_hex :: "lib \<Rightarrow> bytes \<Rightarrow> string" where
  "sha256_hex L bs = hex_encode L (sha256 L bs)"

text \<open>The rows as the query returns them, columns already typed.\<close>

definition read_commit_log :: "lib \<Rightarrow> (i64 \<times> string \<times> i64 \<times> string \<times> bytes) list \<Rightarrow> commit_row list" where
  "read_commit_log L rows = map (\<lambda>(seq, conversation_id, epoch, sender_id, commit_data).
     \<lparr>cr_seq = seq, cr_conversation_id = conversation_id, cr_epoch = epoch, cr_sender_id = sender_id,
      cr_commit_sha256 = sha256_hex L commit_data\<rparr>) rows"

definition read_account_key_log :: "lib \<Rightarrow> (i64 \<times> string \<times> i64 \<times> bytes) list \<Rightarrow> account_key_row list" where
  "read_account_key_log L rows = map (\<lambda>(seq, user_id, identity_version, account_id_pub).
     \<lparr>ar_seq = seq, ar_user_id = user_id, ar_identity_version = identity_version,
      ar_account_id_pub = hex_encode L account_id_pub\<rparr>) rows"

definition ensure_non_empty :: "commit_row list \<Rightarrow> builder_error + unit" where
  "ensure_non_empty rows = (if rows = [] then Inl EmptyCommitLog else Inr ())"

definition ensure_account_non_empty :: "account_key_row list \<Rightarrow> builder_error + unit" where
  "ensure_account_non_empty rows = (if rows = [] then Inl EmptyAccountKeyLog else Inr ())"

section \<open>Bundles (builder.rs)\<close>

record inclusion_check =
  ic_entry :: entry
  ic_proof :: inclusion_proof
  ic_sth_index :: nat

record consistency_check =
  cc_old_index :: nat
  cc_new_index :: nat
  cc_proof :: consistency_proof

record log_bundle =
  b_public_key :: string
  b_sths :: "sth list"
  b_entries :: "entry list"
  b_enforce_unique :: "string list"
  b_inclusion :: "inclusion_check list"
  b_consistency :: "consistency_check list"

text \<open>The loops of the builder's three entry points: encode, append, push; the first error ends the build.\<close>

fun append_leaves :: "lib \<Rightarrow> ('a \<Rightarrow> string + entry) \<Rightarrow> vlog \<Rightarrow> 'a list \<Rightarrow> builder_error + (vlog \<times> entry list)" where
  "append_leaves L to_entry log [] = Inr (log, [])"
| "append_leaves L to_entry log (leaf # rest) =
     bind_res (map_err Encode (to_entry leaf)) (\<lambda>entry.
       case vlog_append L log entry of
         (Inl err, _) \<Rightarrow> Inl (Log err)
       | (Inr _, log') \<Rightarrow> bind_res (append_leaves L to_entry log' rest) (\<lambda>(log'', entries).
           Inr (log'', entry # entries)))"

definition make_sth :: "lib \<Rightarrow> bytes \<Rightarrow> u64 \<Rightarrow> bytes option \<Rightarrow> nat \<Rightarrow> hash \<Rightarrow> sth" where
  "make_sth L key timestamp sth_context n root = (case sth_context of
       Some ctxt \<Rightarrow> sth_create_with_context L key (word_of_nat n) root timestamp ctxt
     | None \<Rightarrow> sth_create L key (word_of_nat n) root timestamp)"

text \<open>\<open>None\<close> stands for a \<open>consistency_path\<close> that does not return.\<close>

definition seal :: "lib \<Rightarrow> vlog \<Rightarrow> entry list \<Rightarrow> string list \<Rightarrow> bytes \<Rightarrow> u64 \<Rightarrow> bytes option
    \<Rightarrow> (builder_error + log_bundle) option" where
  "seal L log entries enforce_unique key timestamp sth_context =
     (let n = vlog_size log;
          midpoint = (if n \<ge> 2 then Some (n div 2) else None);
          mid_sths = (case midpoint of
              None \<Rightarrow> Inr []
            | Some m \<Rightarrow> bind_res (map_err Log (vlog_root_at L log m)) (\<lambda>mid_root.
                Inr [make_sth L key timestamp sth_context m mid_root]))
      in case mid_sths of
        Inl err \<Rightarrow> Some (Inl err)
      | Inr early \<Rightarrow>
          (let sths = early @ [make_sth L key timestamp sth_context n (vlog_root L log)];
               final_index = length sths - 1;
               inclusion = map_res (\<lambda>i. bind_res (map_err Log (vlog_inclusion_proof L log i)) (\<lambda>p.
                 Inr \<lparr>ic_entry = entries ! i, ic_proof = p, ic_sth_index = final_index\<rparr>)) [0..<n];
               consistency = (case midpoint of
                   None \<Rightarrow> Some (Inr [])
                 | Some m \<Rightarrow> map_option (\<lambda>res. bind_res (map_err Log res) (\<lambda>p.
                     Inr [\<lparr>cc_old_index = 0, cc_new_index = final_index, cc_proof = p\<rparr>]))
                     (vlog_consistency_proof L log m n))
           in case inclusion of
                Inl err \<Rightarrow> Some (Inl err)
              | Inr incl \<Rightarrow> map_option (\<lambda>res. bind_res res (\<lambda>cons.
                  Inr \<lparr>b_public_key = hex_encode L (ed_public L key), b_sths = sths, b_entries = entries,
                    b_enforce_unique = enforce_unique, b_inclusion = incl, b_consistency = cons\<rparr>)) consistency))"

definition build_with :: "lib \<Rightarrow> string \<Rightarrow> tenant_invariant \<Rightarrow> ('a \<Rightarrow> string + entry) \<Rightarrow> 'a list \<Rightarrow> bytes \<Rightarrow> u64
    \<Rightarrow> bytes option \<Rightarrow> (builder_error + log_bundle) option" where
  "build_with L t rule to_entry leaves key timestamp sth_context =
     (case append_leaves L to_entry (register_invariant vlog_new t rule) leaves of
        Inl err \<Rightarrow> Some (Inl err)
      | Inr (log, entries) \<Rightarrow> seal L log entries [t] key timestamp sth_context)"

definition build_bundle :: "lib \<Rightarrow> json \<Rightarrow> commit_row list \<Rightarrow> bytes \<Rightarrow> u64 \<Rightarrow> (builder_error + log_bundle) option" where
  "build_bundle L J rows key timestamp =
     build_with L commit_TENANT (commit_check J) (commit_to_entry J) (map commit_row_to_leaf rows) key timestamp None"

definition build_account_bundle :: "lib \<Rightarrow> json \<Rightarrow> account_key_row list \<Rightarrow> bytes \<Rightarrow> u64 \<Rightarrow> (builder_error + log_bundle) option" where
  "build_account_bundle L J rows key timestamp =
     build_with L account_TENANT (account_check J) (account_to_entry J) (map account_row_to_leaf rows) key timestamp
       (Some account_STH_CONTEXT)"

definition build_binaries_bundle :: "lib \<Rightarrow> json \<Rightarrow> binary_record list \<Rightarrow> bytes \<Rightarrow> u64 \<Rightarrow> (builder_error + log_bundle) option" where
  "build_binaries_bundle L J records key timestamp =
     build_with L binaries_TENANT (binary_check J) (binary_to_entry J) records key timestamp
       (Some binaries_STH_CONTEXT)"

section \<open>The monitor (monitor.rs)\<close>

definition signature_checks :: "lib \<Rightarrow> log_bundle \<Rightarrow> bytes \<Rightarrow> bool list" where
  "signature_checks L b vk = map (\<lambda>s. sth_verify L s vk) (b_sths b)"

definition equivocation_checks :: "sth list \<Rightarrow> bool list" where
  "equivocation_checks sths = concat (map (\<lambda>i. map (\<lambda>j. \<not> is_equivocation (sths ! i) (sths ! j))
     [i + 1..<length sths]) [0..<length sths])"

definition root_matches :: "lib \<Rightarrow> vlog \<Rightarrow> sth \<Rightarrow> bool" where
  "root_matches L log s = (case vlog_root_at L log (unat (sth_tree_size s)) of
       Inr root \<Rightarrow> (case root_bytes L s of Inr r \<Rightarrow> r = root | Inl _ \<Rightarrow> False)
     | Inl _ \<Rightarrow> False)"

definition replay_checks :: "lib \<Rightarrow> log_bundle \<Rightarrow> bool list" where
  "replay_checks L b =
     (if b_entries b = [] then []
      else let log0 = fold (\<lambda>t log. register_invariant log t unique_data_check) (b_enforce_unique b) vlog_new;
               (errs, log) = replay_all L log0 (b_entries b);
               replay_ok = (errs = [])
           in replay_ok # (if replay_ok then map (root_matches L log) (b_sths b) else []))"

definition inclusion_checks :: "lib \<Rightarrow> log_bundle \<Rightarrow> bool list" where
  "inclusion_checks L b = map (\<lambda>c. if ic_sth_index c < length (b_sths b)
     then verify_inclusion_proof L (ic_entry c) (ic_proof c) (b_sths b ! ic_sth_index c) else False) (b_inclusion b)"

definition consistency_checks :: "lib \<Rightarrow> log_bundle \<Rightarrow> bool list" where
  "consistency_checks L b = map (\<lambda>c. if cc_old_index c < length (b_sths b) \<and> cc_new_index c < length (b_sths b)
     then verify_consistency_proof L (b_sths b ! cc_old_index c) (b_sths b ! cc_new_index c) (cc_proof c)
     else False) (b_consistency b)"

definition run_verify :: "lib \<Rightarrow> log_bundle \<Rightarrow> vl_error + bool" where
  "run_verify L b = bind_res (verifying_key_from_hex L (b_public_key b)) (\<lambda>vk.
     Inr (list_all id (signature_checks L b vk @ equivocation_checks (b_sths b) @ replay_checks L b
       @ inclusion_checks L b @ consistency_checks L b)))"

section \<open>What the builder seals\<close>

lemma append_leaves_Inr:
  "append_leaves L f log xs = Inr (log', es) \<Longrightarrow> append_all L log es = Inr log' \<and> map_res f xs = Inr es"
proof (induction xs arbitrary: log es)
  case (Cons x xs)
  then obtain e where e: "f x = Inr e" by (cases "f x") auto
  obtain r m where a: "vlog_append L log e = (r, m)" by fastforce
  from Cons.prems e a obtain i es' where r: "r = Inr i" and rest: "append_leaves L f m xs = Inr (log', es')"
    and es: "es = e # es'" by (cases r) (auto simp: bind_res_eq_Inr)
  from Cons.IH [OF rest] e a r es show ?case by simp
qed simp

text \<open>The context a head is signed under, and the head of the first \<open>m\<close> entries.\<close>

definition context_of :: "bytes option \<Rightarrow> bytes" where
  "context_of c = (case c of None \<Rightarrow> STH_DOMAIN | Some ctxt \<Rightarrow> ctxt)"

definition head_at :: "lib \<Rightarrow> vlog \<Rightarrow> bytes \<Rightarrow> u64 \<Rightarrow> bytes option \<Rightarrow> nat \<Rightarrow> sth" where
  "head_at L log key ts c m =
     sth_create_with_context L key (word_of_nat m) (root_hash (sha256 L) (take m (vl_leaves log))) ts (context_of c)"

lemma make_sth_eq:
  "make_sth L key ts c m (root_hash (sha256 L) (take m (vl_leaves log))) = head_at L log key ts c m"
  by (simp add: make_sth_def head_at_def context_of_def sth_create_def split: option.splits)

lemma head_at_facts:
  assumes "lib_ok L" "vlog_inv L log"
  shows "sth_tree_size (head_at L log key ts c m) = word_of_nat m"
    "root_bytes L (head_at L log key ts c m) = Inr (root_hash (sha256 L) (take m (vl_leaves log)))"
    "verify_with_context L (head_at L log key ts c m) (ed_public L key) (context_of c)"
proof -
  have ok: "hash_fn (sha256 L)" "hex_ok L" using assms(1) by (auto simp: lib_ok_def)
  note root = is_hash_vlog_root [OF ok(1) assms(2), of m]
  show "sth_tree_size (head_at L log key ts c m) = word_of_nat m" by (simp add: head_at_def)
  show "root_bytes L (head_at L log key ts c m) = Inr (root_hash (sha256 L) (take m (vl_leaves log)))"
    using root ok(2) by (simp add: head_at_def)
  show "verify_with_context L (head_at L log key ts c m) (ed_public L key) (context_of c)"
    unfolding head_at_def using assms(1) root by (rule verify_created)
qed

definition sealed_heads :: "lib \<Rightarrow> vlog \<Rightarrow> bytes \<Rightarrow> u64 \<Rightarrow> bytes option \<Rightarrow> sth list" where
  "sealed_heads L log key ts c =
     (if vlog_size log \<ge> 2 then [head_at L log key ts c (vlog_size log div 2)] else [])
     @ [head_at L log key ts c (vlog_size log)]"

lemma last_sealed_head:
  "sealed_heads L log key ts c ! (length (sealed_heads L log key ts c) - 1) = head_at L log key ts c (vlog_size log)"
  by (simp add: sealed_heads_def)

lemma mid_proof:
  assumes "lib_ok L" "vlog_inv L log" "vlog_size log < 2 ^ 64" "2 \<le> vlog_size log"
  obtains p where "vlog_consistency_proof L log (vlog_size log div 2) (vlog_size log) = Some (Inr p)"
    and "verify_consistency_proof L (head_at L log key ts c (vlog_size log div 2)) (head_at L log key ts c (vlog_size log)) p"
proof -
  have len: "length (vl_leaves log) = vlog_size log" using assms(2) by (simp add: vlog_inv_def vlog_size_def)
  have roots: "vlog_root_at L log m = Inr (root_hash (sha256 L) (take m (vl_leaves log)))" if "m \<le> vlog_size log" for m
    using that len by (simp add: vlog_root_at_def)
  have m: "0 < vlog_size log div 2" "vlog_size log div 2 \<le> vlog_size log" using assms(4) by auto
  from consistency_proof_verifies [OF assms(1,2) m order_refl assms(3)]
  obtain p where p: "vlog_consistency_proof L log (vlog_size log div 2) (vlog_size log) = Some (Inr p)"
    and v: "\<And>old new ra rb. vlog_root_at L log (vlog_size log div 2) = Inr ra \<Longrightarrow> vlog_root_at L log (vlog_size log) = Inr rb
        \<Longrightarrow> root_bytes L old = Inr ra \<Longrightarrow> sth_tree_size old = word_of_nat (vlog_size log div 2)
        \<Longrightarrow> root_bytes L new = Inr rb \<Longrightarrow> sth_tree_size new = word_of_nat (vlog_size log)
        \<Longrightarrow> verify_consistency_proof L old new p" by blast
  show thesis
    using p by (rule that) (rule v [OF roots roots]; use m in \<open>simp add: head_at_facts [OF assms(1,2)]\<close>)
qed

lemma entry_proof:
  assumes "lib_ok L" "vlog_inv L log" "vlog_size log < 2 ^ 64" "i < vlog_size log"
  obtains p where "vlog_inclusion_proof L log i = Inr p"
    and "verify_inclusion_proof L (vl_entries log ! i) p (head_at L log key ts c (vlog_size log))"
proof -
  have len: "length (vl_leaves log) = vlog_size log" using assms(2) by (simp add: vlog_inv_def vlog_size_def)
  obtain p where p: "vlog_inclusion_proof L log i = Inr p"
    using assms(4) len by (simp add: vlog_inclusion_proof_def)
  show thesis
    using p by (rule that) (rule inclusion_proof_verifies [OF assms(1,2,4,3) p];
      use len in \<open>simp add: head_at_facts [OF assms(1,2)] vlog_root_def\<close>)
qed

lemma seal_ok:
  assumes "lib_ok L" "vlog_inv L log" "vlog_size log < 2 ^ 64"
  obtains b where "seal L log (vl_entries log) uniq key ts c = Some (Inr b)"
    and "b_public_key b = hex_encode L (ed_public L key)" "b_sths b = sealed_heads L log key ts c"
    and "b_entries b = vl_entries log" "b_enforce_unique b = uniq"
    and "list_all id (inclusion_checks L b)" "list_all id (consistency_checks L b)"
    and "map_res (vlog_inclusion_proof L log) [0..<vlog_size log] = Inr (map ic_proof (b_inclusion b))"
proof -
  let ?n = "vlog_size log" and ?heads = "sealed_heads L log key ts c" and ?head = "head_at L log key ts c"
  let ?fi = "length ?heads - 1"
  have len: "length (vl_leaves log) = ?n" using assms(2) by (simp add: vlog_inv_def vlog_size_def)
  have roots: "vlog_root_at L log m = Inr (root_hash (sha256 L) (take m (vl_leaves log)))" if "m \<le> ?n" for m
    using that len by (simp add: vlog_root_at_def)
  have root: "vlog_root L log = root_hash (sha256 L) (take ?n (vl_leaves log))" using len by (simp add: vlog_root_def)
  have hd: "make_sth L key ts c ?n (vlog_root L log) = ?head ?n" unfolding root by (rule make_sth_eq)
  define f where "f = (\<lambda>i. bind_res (map_err Log (vlog_inclusion_proof L log i)) (\<lambda>p.
    Inr \<lparr>ic_entry = vl_entries log ! i, ic_proof = p, ic_sth_index = ?fi\<rparr>))"
  have "\<exists>incl. map_res f [0..<?n] = Inr incl
    \<and> (\<forall>x \<in> set incl. ic_sth_index x = ?fi \<and> verify_inclusion_proof L (ic_entry x) (ic_proof x) (?head ?n))"
  proof (rule map_res_total)
    fix i assume "i \<in> set [0..<?n]"
    then have "i < ?n" by simp
    from entry_proof [OF assms this] obtain p where "vlog_inclusion_proof L log i = Inr p"
      "verify_inclusion_proof L (vl_entries log ! i) p (?head ?n)" by blast
    then show "\<exists>y. f i = Inr y \<and> (ic_sth_index y = ?fi \<and> verify_inclusion_proof L (ic_entry y) (ic_proof y) (?head ?n))"
      by (simp add: f_def)
  qed
  then obtain incl where incl: "map_res f [0..<?n] = Inr incl"
    "\<forall>x \<in> set incl. ic_sth_index x = ?fi \<and> verify_inclusion_proof L (ic_entry x) (ic_proof x) (?head ?n)" by blast
  have proofs: "map_res (vlog_inclusion_proof L log) [0..<?n] = Inr (map ic_proof incl)"
    using incl(1) unfolding map_res_Inr_iff list_all2_map2
    by (rule list_all2_mono) (auto simp: f_def bind_res_eq_Inr map_err_eq_Inr)
  have fi: "?fi < length ?heads" by (simp add: sealed_heads_def)
  show thesis
  proof (cases "?n \<ge> 2")
    case True
    obtain p where p: "vlog_consistency_proof L log (?n div 2) ?n = Some (Inr p)"
      "verify_consistency_proof L (?head (?n div 2)) (?head ?n) p" using mid_proof [OF assms True] by blast
    have heads: "?heads = [?head (?n div 2), ?head ?n]" using True by (simp add: sealed_heads_def)
    let ?b = "\<lparr>b_public_key = hex_encode L (ed_public L key), b_sths = ?heads, b_entries = vl_entries log,
      b_enforce_unique = uniq, b_inclusion = incl,
      b_consistency = [\<lparr>cc_old_index = 0, cc_new_index = ?fi, cc_proof = p\<rparr>]\<rparr>"
    have "seal L log (vl_entries log) uniq key ts c = Some (Inr ?b)"
      using True p(1) incl(1) roots [of "?n div 2"]
      by (simp add: seal_def Let_def hd make_sth_eq heads f_def)
    then show ?thesis
      by (rule that) (use incl(2) p(2) proofs in
        \<open>simp_all add: inclusion_checks_def consistency_checks_def heads list_all_iff\<close>)
  next
    case False
    have heads: "?heads = [?head ?n]" using False by (simp add: sealed_heads_def)
    let ?b = "\<lparr>b_public_key = hex_encode L (ed_public L key), b_sths = ?heads, b_entries = vl_entries log,
      b_enforce_unique = uniq, b_inclusion = incl, b_consistency = []\<rparr>"
    have "seal L log (vl_entries log) uniq key ts c = Some (Inr ?b)"
      using False incl(1) by (simp add: seal_def Let_def hd heads f_def)
    then show ?thesis
      by (rule that) (use incl(2) proofs in
        \<open>simp_all add: inclusion_checks_def consistency_checks_def heads list_all_iff\<close>)
  qed
qed

lemma sealed_heads_no_equivocation:
  assumes "vlog_size log < 2 ^ 64"
  shows "list_all id (equivocation_checks (sealed_heads L log key ts c))"
proof (cases "vlog_size log \<ge> 2")
  case True
  have "unat (word_of_nat (vlog_size log div 2) :: u64) \<noteq> unat (word_of_nat (vlog_size log) :: u64)"
    using True assms by (simp add: unat_of_nat)
  then have "(word_of_nat (vlog_size log div 2) :: u64) \<noteq> word_of_nat (vlog_size log)" by metis
  with True show ?thesis
    by (simp add: equivocation_checks_def sealed_heads_def is_equivocation_def head_at_def)
next
  case False
  then show ?thesis by (simp add: equivocation_checks_def sealed_heads_def)
qed

section \<open>What the builder refuses\<close>

context tenant_rule
begin

lemma append_leaves_outcome:
  assumes "vl_invariants log t = Some check" "holds (tenant_entries t log)" "map_res f xs = Inr es"
    and "\<forall>e \<in> set es. tenant e = t" "\<And>xs ys. holds (xs @ ys) \<Longrightarrow> holds xs"
  shows "if holds (tenant_entries t log @ es) then \<exists>log'. append_leaves L f log xs = Inr (log', es)
    else \<exists>v. append_leaves L f log xs = Inl (Log (Invariant v))"
  using assms(1-4)
proof (induction xs arbitrary: log es)
  case (Cons x xs)
  from Cons.prems(3) obtain e es' where e: "f x = Inr e" and es: "es = e # es'" and rest: "map_res f xs = Inr es'"
    by (auto split: sum.splits)
  have t: "tenant e = t" using Cons.prems(4) es by simp
  show ?case
  proof (rule vlog_append_cases [of L log e])
    fix v assume a: "vlog_append L log e = (Inl (Invariant v), log)"
    have "\<not> holds (tenant_entries t log @ [e])"
      using append_accepts_iff [OF Cons.prems(1,2) t, of L] a by simp
    then have "\<not> holds (tenant_entries t log @ es)"
      using assms(5) [of "tenant_entries t log @ [e]" es'] es by auto
    with a e show ?thesis by simp
  next
    let ?m = "log\<lparr>vl_leaves := vl_leaves log @ [entry_leaf_hash L e], vl_entries := vl_entries log @ [e]\<rparr>"
    assume a: "vlog_append L log e = (Inr (length (vl_entries log)), ?m)"
    have m: "tenant_entries t ?m = tenant_entries t log @ [e]" using t by (simp add: tenant_entries_def)
    have h: "holds (tenant_entries t ?m)" using append_keeps [OF Cons.prems(1,2), of L e] a by simp
    have reg: "vl_invariants ?m t = Some check" using Cons.prems(1) by simp
    have ts: "\<forall>e \<in> set es'. tenant e = t" using Cons.prems(4) es by simp
    have "append_leaves L f log (x # xs) = bind_res (append_leaves L f ?m xs) (\<lambda>(log'', entries). Inr (log'', e # entries))"
      using a e by simp
    with Cons.IH [OF reg h rest ts] show ?thesis unfolding m es by (auto split: if_splits)
  qed
qed (use assms(2) in simp)

end

lemma bind_res_to_entry:
  assumes "codec_ok enc dec xs" "\<And>x. f x = bind_res (enc x) (\<lambda>d. Inr (entry_new t d))"
    and "\<And>e. p e = map_err g (dec (data e))"
  obtains es where "map_res f xs = Inr es" "\<forall>e \<in> set es. tenant e = t" "map_res p es = Inr xs"
proof -
  have "\<exists>es. map_res f xs = Inr es \<and> (\<forall>e \<in> set es. tenant e = t) \<and> map_res p es = Inr xs"
    using assms(1)
  proof (induction xs)
    case (Cons x xs)
    then have "codec_ok enc dec xs" by (simp add: codec_ok_def)
    with Cons.IH obtain es where es: "map_res f xs = Inr es" "\<forall>e \<in> set es. tenant e = t" "map_res p es = Inr xs" by blast
    obtain b where b: "enc x = Inr b" "dec b = Inr x" using Cons.prems by (auto simp: codec_ok_def)
    with es have "map_res f (x # xs) = Inr (entry_new t b # es) \<and> (\<forall>e \<in> set (entry_new t b # es). tenant e = t)
      \<and> map_res p (entry_new t b # es) = Inr (x # xs)"
      by (simp add: assms(2,3)) (simp add: entry_new_def)
    then show ?case by blast
  qed simp
  then show thesis using that by blast
qed

lemma ascending_parsed:
  "map_res p es = Inr xs \<Longrightarrow> ascending p key ver es \<longleftrightarrow> sorted_wrt (\<lambda>a b. key a = key b \<longrightarrow> ver a < ver b) xs"
  by (simp add: ascending_def)

section \<open>The monitor accepts what the builder seals\<close>

lemma replay_clean_append_all:
  "fst (replay_all L log es) = [] \<Longrightarrow> append_all L log es = Inr (snd (replay_all L log es))"
proof (induction es arbitrary: log)
  case (Cons e es)
  obtain r m where a: "vlog_append L log e = (r, m)" by fastforce
  with Cons show ?case by (cases r) (auto split: prod.splits)
qed simp

lemma replay_sealed:
  assumes "lib_ok L" "vlog_inv L log" "vlog_size log < 2 ^ 64" "\<forall>e \<in> set (vl_entries log). tenant e = t"
    and "distinct_data (vl_entries log)" "b_entries b = vl_entries log" "b_enforce_unique b = [t]"
    and "b_sths b = sealed_heads L log key ts c"
  shows "list_all id (replay_checks L b)"
proof -
  let ?start = "register_invariant vlog_new t unique_data_check"
  let ?log = "snd (replay_all L ?start (vl_entries log))"
  have clean: "fst (replay_all L ?start (vl_entries log)) = []"
    using unique_data.replay_clean_iff [of ?start t "vl_entries log" L] assms(4,5) distinct_data_prefix
      unique_data.holds_Nil by (simp add: registered_new)
  note app = replay_clean_append_all [OF clean]
  have "vlog_reach L ?log" by (rule append_all_reach [OF app]) (intro vlog_reach.intros)
  then have inv': "vlog_inv L ?log" by (rule vlog_reach_inv)
  have "vl_entries ?log = vl_entries log"
    using append_all_entries [OF app] by (simp add: register_invariant_def vlog_new_def)
  with inv' assms(2) have leaves: "vl_leaves ?log = vl_leaves log" by (simp add: vlog_inv_def)
  have len: "length (vl_leaves log) = vlog_size log" using assms(2) by (simp add: vlog_inv_def vlog_size_def)
  have "root_matches L ?log (head_at L log key ts c m)" if "m \<le> vlog_size log" for m
  proof -
    have "unat (word_of_nat m :: u64) = m" using that assms(3) by (simp add: unat_of_nat)
    then show ?thesis using that len
      by (simp add: root_matches_def head_at_facts [OF assms(1,2)] vlog_root_at_def leaves)
  qed
  then have "list_all id (map (root_matches L ?log) (b_sths b))" by (simp add: assms(8) sealed_heads_def)
  with clean show ?thesis
    by (simp add: replay_checks_def assms(6,7) Let_def split: prod.splits) (metis fst_conv snd_conv)
qed

text \<open>What \<open>build_with\<close> returns once every leaf is accepted, for a rule that keeps payloads distinct.\<close>

lemma build_with_ok:
  assumes "lib_ok L" "length leaves < 2 ^ 64"
    and "append_leaves L f (register_invariant vlog_new t rule) leaves = Inr (log, entries)"
  obtains b where "build_with L t rule f leaves key ts c = Some (Inr b)"
    and "b_public_key b = hex_encode L (ed_public L key)" "b_entries b = entries" "b_enforce_unique b = [t]"
    and "b_sths b = sealed_heads L log key ts c" "list_all id (inclusion_checks L b)"
    and "list_all id (consistency_checks L b)" "vlog_inv L log" "vl_entries log = entries" "vlog_size log < 2 ^ 64"
    and "map_res (vlog_inclusion_proof L log) [0..<vlog_size log] = Inr (map ic_proof (b_inclusion b))"
proof -
  have app: "append_all L (register_invariant vlog_new t rule) entries = Inr log" "map_res f leaves = Inr entries"
    using append_leaves_Inr [OF assms(3)] by auto
  have entries: "vl_entries log = entries"
    using append_all_entries [OF app(1)] by (simp add: register_invariant_def vlog_new_def)
  have "length entries = length leaves" using app(2) by (auto simp: map_res_Inr_iff dest: list_all2_lengthD)
  then have sz: "vlog_size log < 2 ^ 64" using assms(2) entries by (simp add: vlog_size_def)
  have "vlog_reach L log" by (rule append_all_reach [OF app(1)]) (intro vlog_reach.intros)
  then have log: "vlog_inv L log" by (rule vlog_reach_inv)
  obtain b where b: "seal L log (vl_entries log) [t] key ts c = Some (Inr b)"
    "b_public_key b = hex_encode L (ed_public L key)" "b_sths b = sealed_heads L log key ts c"
    "b_entries b = vl_entries log" "b_enforce_unique b = [t]"
    "list_all id (inclusion_checks L b)" "list_all id (consistency_checks L b)"
    "map_res (vlog_inclusion_proof L log) [0..<vlog_size log] = Inr (map ic_proof (b_inclusion b))"
    using seal_ok [OF assms(1) log sz] by metis
  have "build_with L t rule f leaves key ts c = Some (Inr b)" using b(1) assms(3) entries by (simp add: build_with_def)
  then show thesis by (rule that) (use b log sz entries in simp_all)
qed

lemma build_with_succeeded:
  "build_with L t rule f leaves key ts c = Some (Inr b) \<Longrightarrow>
   \<exists>log entries. append_leaves L f (register_invariant vlog_new t rule) leaves = Inr (log, entries)"
  by (auto simp: build_with_def split: sum.splits)

lemma verifying_key_of_bundle:
  "lib_ok L \<Longrightarrow> verifying_key_from_hex L (hex_encode L (ed_public L key)) = Inr (ed_public L key)"
  by (simp add: verifying_key_from_hex_def lib_ok_def hex_ok_def ed25519_ok_def)

lemma sealed_heads_verify:
  "lib_ok L \<Longrightarrow> vlog_inv L log \<Longrightarrow>
   \<forall>s \<in> set (sealed_heads L log key ts c). verify_with_context L s (ed_public L key) (context_of c)"
  by (simp add: sealed_heads_def head_at_facts)

lemma to_entry_tenant:
  assumes "map_res f xs = Inr es" "\<And>x e. f x = Inr e \<Longrightarrow> tenant e = t"
  shows "\<forall>e \<in> set es. tenant e = t"
  using assms(1) unfolding map_res_Inr_iff by (induction xs es rule: list_all2_induct) (auto dest: assms(2))

lemma build_with_refused:
  "append_leaves L f (register_invariant vlog_new t rule) leaves = Inl err \<Longrightarrow>
   build_with L t rule f leaves key ts c = Some (Inl err)"
  by (simp add: build_with_def)

context ascending_check
begin

lemma build_outcome:
  assumes "lib_ok L" "length leaves < 2 ^ 64" "map_res f leaves = Inr es" "\<forall>e \<in> set es. tenant e = t" "map_res parse es = Inr leaves"
  shows "if sorted_wrt (\<lambda>p c. key p = key c \<longrightarrow> ver p < ver c) leaves
    then \<exists>b. build_with L t check f leaves sk ts ctx = Some (Inr b) else \<exists>v. build_with L t check f leaves sk ts ctx = Some (Inl (Log (Invariant v)))"
proof -
  let ?start = "register_invariant vlog_new t check"
  have h: "ascending parse key ver (tenant_entries t ?start)" by (simp add: registered_new rule.holds_Nil)
  have out: "if ascending parse key ver es then \<exists>log'. append_leaves L f ?start leaves = Inr (log', es)
    else \<exists>v. append_leaves L f ?start leaves = Inl (Log (Invariant v))"
    using rule.append_leaves_outcome [where L = L, OF registered_new(1) h assms(3,4) ascending_prefix] by (simp add: registered_new)
  show ?thesis
  proof (cases "ascending parse key ver es")
    case True
    with out obtain log' where "append_leaves L f ?start leaves = Inr (log', es)" by auto
    from build_with_ok [OF assms(1,2) this] have "\<exists>b. build_with L t check f leaves sk ts ctx = Some (Inr b)" by metis
    with True show ?thesis by (simp add: ascending_parsed [OF assms(5)])
  next
    case False
    with out obtain v where "append_leaves L f ?start leaves = Inl (Log (Invariant v))" by auto
    from build_with_refused [OF this] have "\<exists>v. build_with L t check f leaves sk ts ctx = Some (Inl (Log (Invariant v)))" by blast
    with False show ?thesis by (simp add: ascending_parsed [OF assms(5)])
  qed
qed

end

lemma commit_build_outcome:
  assumes "lib_ok L" "length rows < 2 ^ 64"
    and "codec_ok (commit_to_vec J) (commit_from_slice J) (map commit_row_to_leaf rows)"
  shows "if sorted_wrt (\<lambda>p c. cl_conversation_id p = cl_conversation_id c \<longrightarrow> cl_epoch p < cl_epoch c)
        (map commit_row_to_leaf rows)
    then \<exists>b. build_bundle L J rows key ts = Some (Inr b)
    else \<exists>v. build_bundle L J rows key ts = Some (Inl (Log (Invariant v)))"
proof -
  obtain es where es: "map_res (commit_to_entry J) (map commit_row_to_leaf rows) = Inr es" "\<forall>e \<in> set es. tenant e = commit_TENANT"
    "map_res (commit_parse J) es = Inr (map commit_row_to_leaf rows)"
    using bind_res_to_entry [OF assms(3), of "commit_to_entry J" commit_TENANT "commit_parse J"
        "\<lambda>err. iv_new commit_TENANT (''malformed commit-log leaf: '' @ err)"]
    unfolding commit_to_entry_def commit_parse_def by blast
  show ?thesis unfolding build_bundle_def by (rule commit_rule.build_outcome [OF assms(1) _ es]) (use assms(2) in simp)
qed

lemma account_build_outcome:
  assumes "lib_ok L" "length rows < 2 ^ 64"
    and "codec_ok (account_to_vec J) (account_from_slice J) (map account_row_to_leaf rows)"
  shows "if sorted_wrt (\<lambda>p c. al_user_id p = al_user_id c \<longrightarrow> al_identity_version p < al_identity_version c)
        (map account_row_to_leaf rows)
    then \<exists>b. build_account_bundle L J rows key ts = Some (Inr b)
    else \<exists>v. build_account_bundle L J rows key ts = Some (Inl (Log (Invariant v)))"
proof -
  obtain es where es: "map_res (account_to_entry J) (map account_row_to_leaf rows) = Inr es" "\<forall>e \<in> set es. tenant e = account_TENANT"
    "map_res (account_parse J) es = Inr (map account_row_to_leaf rows)"
    using bind_res_to_entry [OF assms(3), of "account_to_entry J" account_TENANT "account_parse J"
        "\<lambda>err. iv_new account_TENANT (''malformed account-key leaf: '' @ err)"]
    unfolding account_to_entry_def account_parse_def by blast
  show ?thesis unfolding build_account_bundle_def by (rule account_rule.build_outcome [OF assms(1) _ es]) (use assms(2) in simp)
qed

definition demo_row :: "int \<Rightarrow> int \<Rightarrow> commit_row" where
  "demo_row n s = \<lparr>cr_seq = 0, cr_conversation_id = [char_of_byte 97], cr_epoch = n, cr_sender_id = [], cr_commit_sha256 = []\<rparr>"

lemma demo_row_leaf: "commit_row_to_leaf (demo_row 1 s) = demo_commit 97 1" "commit_row_to_leaf (demo_row 2 s) = demo_commit 97 2"
  by (simp_all add: commit_row_to_leaf_def demo_row_def demo_commit_def)

lemma demo_codec_ok:
  "codec_ok (commit_to_vec demo_json) (commit_from_slice demo_json) [demo_commit 97 1, demo_commit 97 2]"
  by (simp add: codec_ok_def demo_json_def demo_commit_def)

section \<open>Properties of builder and monitor\<close>

text \<open>C26. The monitor accepts every bundle the commit-log builder produces: from any rows, whatever the JSON
  codec, a build that succeeds yields a bundle in which the monitor finds every signature, root,
  uniqueness, inclusion and consistency check in order.\<close>

theorem monitor_accepts_built_bundle:
  assumes "lib_ok L" "length rows < 2 ^ 64" "build_bundle L J rows key ts = Some (Inr b)"
  shows "run_verify L b = Inr True"
proof -
  let ?leaves = "map commit_row_to_leaf rows"
  obtain log entries where
    a: "append_leaves L (commit_to_entry J) (register_invariant vlog_new commit_TENANT (commit_check J)) ?leaves = Inr (log, entries)"
    using assms(3) build_with_succeeded unfolding build_bundle_def by blast
  have "length ?leaves < 2 ^ 64" using assms(2) by simp
  from build_with_ok [OF assms(1) this a, of key ts None] assms(3)
  have b: "b_public_key b = hex_encode L (ed_public L key)" "b_entries b = entries" "b_enforce_unique b = [commit_TENANT]"
    "b_sths b = sealed_heads L log key ts None" "list_all id (inclusion_checks L b)"
    "list_all id (consistency_checks L b)" and log: "vlog_inv L log" "vl_entries log = entries" "vlog_size log < 2 ^ 64"
    unfolding build_bundle_def by (metis option.inject sum.inject(2))+
  have app: "append_all L (register_invariant vlog_new commit_TENANT (commit_check J)) entries = Inr log"
    "map_res (commit_to_entry J) ?leaves = Inr entries" using append_leaves_Inr [OF a] by auto
  have ten: "\<forall>e \<in> set entries. tenant e = commit_TENANT"
    using app(2) by (rule to_entry_tenant) (auto simp: commit_to_entry_def bind_res_eq_Inr entry_new_def)
  then have "tenant_entries commit_TENANT log = entries" by (simp add: tenant_entries_def log(2))
  moreover have "commit_history J (tenant_entries commit_TENANT log)"
    by (rule commit_rule.rule.append_all_keeps [OF _ _ app(1)]) (simp_all add: registered_new commit_rule.rule.holds_Nil)
  ultimately have dist: "distinct_data (vl_entries log)"
    using commit_rule.ascending_distinct_data [of J] log(2) by simp
  have "list_all id (replay_checks L b)"
    using assms(1) log(1,3) _ dist _ b(3,4) by (rule replay_sealed) (simp_all add: b ten log)
  moreover have "list_all id (signature_checks L b (ed_public L key))"
    using sealed_heads_verify [OF assms(1) log(1), of key ts None]
    by (simp add: signature_checks_def b(4) sth_verify_def context_of_def list_all_iff)
  ultimately show ?thesis
    using b sealed_heads_no_equivocation [OF log(3)] assms(1)
    by (simp add: run_verify_def verifying_key_of_bundle)
qed

theorem monitor_accepts_built_bundle_witness:
  "\<exists>b. build_bundle demo_lib demo_json [demo_row 1 0, demo_row 2 1] [7] 5 = Some (Inr b)
     \<and> run_verify demo_lib b = Inr True"
proof -
  have "\<exists>b. build_bundle demo_lib demo_json [demo_row 1 0, demo_row 2 1] [7] 5 = Some (Inr b)"
    using commit_build_outcome [OF lib_ok_demo, of "[demo_row 1 0, demo_row 2 1]" demo_json "[7]" 5] demo_codec_ok
    by (simp add: demo_row_leaf) (simp add: demo_commit_def)
  then show ?thesis using monitor_accepts_built_bundle [OF lib_ok_demo, of "[demo_row 1 0, demo_row 2 1]" demo_json "[7]" 5]
    by auto
qed

text \<open>C27. The commit-log builder refuses exactly the histories that fork or go back: a build over rows whose
  leaves the codec handles returns a bundle if, per conversation, the epochs (clamped at zero) strictly
  increase, and otherwise ends with the tenant's violation wrapped as a log error.\<close>

theorem builder_refuses_exactly_forks:
  assumes "lib_ok L" "length rows < 2 ^ 64"
    and "codec_ok (commit_to_vec J) (commit_from_slice J) (map commit_row_to_leaf rows)"
  shows "if sorted_wrt (\<lambda>p c. cl_conversation_id p = cl_conversation_id c \<longrightarrow> cl_epoch p < cl_epoch c)
        (map commit_row_to_leaf rows)
    then \<exists>b. build_bundle L J rows key ts = Some (Inr b)
    else \<exists>v. build_bundle L J rows key ts = Some (Inl (Log (Invariant v)))"
  using assms by (rule commit_build_outcome)

theorem builder_refuses_exactly_forks_witness:
  "\<exists>v. build_bundle demo_lib demo_json [demo_row 2 0, demo_row 1 1] [7] 5 = Some (Inl (Log (Invariant v)))"
proof -
  have c: "codec_ok (commit_to_vec demo_json) (commit_from_slice demo_json) (map commit_row_to_leaf [demo_row 2 0, demo_row 1 1])"
    using demo_codec_ok by (simp add: demo_row_leaf codec_ok_def)
  show ?thesis
    using builder_refuses_exactly_forks [OF lib_ok_demo _ c, of "[7]" 5]
    by (simp add: demo_row_leaf) (simp add: demo_commit_def)
qed

end
