(* ===== verification/Vlog_Serve.thy ===== *)
theory Vlog_Serve
  imports Vlog_Builder
begin

text \<open>The verdict cores of \<open>verifiable-log-serve\<close>: the report on one conversation (\<open>group.rs\<close>), on one user's
  keys (\<open>account.rs\<close>) and on one release (\<open>release.rs\<close>), computed from a bundle, and the wrappers that
  assemble the bundle from a published site. HTTP and JSON transport is the record \<open>site\<close>.\<close>

section \<open>Errors and shared steps\<close>

text \<open>\<open>Display\<close> of the log's errors.\<close>

fun show_vl_error :: "vl_error \<Rightarrow> string" where
  "show_vl_error (IndexOutOfRange i n) =
     ''leaf index '' @ show_nat i @ '' out of range for tree of size '' @ show_nat n"
| "show_vl_error (InvalidTreeSizes a b) =
     ''invalid tree sizes for consistency proof: first='' @ show_nat a @ '', second='' @ show_nat b"
| "show_vl_error (Invariant v) = ''tenant `'' @ iv_tenant v @ ''` invariant violated: '' @ iv_message v"
| "show_vl_error (Hex e) = ''invalid hex: '' @ e"
| "show_vl_error (BadHashLength n) = ''malformed hash: expected 32 bytes, got '' @ show_nat n"
| "show_vl_error (BadSignatureLength n) = ''malformed signature: expected 64 bytes, got '' @ show_nat n"
| "show_vl_error (BadPublicKeyLength n) = ''malformed public key: expected 32 bytes, got '' @ show_nat n"
| "show_vl_error BadPublicKey = ''invalid ed25519 public key''"

datatype serve_error =
    ServeIo string
  | ServeJson string
  | ServeLog vl_error
  | Http string
  | BadBundle string
  | Config string
  | ServeBuilder builder_error

text \<open>The em dash of the messages, in UTF-8.\<close>

definition em_dash :: string where
  "em_dash = [CHR 0xE2, CHR 0x80, CHR 0x94]"

text \<open>\<open>iter().max_by_key(|s| s.tree_size)\<close>: the last of the largest.\<close>

definition latest_sth :: "sth list \<Rightarrow> sth option" where
  "latest_sth sths = fold (\<lambda>s best. case best of
       None \<Rightarrow> Some s
     | Some m \<Rightarrow> if sth_tree_size m \<le> sth_tree_size s then Some s else Some m) sths None"

text \<open>The trust anchor: size, root and whether the signature of the newest head verifies.\<close>

definition trust_anchor :: "lib \<Rightarrow> (sth \<Rightarrow> bytes \<Rightarrow> bool) \<Rightarrow> log_bundle \<Rightarrow> u64 \<times> string \<times> bool" where
  "trust_anchor L verifies b =
     (case (latest_sth (b_sths b), verifying_key_from_hex L (b_public_key b)) of
        (Some s, Inr vk) \<Rightarrow> (sth_tree_size s, sth_root_hash s, verifies s vk)
      | (Some s, Inl _) \<Rightarrow> (sth_tree_size s, sth_root_hash s, False)
      | (None, _) \<Rightarrow> (0, [], False))"

text \<open>The entries of the tenant that decode and match, with their index in the log.\<close>

definition select_leaves :: "string \<Rightarrow> (bytes \<Rightarrow> string + 'a) \<Rightarrow> ('a \<Rightarrow> bool) \<Rightarrow> entry list \<Rightarrow> (nat \<times> 'a) list" where
  "select_leaves t decode matches entries = List.map_filter (\<lambda>(i, e).
     if tenant e = t then (case decode (data e) of
         Inl _ \<Rightarrow> None
       | Inr leaf \<Rightarrow> if matches leaf then Some (i, leaf) else None)
     else None) (List.enumerate 0 entries)"

text \<open>Collecting into a map keeps the last proof of an index.\<close>

definition inclusion_by_index :: "log_bundle \<Rightarrow> nat \<rightharpoonup> inclusion_proof" where
  "inclusion_by_index b = fold (\<lambda>c m. m(unat (ip_leaf_index (ic_proof c)) \<mapsto> ic_proof c))
     (filter (\<lambda>c. case latest_sth (b_sths b) of None \<Rightarrow> False
        | Some s \<Rightarrow> ip_tree_size (ic_proof c) = sth_tree_size s) (b_inclusion b)) Map.empty"

definition leaf_included :: "lib \<Rightarrow> log_bundle \<Rightarrow> nat \<Rightarrow> bool" where
  "leaf_included L b i =
     (case (inclusion_by_index b i, latest_sth (b_sths b)) of
        (Some p, Some s) \<Rightarrow>
          (if i < length (b_entries b) then verify_inclusion_proof L (b_entries b ! i) p s else False)
      | _ \<Rightarrow> False)"

text \<open>Re-encode each leaf and append it to a fresh log with the tenant's rule: one message per failure.\<close>

fun replay_leaves :: "lib \<Rightarrow> ('a \<Rightarrow> string + entry) \<Rightarrow> ('a \<Rightarrow> string) \<Rightarrow> vlog \<Rightarrow> 'a list \<Rightarrow> string list" where
  "replay_leaves L to_entry describe log [] = []"
| "replay_leaves L to_entry describe log (leaf # rest) =
     (case to_entry leaf of
        Inl e \<Rightarrow> (describe leaf @ '' failed to re-encode: '' @ e) # replay_leaves L to_entry describe log rest
      | Inr entry \<Rightarrow> (case vlog_append L log entry of
            (Inl violation, log') \<Rightarrow> show_vl_error violation # replay_leaves L to_entry describe log' rest
          | (Inr _, log') \<Rightarrow> replay_leaves L to_entry describe log' rest))"

section \<open>One conversation (group.rs)\<close>

record group_commit =
  gc_epoch :: u64
  gc_seq :: i64
  gc_sender_id :: string
  gc_commit_sha256 :: string
  gc_included :: bool

record group_report =
  gr_group_id :: string
  gr_found :: bool
  gr_sth_tree_size :: u64
  gr_root_hex :: string
  gr_commits :: "group_commit list"
  gr_chain_valid :: bool
  gr_violations :: "string list"

definition commit_violation :: "commit_leaf \<Rightarrow> string" where
  "commit_violation leaf = ''commit seq '' @ show_int (cl_seq leaf) @ '' (epoch '' @ show_u64 (cl_epoch leaf)
     @ '') is not provably included in the signed log''"

definition verify_group_in_bundle :: "lib \<Rightarrow> json \<Rightarrow> log_bundle \<Rightarrow> string \<Rightarrow> group_report" where
  "verify_group_in_bundle L J b conversation_id =
     (let (tree_size, root_hex, sth_sig_ok) = trust_anchor L (sth_verify L) b;
          anchor_violations = (if sth_sig_ok then []
            else [''STH signature is invalid '' @ em_dash @ '' published head is not trustworthy'']);
          selected = sort_key (\<lambda>(_, leaf). cl_seq leaf)
            (select_leaves commit_TENANT (commit_from_slice J) (\<lambda>leaf. cl_conversation_id leaf = conversation_id)
              (b_entries b));
          commits = map (\<lambda>(i, leaf). \<lparr>gc_epoch = cl_epoch leaf, gc_seq = cl_seq leaf, gc_sender_id = cl_sender_id leaf,
            gc_commit_sha256 = cl_commit_sha256 leaf, gc_included = leaf_included L b i\<rparr>) selected;
          missing = filter (\<lambda>(i, leaf). \<not> leaf_included L b i) selected;
          all_included = (missing = []);
          inclusion_violations = map (\<lambda>(_, leaf). commit_violation leaf) missing;
          replay_violations = replay_leaves L (commit_to_entry J) (\<lambda>leaf. ''commit seq '' @ show_int (cl_seq leaf))
            (register_invariant vlog_new commit_TENANT (commit_check J)) (map snd selected);
          invariant_ok = (replay_violations = [])
      in \<lparr>gr_group_id = conversation_id, gr_found = (selected \<noteq> []), gr_sth_tree_size = tree_size,
          gr_root_hex = root_hex, gr_commits = commits,
          gr_chain_valid = (sth_sig_ok \<and> all_included \<and> invariant_ok),
          gr_violations = anchor_violations @ inclusion_violations @ replay_violations\<rparr>)"

section \<open>One user's keys (account.rs)\<close>

record account_key_version =
  kv_identity_version :: u64
  kv_seq :: i64
  kv_account_id_pub :: string
  kv_included :: bool

record account_report =
  ap_user_id :: string
  ap_found :: bool
  ap_sth_tree_size :: u64
  ap_root_hex :: string
  ap_keys :: "account_key_version list"
  ap_chain_valid :: bool
  ap_violations :: "string list"

definition key_describe :: "account_key_leaf \<Rightarrow> string" where
  "key_describe leaf = ''key version '' @ show_u64 (al_identity_version leaf) @ '' (seq '' @ show_int (al_seq leaf) @ '')''"

definition verify_account_in_bundle :: "lib \<Rightarrow> json \<Rightarrow> log_bundle \<Rightarrow> string \<Rightarrow> account_report" where
  "verify_account_in_bundle L J b user_id =
     (let (tree_size, root_hex, sth_sig_ok) =
            trust_anchor L (\<lambda>s vk. verify_with_context L s vk account_STH_CONTEXT) b;
          anchor_violations = (if sth_sig_ok then []
            else [''account STH signature is invalid '' @ em_dash @ '' published head is not trustworthy'']);
          selected = sort_key (\<lambda>(_, leaf). al_seq leaf)
            (select_leaves account_TENANT (account_from_slice J) (\<lambda>leaf. al_user_id leaf = user_id) (b_entries b));
          keys = map (\<lambda>(i, leaf). \<lparr>kv_identity_version = al_identity_version leaf, kv_seq = al_seq leaf,
            kv_account_id_pub = al_account_id_pub leaf, kv_included = leaf_included L b i\<rparr>) selected;
          missing = filter (\<lambda>(i, leaf). \<not> leaf_included L b i) selected;
          all_included = (missing = []);
          inclusion_violations = map (\<lambda>(_, leaf). key_describe leaf
            @ '' is not provably included in the signed account tree'') missing;
          replay_violations = replay_leaves L (account_to_entry J) key_describe
            (register_invariant vlog_new account_TENANT (account_check J)) (map snd selected);
          invariant_ok = (replay_violations = [])
      in \<lparr>ap_user_id = user_id, ap_found = (selected \<noteq> []), ap_sth_tree_size = tree_size,
          ap_root_hex = root_hex, ap_keys = keys,
          ap_chain_valid = (sth_sig_ok \<and> all_included \<and> invariant_ok),
          ap_violations = anchor_violations @ inclusion_violations @ replay_violations\<rparr>)"

section \<open>One release (release.rs)\<close>

record release_artifact =
  ra_platform :: string
  ra_arch :: string
  ra_bundle :: string
  ra_layer :: layer
  ra_artifact_name :: string
  ra_payload_sha256 :: string
  ra_artifact_sha256 :: string
  ra_provenance_uri :: string
  ra_included :: bool

record release_report =
  rr_release_tag :: string
  rr_found :: bool
  rr_sth_tree_size :: u64
  rr_root_hex :: string
  rr_artifacts :: "release_artifact list"
  rr_chain_valid :: bool
  rr_violations :: "string list"

definition verify_release_in_bundle :: "lib \<Rightarrow> json \<Rightarrow> log_bundle \<Rightarrow> string \<Rightarrow> release_report" where
  "verify_release_in_bundle L J b release_tag =
     (let (tree_size, root_hex, sth_sig_ok) =
            trust_anchor L (\<lambda>s vk. verify_with_context L s vk binaries_STH_CONTEXT) b;
          anchor_violations = (if sth_sig_ok then []
            else [''binaries STH signature is invalid '' @ em_dash @ '' published head is not trustworthy'']);
          selected = select_leaves binaries_TENANT (binary_from_slice J) (\<lambda>r. br_release_tag r = release_tag) (b_entries b);
          artifacts = map (\<lambda>(i, r). \<lparr>ra_platform = br_platform r, ra_arch = br_arch r, ra_bundle = br_bundle r,
            ra_layer = br_layer r, ra_artifact_name = br_artifact_name r, ra_payload_sha256 = br_payload_sha256 r,
            ra_artifact_sha256 = br_artifact_sha256 r, ra_provenance_uri = br_provenance_uri r,
            ra_included = leaf_included L b i\<rparr>) selected;
          missing = filter (\<lambda>(i, r). \<not> leaf_included L b i) selected;
          all_included = (missing = []);
          inclusion_violations = map (\<lambda>(_, r). ''artifact `'' @ br_artifact_name r @ ''` ('' @ layer_debug (br_layer r)
            @ '') is not provably included in the signed binaries tree'') missing;
          replay_violations = map show_vl_error (fst (replay_all L
            (register_invariant vlog_new binaries_TENANT (binary_check J))
            (filter (\<lambda>e. tenant e = binaries_TENANT) (b_entries b))));
          invariant_ok = (replay_violations = [])
      in \<lparr>rr_release_tag = release_tag, rr_found = (selected \<noteq> []), rr_sth_tree_size = tree_size,
          rr_root_hex = root_hex, rr_artifacts = artifacts,
          rr_chain_valid = (sth_sig_ok \<and> all_included \<and> invariant_ok),
          rr_violations = anchor_violations @ inclusion_violations @ replay_violations\<rparr>)"

section \<open>Reading a published site\<close>

record inclusion_ref =
  ir_tree_size :: u64
  ir_leaf_index :: u64

record consistency_ref =
  kr_first :: u64
  kr_second :: u64

text \<open>The three manifests have one shape; the last field lists conversations, users or release tags.\<close>

record manifest =
  mf_version :: string
  mf_public_key :: string
  mf_entry_count :: u64
  mf_latest_tree_size :: "u64 option"
  mf_sth_sizes :: "u64 list"
  mf_inclusion :: "inclusion_ref list"
  mf_consistency :: "consistency_ref list"
  mf_enforce_unique :: "string list"
  mf_subjects :: "string list"

text \<open>\<open>fetch_json\<close> and \<open>fetch_json_opt\<close> at each document type, as functions of the URL.\<close>

record site =
  fetch_public_key :: "string \<Rightarrow> serve_error + string"
  fetch_sth :: "string \<Rightarrow> serve_error + sth"
  fetch_entries :: "string \<Rightarrow> serve_error + entry list"
  fetch_entry :: "string \<Rightarrow> serve_error + entry"
  fetch_inclusion :: "string \<Rightarrow> serve_error + inclusion_proof"
  fetch_consistency :: "string \<Rightarrow> serve_error + consistency_proof"
  fetch_manifest :: "string \<Rightarrow> serve_error + manifest"
  fetch_manifest_opt :: "string \<Rightarrow> serve_error + manifest option"

definition trim_end_slashes :: "string \<Rightarrow> string" where
  "trim_end_slashes s = rev (dropWhile (\<lambda>c. c = CHR 0x2F) (rev s))"

text \<open>The bundle the wrappers assemble: the newest head, all entries, and a proof for each selected entry
  whose fetch succeeds.\<close>

definition fetched_bundle :: "site \<Rightarrow> string \<Rightarrow> string \<Rightarrow> string \<Rightarrow> sth \<Rightarrow> entry list \<Rightarrow> nat list \<Rightarrow> log_bundle" where
  "fetched_bundle st prefix t pk s entries indices =
     \<lparr>b_public_key = pk, b_sths = [s], b_entries = entries, b_enforce_unique = [t],
      b_inclusion = List.map_filter (\<lambda>i.
        case fetch_inclusion st (prefix @ ''/proof/inclusion/'' @ show_u64 (sth_tree_size s) @ ''/'' @ show_nat i @ ''.json'') of
          Inl _ \<Rightarrow> None
        | Inr p \<Rightarrow> if i < length entries
            then Some \<lparr>ic_entry = entries ! i, ic_proof = p, ic_sth_index = 0\<rparr> else None) indices,
      b_consistency = []\<rparr>"

text \<open>\<open>connect\<close> is \<open>build_agent\<close>: a malformed proxy is an error, never a direct connection.\<close>

definition verify_group_via :: "lib \<Rightarrow> json \<Rightarrow> (string option \<Rightarrow> serve_error + site) \<Rightarrow> string \<Rightarrow> string \<Rightarrow> string option
    \<Rightarrow> serve_error + group_report" where
  "verify_group_via L J connect base_url conversation_id proxy =
     (let prefix = trim_end_slashes base_url @ ''/v1'' in
      bind_res (connect proxy) (\<lambda>st.
      bind_res (fetch_public_key st (prefix @ ''/public_key.json'')) (\<lambda>pk.
      bind_res (fetch_sth st (prefix @ ''/sth/latest.json'')) (\<lambda>s.
      bind_res (fetch_entries st (prefix @ ''/entries.json'')) (\<lambda>entries.
        Inr (verify_group_in_bundle L J (fetched_bundle st prefix commit_TENANT pk s entries
          (map fst (select_leaves commit_TENANT (commit_from_slice J)
            (\<lambda>leaf. cl_conversation_id leaf = conversation_id) entries))) conversation_id))))))"

definition verify_group :: "lib \<Rightarrow> json \<Rightarrow> (string option \<Rightarrow> serve_error + site) \<Rightarrow> string \<Rightarrow> string \<Rightarrow> serve_error + group_report" where
  "verify_group L J connect base_url conversation_id = verify_group_via L J connect base_url conversation_id None"

definition verify_account_via :: "lib \<Rightarrow> json \<Rightarrow> (string option \<Rightarrow> serve_error + site) \<Rightarrow> string \<Rightarrow> string \<Rightarrow> string option
    \<Rightarrow> serve_error + account_report" where
  "verify_account_via L J connect base_url user_id proxy =
     (let prefix = trim_end_slashes base_url @ ''/v1/account-keys'' in
      bind_res (connect proxy) (\<lambda>st.
      bind_res (fetch_public_key st (prefix @ ''/public_key.json'')) (\<lambda>pk.
      bind_res (fetch_sth st (prefix @ ''/sth/latest.json'')) (\<lambda>s.
      bind_res (fetch_entries st (prefix @ ''/entries.json'')) (\<lambda>entries.
        Inr (verify_account_in_bundle L J (fetched_bundle st prefix account_TENANT pk s entries
          (map fst (select_leaves account_TENANT (account_from_slice J)
            (\<lambda>leaf. al_user_id leaf = user_id) entries))) user_id))))))"

definition verify_account :: "lib \<Rightarrow> json \<Rightarrow> (string option \<Rightarrow> serve_error + site) \<Rightarrow> string \<Rightarrow> string \<Rightarrow> serve_error + account_report" where
  "verify_account L J connect base_url user_id = verify_account_via L J connect base_url user_id None"

definition verify_release_via :: "lib \<Rightarrow> json \<Rightarrow> (string option \<Rightarrow> serve_error + site) \<Rightarrow> string \<Rightarrow> string \<Rightarrow> string option
    \<Rightarrow> serve_error + release_report" where
  "verify_release_via L J connect base_url release_tag proxy =
     (let prefix = trim_end_slashes base_url @ ''/v1/binaries'' in
      bind_res (connect proxy) (\<lambda>st.
      bind_res (fetch_public_key st (prefix @ ''/public_key.json'')) (\<lambda>pk.
      bind_res (fetch_sth st (prefix @ ''/sth/latest.json'')) (\<lambda>s.
      bind_res (fetch_entries st (prefix @ ''/entries.json'')) (\<lambda>entries.
        Inr (verify_release_in_bundle L J (fetched_bundle st prefix binaries_TENANT pk s entries
          (map fst (select_leaves binaries_TENANT (binary_from_slice J)
            (\<lambda>r. br_release_tag r = release_tag) entries))) release_tag))))))"

definition verify_release :: "lib \<Rightarrow> json \<Rightarrow> (string option \<Rightarrow> serve_error + site) \<Rightarrow> string \<Rightarrow> string \<Rightarrow> serve_error + release_report" where
  "verify_release L J connect base_url release_tag = verify_release_via L J connect base_url release_tag None"

section \<open>Lemmas on the shared steps\<close>

lemma fold_map_upd: "fold (\<lambda>c m. m(k c \<mapsto> v c)) xs m = m ++ map_of (rev (map (\<lambda>c. (k c, v c)) xs))"
  by (induction xs arbitrary: m) (simp_all add: map_add_def fun_eq_iff split: option.splits)

lemma inclusion_by_index_Some:
  "inclusion_by_index b i = Some p \<Longrightarrow> unat (ip_leaf_index p) = i
     \<and> (\<exists>s. latest_sth (b_sths b) = Some s \<and> ip_tree_size p = sth_tree_size s)"
  unfolding inclusion_by_index_def fold_map_upd
  by (auto dest!: map_of_SomeD split: option.splits)

lemma mem_map_filter: "x \<in> set (List.map_filter f xs) \<longleftrightarrow> (\<exists>y \<in> set xs. f y = Some x)"
  by (induction xs) (auto simp: map_filter_simps split: option.splits)

lemma select_leaves_set:
  "(i, leaf) \<in> set (select_leaves t dec P es) \<longleftrightarrow>
     i < length es \<and> tenant (es ! i) = t \<and> dec (data (es ! i)) = Inr leaf \<and> P leaf"
proof -
  let ?f = "\<lambda>(i, e). if tenant e = t then (case dec (data e) of Inl _ \<Rightarrow> None
    | Inr leaf \<Rightarrow> if P leaf then Some (i, leaf) else None) else None"
  have "?f (j, e) = Some (i, leaf) \<longleftrightarrow> j = i \<and> tenant e = t \<and> dec (data e) = Inr leaf \<and> P leaf" for j e
    by (auto split: sum.splits)
  then have "(\<exists>y \<in> set (List.enumerate 0 es). ?f y = Some (i, leaf)) \<longleftrightarrow>
    (\<exists>e. (i, e) \<in> set (List.enumerate 0 es) \<and> tenant e = t \<and> dec (data e) = Inr leaf \<and> P leaf)" by force
  then show ?thesis unfolding select_leaves_def mem_map_filter by (auto simp: in_set_enumerate_eq)
qed

lemma latest_sth_singleton [simp]: "latest_sth [s] = Some s"
  by (simp add: latest_sth_def)

end
