(* ===== verification/Vlog_Verdict.thy ===== *)
theory Vlog_Verdict
  imports Vlog_Serve
begin

text \<open>What the verdicts of \<open>Vlog_Serve\<close> mean: a positive verdict on a conversation or a user implies a verified
  head, a proof for every matching entry and an ascending history; a bundle the builder produced gets a
  positive verdict; the verdict over a site that serves a bundle is the verdict on the bundle.\<close>

section \<open>Replaying re-encoded leaves\<close>

lemma replay_leaves_encoded:
  "map_res f xs = Inr es \<Longrightarrow> replay_leaves L f d log xs = map show_vl_error (fst (replay_all L log es))"
proof (induction xs arbitrary: log es)
  case (Cons x xs)
  from Cons.prems obtain e es' where e: "f x = Inr e" and es: "es = e # es'" and rest: "map_res f xs = Inr es'"
    unfolding map_res_Cons_Inr by blast
  obtain r m where a: "vlog_append L log e = (r, m)" by fastforce
  show ?case using e a Cons.IH [OF rest, of m] by (cases r) (simp_all add: es split: prod.splits)
qed simp

lemma replay_leaves_clean:
  assumes "replay_leaves L f d log xs = []"
  shows "\<exists>es. map_res f xs = Inr es"
  using assms
proof (induction xs arbitrary: log)
  case (Cons x xs)
  then show ?case
  proof (cases "f x")
    case (Inr e)
    obtain r m where a: "vlog_append L log e = (r, m)" by fastforce
    with Cons.prems Inr obtain i where "r = Inr i" and rest: "replay_leaves L f d m xs = []" by (cases r) auto
    from Cons.IH [OF rest] Inr show ?thesis by auto
  qed simp
qed simp

context tenant_rule
begin

lemma replay_leaves_iff:
  assumes "vl_invariants log t = Some check" "holds (tenant_entries t log)" "map_res f xs = Inr es"
    and "\<forall>e \<in> set es. tenant e = t" "\<And>xs ys. holds (xs @ ys) \<Longrightarrow> holds xs"
  shows "replay_leaves L f d log xs = [] \<longleftrightarrow> holds (tenant_entries t log @ es)"
  unfolding replay_leaves_encoded [OF assms(3)] using replay_clean_iff [OF assms(1,2,4,5)] by simp

end

section \<open>Verdicts in terms of their parts\<close>

lemma trust_anchor_ok:
  "snd (snd (trust_anchor L verifies b)) \<longleftrightarrow>
     (\<exists>s vk. latest_sth (b_sths b) = Some s \<and> verifying_key_from_hex L (b_public_key b) = Inr vk \<and> verifies s vk)"
  by (auto simp: trust_anchor_def split: option.splits sum.splits)

lemma leaf_included_proof:
  "leaf_included L b i \<Longrightarrow> \<exists>p s. latest_sth (b_sths b) = Some s \<and> unat (ip_leaf_index p) = i \<and> i < length (b_entries b)
     \<and> verify_inclusion_proof L (b_entries b ! i) p s"
  by (auto simp: leaf_included_def split: option.splits if_splits dest: inclusion_by_index_Some)

abbreviation group_selection :: "json \<Rightarrow> log_bundle \<Rightarrow> string \<Rightarrow> (nat \<times> commit_leaf) list" where
  "group_selection J b c \<equiv> sort_key (\<lambda>(_, leaf). cl_seq leaf) (select_leaves commit_TENANT (commit_from_slice J)
     (\<lambda>leaf. cl_conversation_id leaf = c) (b_entries b))"

abbreviation account_selection :: "json \<Rightarrow> log_bundle \<Rightarrow> string \<Rightarrow> (nat \<times> account_key_leaf) list" where
  "account_selection J b u \<equiv> sort_key (\<lambda>(_, leaf). al_seq leaf) (select_leaves account_TENANT (account_from_slice J)
     (\<lambda>leaf. al_user_id leaf = u) (b_entries b))"

lemma filter_not_included: "filter (\<lambda>(i, x). \<not> P i) xs = [] \<longleftrightarrow> (\<forall>(i, x) \<in> set xs. P i)"
  by (auto simp: filter_empty_conv)

lemma group_report_commits:
  "map (\<lambda>x. (gc_epoch x, gc_seq x, gc_commit_sha256 x)) (gr_commits (verify_group_in_bundle L J b c))
   = map (\<lambda>l. (cl_epoch l, cl_seq l, cl_commit_sha256 l)) (map snd (group_selection J b c))"
  unfolding verify_group_in_bundle_def Let_def
  by (simp add: case_prod_beta' comp_def split: prod.splits)

lemma group_report_parts:
  "gr_chain_valid (verify_group_in_bundle L J b c) \<longleftrightarrow>
     snd (snd (trust_anchor L (sth_verify L) b)) \<and> (\<forall>(i, leaf) \<in> set (group_selection J b c). leaf_included L b i)
     \<and> replay_leaves L (commit_to_entry J) (\<lambda>leaf. ''commit seq '' @ show_int (cl_seq leaf))
         (register_invariant vlog_new commit_TENANT (commit_check J)) (map snd (group_selection J b c)) = []"
  "map gc_epoch (gr_commits (verify_group_in_bundle L J b c)) = map (\<lambda>(i, leaf). cl_epoch leaf) (group_selection J b c)"
  "gr_found (verify_group_in_bundle L J b c) \<longleftrightarrow> group_selection J b c \<noteq> []"
  unfolding verify_group_in_bundle_def Let_def
  by (simp_all only: filter_not_included split: prod.splits) (auto simp: case_prod_beta comp_def)

lemma account_report_parts:
  "ap_chain_valid (verify_account_in_bundle L J b u) \<longleftrightarrow>
     snd (snd (trust_anchor L (\<lambda>s vk. verify_with_context L s vk account_STH_CONTEXT) b))
     \<and> (\<forall>(i, leaf) \<in> set (account_selection J b u). leaf_included L b i)
     \<and> replay_leaves L (account_to_entry J) key_describe
         (register_invariant vlog_new account_TENANT (account_check J)) (map snd (account_selection J b u)) = []"
  "map kv_identity_version (ap_keys (verify_account_in_bundle L J b u))
     = map (\<lambda>(i, leaf). al_identity_version leaf) (account_selection J b u)"
  unfolding verify_account_in_bundle_def Let_def
  by (simp_all only: filter_not_included split: prod.splits) (auto simp: case_prod_beta comp_def)

section \<open>Soundness of a positive verdict\<close>

lemma ascending_same_key:
  assumes "sorted_wrt (\<lambda>p c. key p = key c \<longrightarrow> ver p < ver c) xs" "\<forall>x \<in> set xs. key x = k"
  shows "sorted_wrt (<) (map ver xs)"
  using assms by (induction xs) auto

lemma codec_ok_selected:
  assumes "\<forall>e \<in> set es. \<forall>x. dec (data e) = Inr x \<longrightarrow> codec_ok enc dec [x]"
  shows "codec_ok enc dec (map snd (sort_key k (select_leaves t dec P es)))"
  unfolding codec_ok_def
proof
  fix x assume "x \<in> set (map snd (sort_key k (select_leaves t dec P es)))"
  then obtain i where "(i, x) \<in> set (select_leaves t dec P es)" by auto
  then have "i < length es" "dec (data (es ! i)) = Inr x" by (auto simp: select_leaves_set)
  with assms nth_mem have "codec_ok enc dec [x]" by blast
  then show "\<exists>b. enc x = Inr b \<and> dec b = Inr x" by (simp add: codec_ok_def)
qed

lemma group_sound:
  assumes "\<forall>e \<in> set (b_entries b). \<forall>leaf. commit_from_slice J (data e) = Inr leaf
      \<longrightarrow> codec_ok (commit_to_vec J) (commit_from_slice J) [leaf]"
    and "gr_chain_valid (verify_group_in_bundle L J b c)"
  shows "sorted_wrt (<) (map gc_epoch (gr_commits (verify_group_in_bundle L J b c)))"
proof -
  let ?xs = "map snd (group_selection J b c)" and ?start = "register_invariant vlog_new commit_TENANT (commit_check J)"
  obtain es where es: "map_res (commit_to_entry J) ?xs = Inr es" "\<forall>e \<in> set es. tenant e = commit_TENANT"
    "map_res (commit_parse J) es = Inr ?xs"
    using bind_res_to_entry [OF codec_ok_selected [OF assms(1)], of "commit_to_entry J" commit_TENANT "commit_parse J"
        "\<lambda>err. iv_new commit_TENANT (''malformed commit-log leaf: '' @ err)"]
    unfolding commit_to_entry_def commit_parse_def by blast
  have h: "commit_history J (tenant_entries commit_TENANT ?start)"
    by (simp add: registered_new commit_rule.rule.holds_Nil)
  have "replay_leaves L (commit_to_entry J) (\<lambda>leaf. ''commit seq '' @ show_int (cl_seq leaf)) ?start ?xs = []"
    using assms(2) unfolding group_report_parts(1) by blast
  then have "commit_history J es"
    using commit_rule.rule.replay_leaves_iff [OF registered_new(1) h es(1,2) ascending_prefix] by (simp add: registered_new)
  then have "sorted_wrt (\<lambda>p c. cl_conversation_id p = cl_conversation_id c \<longrightarrow> cl_epoch p < cl_epoch c) ?xs"
    by (simp add: ascending_parsed [OF es(3)])
  moreover have "\<forall>x \<in> set ?xs. cl_conversation_id x = c" by (auto simp: select_leaves_set)
  ultimately have "sorted_wrt (<) (map cl_epoch ?xs)" by (rule ascending_same_key)
  then show ?thesis unfolding group_report_parts(2) by (simp add: case_prod_beta' comp_def)
qed

lemma account_sound:
  assumes "\<forall>e \<in> set (b_entries b). \<forall>leaf. account_from_slice J (data e) = Inr leaf
      \<longrightarrow> codec_ok (account_to_vec J) (account_from_slice J) [leaf]"
    and "ap_chain_valid (verify_account_in_bundle L J b u)"
  shows "sorted_wrt (<) (map kv_identity_version (ap_keys (verify_account_in_bundle L J b u)))"
proof -
  let ?xs = "map snd (account_selection J b u)" and ?start = "register_invariant vlog_new account_TENANT (account_check J)"
  obtain es where es: "map_res (account_to_entry J) ?xs = Inr es" "\<forall>e \<in> set es. tenant e = account_TENANT"
    "map_res (account_parse J) es = Inr ?xs"
    using bind_res_to_entry [OF codec_ok_selected [OF assms(1)], of "account_to_entry J" account_TENANT "account_parse J"
        "\<lambda>err. iv_new account_TENANT (''malformed account-key leaf: '' @ err)"]
    unfolding account_to_entry_def account_parse_def by blast
  have h: "account_history J (tenant_entries account_TENANT ?start)"
    by (simp add: registered_new account_rule.rule.holds_Nil)
  have "replay_leaves L (account_to_entry J) key_describe ?start ?xs = []"
    using assms(2) unfolding account_report_parts(1) by blast
  then have "account_history J es"
    using account_rule.rule.replay_leaves_iff [OF registered_new(1) h es(1,2) ascending_prefix] by (simp add: registered_new)
  then have "sorted_wrt (\<lambda>p c. al_user_id p = al_user_id c \<longrightarrow> al_identity_version p < al_identity_version c) ?xs"
    by (simp add: ascending_parsed [OF es(3)])
  moreover have "\<forall>x \<in> set ?xs. al_user_id x = u" by (auto simp: select_leaves_set)
  ultimately have "sorted_wrt (<) (map al_identity_version ?xs)" by (rule ascending_same_key)
  then show ?thesis unfolding account_report_parts(2) by (simp add: case_prod_beta' comp_def)
qed

section \<open>The builder's bundles get a positive verdict\<close>

lemma latest_sealed_head:
  assumes "vlog_size log < 2 ^ 64"
  shows "latest_sth (sealed_heads L log key ts c) = Some (head_at L log key ts c (vlog_size log))"
proof (cases "vlog_size log \<ge> 2")
  case True
  have "(word_of_nat (vlog_size log div 2) :: u64) \<le> word_of_nat (vlog_size log)"
    using assms by (simp add: word_le_nat_alt unat_of_nat)
  with True show ?thesis by (simp add: latest_sth_def sealed_heads_def head_at_def)
qed (simp add: sealed_heads_def)

lemma map_of_rev_nth:
  assumes "i < length ps" "\<And>j. j < length ps \<Longrightarrow> k (ps ! j) = j"
  shows "map_of (rev (map (\<lambda>p. (k p, p)) ps)) i = Some (ps ! i)"
proof (rule map_of_is_SomeI)
  have "map fst (rev (map (\<lambda>p. (k p, p)) ps)) = rev (map k ps)" by (simp add: rev_map comp_def)
  moreover have "map k ps = [0..<length ps]" using assms(2) by (intro nth_equalityI) auto
  ultimately show "distinct (map fst (rev (map (\<lambda>p. (k p, p)) ps)))" by simp
  show "(i, ps ! i) \<in> set (rev (map (\<lambda>p. (k p, p)) ps))" using assms nth_mem by (fastforce simp: image_iff)
qed

lemma enumerate_select_snd:
  assumes "map_res (\<lambda>e. dec (data e)) es = Inr xs" "\<forall>e \<in> set es. tenant e = t"
  shows "map snd (List.map_filter (\<lambda>(i, e). if tenant e = t then (case dec (data e) of Inl _ \<Rightarrow> None
     | Inr leaf \<Rightarrow> if P leaf then Some (i, leaf) else None) else None) (List.enumerate n es)) = filter P xs"
  using assms
proof (induction es arbitrary: xs n)
  case (Cons e es)
  then obtain y ys where y: "dec (data e) = Inr y" "xs = y # ys" "map_res (\<lambda>e. dec (data e)) es = Inr ys"
    unfolding map_res_Cons_Inr by blast
  with Cons.IH [OF y(3)] Cons.prems(2) show ?case by (simp add: map_filter_simps)
qed (simp add: map_filter_simps)

lemma select_leaves_snd:
  assumes "map_res (\<lambda>e. dec (data e)) es = Inr xs" "\<forall>e \<in> set es. tenant e = t"
  shows "map snd (select_leaves t dec P es) = filter P xs"
  unfolding select_leaves_def using assms by (rule enumerate_select_snd)

lemma select_sorted:
  assumes "map_res (\<lambda>e. dec (data e)) es = Inr xs" "\<forall>e \<in> set es. tenant e = t" "sorted (map k xs)"
  shows "map snd (sort_key (\<lambda>(_, leaf). k leaf) (select_leaves t dec P es)) = filter P xs"
proof -
  have "sorted (map k (filter P xs))" using assms(3) by (rule sorted_filter)
  then have "sorted (map (\<lambda>(_, leaf). k leaf) (select_leaves t dec P es))"
    unfolding select_leaves_snd [OF assms(1,2), symmetric] by (simp add: comp_def case_prod_beta')
  then have "sort_key (\<lambda>(_, leaf). k leaf) (select_leaves t dec P es) = select_leaves t dec P es"
    by (rule sort_key_id_if_sorted)
  then show ?thesis using select_leaves_snd [OF assms(1,2)] by simp
qed

lemma sealed_leaf_included:
  assumes "lib_ok L" "vlog_inv L log" "vlog_size log < 2 ^ 64" "i < vlog_size log"
    and "b_sths b = sealed_heads L log key ts c" "b_entries b = vl_entries log"
    and proofs: "map_res (vlog_inclusion_proof L log) [0..<vlog_size log] = Inr (map ic_proof (b_inclusion b))"
  shows "leaf_included L b i"
proof -
  let ?n = "vlog_size log" and ?ps = "map ic_proof (b_inclusion b)"
  have len: "length (vl_leaves log) = ?n" using assms(2) by (simp add: vlog_inv_def vlog_size_def)
  have nth: "length ?ps = ?n" "\<And>j. j < ?n \<Longrightarrow> vlog_inclusion_proof L log j = Inr (?ps ! j)"
    using proofs unfolding map_res_Inr_iff by (auto simp: list_all2_conv_all_nth)
  have eq: "?ps ! j = \<lparr>ip_leaf_index = word_of_nat j, ip_tree_size = word_of_nat ?n,
      ip_audit_path = map (to_hex L) (inclusion_path (sha256 L) j (vl_leaves log))\<rparr>" if "j < ?n" for j
    using nth(2) [OF that] that len by (simp add: vlog_inclusion_proof_def Let_def)
  have fields: "unat (ip_leaf_index (?ps ! j)) = j" "ip_tree_size (?ps ! j) = word_of_nat ?n" if "j < ?n" for j
    using that assms(3) by (simp_all only: eq [OF that] inclusion_proof.simps) (simp add: unat_of_nat)
  note latest = latest_sealed_head [OF assms(3), of L key ts c, folded assms(5)]
  have "\<forall>p \<in> set ?ps. ip_tree_size p = word_of_nat ?n" using fields(2) nth(1) by (metis in_set_conv_nth)
  then have keep: "filter (\<lambda>c. case latest_sth (b_sths b) of None \<Rightarrow> False
      | Some s \<Rightarrow> ip_tree_size (ic_proof c) = sth_tree_size s) (b_inclusion b) = b_inclusion b"
    by (simp add: latest head_at_facts [OF assms(1,2)])
  have "map (\<lambda>c. (unat (ip_leaf_index (ic_proof c)), ic_proof c)) (b_inclusion b)
      = map (\<lambda>p. (unat (ip_leaf_index p), p)) ?ps" by simp
  then have "inclusion_by_index b i = Some (?ps ! i)"
    unfolding inclusion_by_index_def keep fold_map_upd
    using map_of_rev_nth [of i ?ps "\<lambda>p. unat (ip_leaf_index p)"] fields(1) nth(1) assms(4) by (simp add: comp_def)
  moreover obtain p where "vlog_inclusion_proof L log i = Inr p"
    "verify_inclusion_proof L (vl_entries log ! i) p (head_at L log key ts c ?n)"
    using entry_proof [OF assms(1-4)] by blast
  ultimately show ?thesis
    using nth(2) [OF assms(4)] assms(4) by (simp add: leaf_included_def latest assms(6) vlog_size_def)
qed

lemma built_group_valid:
  assumes "lib_ok L" "length rows < 2 ^ 64" "build_bundle L J rows key ts = Some (Inr b)"
    and "codec_ok (commit_to_vec J) (commit_from_slice J) (map commit_row_to_leaf rows)" "sorted (map cr_seq rows)"
  shows "gr_chain_valid (verify_group_in_bundle L J b c)"
    "map snd (group_selection J b c) = filter (\<lambda>l. cl_conversation_id l = c) (map commit_row_to_leaf rows)"
proof -
  let ?leaves = "map commit_row_to_leaf rows" and ?start = "register_invariant vlog_new commit_TENANT (commit_check J)"
  obtain log entries where a: "append_leaves L (commit_to_entry J) ?start ?leaves = Inr (log, entries)"
    using assms(3) build_with_succeeded unfolding build_bundle_def by blast
  have "length ?leaves < 2 ^ 64" using assms(2) by simp
  from build_with_ok [OF assms(1) this a, of key ts None] assms(3)
  have b: "b_public_key b = hex_encode L (ed_public L key)" "b_entries b = entries"
    "b_sths b = sealed_heads L log key ts None"
    "map_res (vlog_inclusion_proof L log) [0..<vlog_size log] = Inr (map ic_proof (b_inclusion b))"
    and log: "vlog_inv L log" "vl_entries log = entries" "vlog_size log < 2 ^ 64"
    unfolding build_bundle_def by (metis option.inject sum.inject(2))+
  obtain es where es: "map_res (commit_to_entry J) ?leaves = Inr es" "\<forall>e \<in> set es. tenant e = commit_TENANT"
    "map_res (commit_parse J) es = Inr ?leaves"
    using bind_res_to_entry [OF assms(4), of "commit_to_entry J" commit_TENANT "commit_parse J"
        "\<lambda>err. iv_new commit_TENANT (''malformed commit-log leaf: '' @ err)"]
    unfolding commit_to_entry_def commit_parse_def by blast
  have "es = entries" using append_leaves_Inr [OF a] es(1) by simp
  then have dec: "map_res (\<lambda>e. commit_from_slice J (data e)) (b_entries b) = Inr ?leaves"
    "\<forall>e \<in> set (b_entries b). tenant e = commit_TENANT"
    using es(2,3) b(2) by (simp_all add: map_res_Inr_iff commit_parse_def)
  have "sorted (map cl_seq ?leaves)" using assms(5) by (simp add: comp_def commit_row_to_leaf_def)
  from select_sorted [OF dec this]
  show sel: "map snd (group_selection J b c) = filter (\<lambda>l. cl_conversation_id l = c) ?leaves" .
  have "snd (snd (trust_anchor L (sth_verify L) b))"
    using assms(1) log(1,3) unfolding trust_anchor_ok
    by (simp add: b latest_sealed_head verifying_key_of_bundle sth_verify_def)
      (use head_at_facts(3) [OF assms(1) log(1), of key ts None] in \<open>simp add: context_of_def\<close>)
  moreover have "\<forall>(i, leaf) \<in> set (group_selection J b c). leaf_included L b i"
    using sealed_leaf_included [OF assms(1) log(1,3) _ b(3) _ b(4)] b(2) log(2)
    by (auto simp: select_leaves_set vlog_size_def)
  moreover have "replay_leaves L (commit_to_entry J) (\<lambda>leaf. ''commit seq '' @ show_int (cl_seq leaf)) ?start
      (map snd (group_selection J b c)) = []"
  proof -
    have h: "commit_history J (tenant_entries commit_TENANT ?start)"
      by (simp add: registered_new commit_rule.rule.holds_Nil)
    have "sorted_wrt (\<lambda>p c. cl_conversation_id p = cl_conversation_id c \<longrightarrow> cl_epoch p < cl_epoch c) ?leaves"
      using commit_build_outcome [OF assms(1,2,4), of key ts] assms(3) by (auto split: if_splits)
    then have asc: "sorted_wrt (\<lambda>p c. cl_conversation_id p = cl_conversation_id c \<longrightarrow> cl_epoch p < cl_epoch c)
      (map snd (group_selection J b c))" unfolding sel by (rule sorted_wrt_filter)
    have "codec_ok (commit_to_vec J) (commit_from_slice J) (map snd (group_selection J b c))"
      using assms(4) unfolding sel codec_ok_def by auto
    from bind_res_to_entry [OF this, of "commit_to_entry J" commit_TENANT "commit_parse J"
        "\<lambda>err. iv_new commit_TENANT (''malformed commit-log leaf: '' @ err)"]
    obtain fs where fs: "map_res (commit_to_entry J) (map snd (group_selection J b c)) = Inr fs"
      "\<forall>e \<in> set fs. tenant e = commit_TENANT" "map_res (commit_parse J) fs = Inr (map snd (group_selection J b c))"
      unfolding commit_to_entry_def commit_parse_def by blast
    show ?thesis
      using commit_rule.rule.replay_leaves_iff [OF registered_new(1) h fs(1,2) ascending_prefix] asc
      by (simp add: registered_new ascending_parsed [OF fs(3)])
  qed
  ultimately show "gr_chain_valid (verify_group_in_bundle L J b c)" unfolding group_report_parts(1) by blast
qed

section \<open>Properties of the verdicts\<close>


text \<open>The builder's bundles verify: from rows in sequence order whose leaves the codec handles, the verdict on
  every conversation is positive and reports exactly the conversation's commits, in order.\<close>

theorem built_bundle_groups_valid:
  assumes "lib_ok L" "length rows < 2 ^ 64" "build_bundle L J rows key ts = Some (Inr b)"
    and "codec_ok (commit_to_vec J) (commit_from_slice J) (map commit_row_to_leaf rows)" "sorted (map cr_seq rows)"
  shows "gr_chain_valid (verify_group_in_bundle L J b conversation_id)
    \<and> map (\<lambda>x. (gc_epoch x, gc_seq x, gc_commit_sha256 x)) (gr_commits (verify_group_in_bundle L J b conversation_id))
      = map (\<lambda>l. (cl_epoch l, cl_seq l, cl_commit_sha256 l))
          (filter (\<lambda>l. cl_conversation_id l = conversation_id) (map commit_row_to_leaf rows))"
  unfolding group_report_commits built_group_valid(2) [OF assms]
  using built_group_valid(1) [OF assms] by blast

lemma ucast_byte_u64: "ucast (ucast (x :: byte) :: u64) = x"
  by (rule bit_word_eqI) (simp add: bit_simps)

lemma demo_built:
  obtains b where "build_bundle demo_lib demo_json [demo_row 1 0, demo_row 2 1] [7] 5 = Some (Inr b)"
    "codec_ok (commit_to_vec demo_json) (commit_from_slice demo_json) (map commit_row_to_leaf [demo_row 1 0, demo_row 2 1])"
    "sorted (map cr_seq [demo_row 1 0, demo_row 2 1])"
    "\<forall>e \<in> set (b_entries b). \<forall>leaf. commit_from_slice demo_json (data e) = Inr leaf
      \<longrightarrow> codec_ok (commit_to_vec demo_json) (commit_from_slice demo_json) [leaf]"
proof -
  have c: "codec_ok (commit_to_vec demo_json) (commit_from_slice demo_json) (map commit_row_to_leaf [demo_row 1 0, demo_row 2 1])"
    using demo_codec_ok by (simp add: demo_row_leaf)
  have n: "length [demo_row 1 0, demo_row 2 1] < 2 ^ 64" by simp
  obtain b where b: "build_bundle demo_lib demo_json [demo_row 1 0, demo_row 2 1] [7] 5 = Some (Inr b)"
    using commit_build_outcome [OF lib_ok_demo n c, of "[7]" 5]
    by (simp add: demo_row_leaf) (auto simp: demo_commit_def)
  have "codec_ok (commit_to_vec demo_json) (commit_from_slice demo_json) [leaf]"
    if "commit_from_slice demo_json d = Inr leaf" for d leaf
    using that by (auto simp: codec_ok_def demo_json_def demo_commit_def ucast_byte_u64 split: list.splits)
  with b c show thesis using that by (simp add: demo_row_def)
qed


theorem built_bundle_groups_valid_witness:
  "\<exists>b. build_bundle demo_lib demo_json [demo_row 1 0, demo_row 2 1] [7] 5 = Some (Inr b)
     \<and> gr_chain_valid (verify_group_in_bundle demo_lib demo_json b [char_of_byte 97])
     \<and> length (gr_commits (verify_group_in_bundle demo_lib demo_json b [char_of_byte 97])) = 2"
proof -
  obtain b where b: "build_bundle demo_lib demo_json [demo_row 1 0, demo_row 2 1] [7] 5 = Some (Inr b)"
    "codec_ok (commit_to_vec demo_json) (commit_from_slice demo_json) (map commit_row_to_leaf [demo_row 1 0, demo_row 2 1])"
    "sorted (map cr_seq [demo_row 1 0, demo_row 2 1])" by (rule demo_built)
  have n: "length [demo_row 1 0, demo_row 2 1] < 2 ^ 64" by simp
  from built_bundle_groups_valid [OF lib_ok_demo n b(1-3), of "[char_of_byte 97]"] b(1)
  show ?thesis by (auto simp: demo_row_leaf demo_commit_def dest!: arg_cong [where f = length])
qed

section \<open>The same verdict over a site\<close>

text \<open>A site serves a bundle under a prefix: the key, the newest head, the entries, and for each index the proof
  under the newest head, or an error if the bundle has none.\<close>

definition serves :: "site \<Rightarrow> string \<Rightarrow> log_bundle \<Rightarrow> sth \<Rightarrow> bool" where
  "serves st prefix b s \<longleftrightarrow> latest_sth (b_sths b) = Some s
     \<and> fetch_public_key st (prefix @ ''/public_key.json'') = Inr (b_public_key b)
     \<and> fetch_sth st (prefix @ ''/sth/latest.json'') = Inr s
     \<and> fetch_entries st (prefix @ ''/entries.json'') = Inr (b_entries b)
     \<and> (\<forall>i < length (b_entries b). case inclusion_by_index b i of
          Some p \<Rightarrow> fetch_inclusion st (prefix @ ''/proof/inclusion/'' @ show_u64 (sth_tree_size s) @ ''/'' @ show_nat i @ ''.json'') = Inr p
        | None \<Rightarrow> \<exists>e. fetch_inclusion st (prefix @ ''/proof/inclusion/'' @ show_u64 (sth_tree_size s) @ ''/'' @ show_nat i @ ''.json'') = Inl e)"

lemma map_of_map_filter_key:
  assumes "\<And>j x. j \<in> set js \<Longrightarrow> g j = Some x \<Longrightarrow> k x = j" "i \<in> set js"
  shows "map_of (rev (map (\<lambda>x. (k x, v x)) (List.map_filter g js))) i = map_option v (g i)"
proof (cases "g i")
  case None
  have "i \<notin> set (map k (List.map_filter g js))" using assms(1) None by (auto simp: mem_map_filter)
  then have "i \<notin> fst ` set (rev (map (\<lambda>x. (k x, v x)) (List.map_filter g js)))" by force
  with None show ?thesis by (simp add: map_of_eq_None_iff)
next
  case (Some x)
  have "k x = i" "x \<in> set (List.map_filter g js)" using assms Some by (auto simp: mem_map_filter)
  then have mem: "(i, v x) \<in> set (rev (map (\<lambda>x. (k x, v x)) (List.map_filter g js)))" by force
  then obtain w where w: "map_of (rev (map (\<lambda>x. (k x, v x)) (List.map_filter g js))) i = Some w"
    by (metis map_of_eq_None_iff imageI fst_conv not_None_eq)
  then obtain y where "y \<in> set (List.map_filter g js)" "k y = i" "v y = w" by (auto dest!: map_of_SomeD)
  then have "w = v x" using assms(1) Some by (auto simp: mem_map_filter)
  with w Some show ?thesis by simp
qed

lemma fetched_leaf_included:
  assumes "serves st prefix b s" "i \<in> set indices" "\<forall>j \<in> set indices. j < length (b_entries b)"
  shows "leaf_included L (fetched_bundle st prefix t (b_public_key b) s (b_entries b) indices) i = leaf_included L b i"
proof -
  let ?b = "fetched_bundle st prefix t (b_public_key b) s (b_entries b) indices"
  let ?url = "\<lambda>i. prefix @ ''/proof/inclusion/'' @ show_u64 (sth_tree_size s) @ ''/'' @ show_nat i @ ''.json''"
  let ?g = "\<lambda>i. case fetch_inclusion st (?url i) of Inl _ \<Rightarrow> None
    | Inr p \<Rightarrow> if i < length (b_entries b) then Some \<lparr>ic_entry = b_entries b ! i, ic_proof = p, ic_sth_index = 0\<rparr> else None"
  have latest: "latest_sth (b_sths b) = Some s" "latest_sth (b_sths ?b) = Some s"
    using assms(1) by (simp_all add: serves_def fetched_bundle_def)
  have g: "map_option ic_proof (?g j) = inclusion_by_index b j" if "j < length (b_entries b)" for j
    using assms(1) that unfolding serves_def by (auto split: option.splits)
  have key: "unat (ip_leaf_index (ic_proof x)) = j \<and> ip_tree_size (ic_proof x) = sth_tree_size s"
    if "j \<in> set indices" "?g j = Some x" for j x
  proof -
    have "inclusion_by_index b j = Some (ic_proof x)" using g [of j] that assms(3) by auto
    from inclusion_by_index_Some [OF this] latest(1) show ?thesis by auto
  qed
  have "filter (\<lambda>c. ip_tree_size (ic_proof c) = sth_tree_size s) (List.map_filter ?g indices) = List.map_filter ?g indices"
    using key by (auto simp: filter_id_conv mem_map_filter)
  then have "inclusion_by_index ?b i
      = map_of (rev (map (\<lambda>c. (unat (ip_leaf_index (ic_proof c)), ic_proof c)) (List.map_filter ?g indices))) i"
    unfolding inclusion_by_index_def latest fold_map_upd by (simp add: fetched_bundle_def)
  also have "\<dots> = map_option ic_proof (?g i)"
    using key assms(2) by (intro map_of_map_filter_key) auto
  also have "\<dots> = inclusion_by_index b i" using g assms(2,3) by blast
  finally have eq: "inclusion_by_index ?b i = inclusion_by_index b i" .
  have ents: "b_entries ?b = b_entries b" by (simp add: fetched_bundle_def)
  show ?thesis unfolding leaf_included_def latest ents eq ..
qed

lemma trust_anchor_cong:
  "latest_sth (b_sths b) = latest_sth (b_sths b') \<Longrightarrow> b_public_key b = b_public_key b' \<Longrightarrow>
   trust_anchor L V b = trust_anchor L V b'"
  by (simp add: trust_anchor_def)

lemma group_report_cong:
  assumes "latest_sth (b_sths b) = latest_sth (b_sths b')" "b_public_key b = b_public_key b'" "b_entries b = b_entries b'"
    and "\<And>i x. (i, x) \<in> set (select_leaves commit_TENANT (commit_from_slice J) (\<lambda>leaf. cl_conversation_id leaf = c) (b_entries b'))
      \<Longrightarrow> leaf_included L b i = leaf_included L b' i"
  shows "verify_group_in_bundle L J b c = verify_group_in_bundle L J b' c"
proof -
  have inc: "(i, x) \<in> set (group_selection J b' c) \<Longrightarrow> leaf_included L b i = leaf_included L b' i" for i x
    using assms(4) by simp
  have f: "filter (\<lambda>(i, leaf). \<not> leaf_included L b i) (group_selection J b' c)
      = filter (\<lambda>(i, leaf). \<not> leaf_included L b' i) (group_selection J b' c)"
    by (rule filter_cong [OF refl]) (use inc in auto)
  have m: "map (\<lambda>(i, leaf). \<lparr>gc_epoch = cl_epoch leaf, gc_seq = cl_seq leaf, gc_sender_id = cl_sender_id leaf,
        gc_commit_sha256 = cl_commit_sha256 leaf, gc_included = leaf_included L b i\<rparr>) (group_selection J b' c)
      = map (\<lambda>(i, leaf). \<lparr>gc_epoch = cl_epoch leaf, gc_seq = cl_seq leaf, gc_sender_id = cl_sender_id leaf,
        gc_commit_sha256 = cl_commit_sha256 leaf, gc_included = leaf_included L b' i\<rparr>) (group_selection J b' c)"
    by (rule map_cong [OF refl]) (use inc in auto)
  show ?thesis
    unfolding verify_group_in_bundle_def Let_def trust_anchor_cong [OF assms(1,2)] assms(3) by (simp only: f m)
qed

lemma account_report_cong:
  assumes "latest_sth (b_sths b) = latest_sth (b_sths b')" "b_public_key b = b_public_key b'" "b_entries b = b_entries b'"
    and "\<And>i x. (i, x) \<in> set (select_leaves account_TENANT (account_from_slice J) (\<lambda>leaf. al_user_id leaf = u) (b_entries b'))
      \<Longrightarrow> leaf_included L b i = leaf_included L b' i"
  shows "verify_account_in_bundle L J b u = verify_account_in_bundle L J b' u"
proof -
  have inc: "(i, x) \<in> set (account_selection J b' u) \<Longrightarrow> leaf_included L b i = leaf_included L b' i" for i x
    using assms(4) by simp
  have f: "filter (\<lambda>(i, leaf). \<not> leaf_included L b i) (account_selection J b' u)
      = filter (\<lambda>(i, leaf). \<not> leaf_included L b' i) (account_selection J b' u)"
    by (rule filter_cong [OF refl]) (use inc in auto)
  have m: "map (\<lambda>(i, leaf). \<lparr>kv_identity_version = al_identity_version leaf, kv_seq = al_seq leaf,
        kv_account_id_pub = al_account_id_pub leaf, kv_included = leaf_included L b i\<rparr>) (account_selection J b' u)
      = map (\<lambda>(i, leaf). \<lparr>kv_identity_version = al_identity_version leaf, kv_seq = al_seq leaf,
        kv_account_id_pub = al_account_id_pub leaf, kv_included = leaf_included L b' i\<rparr>) (account_selection J b' u)"
    by (rule map_cong [OF refl]) (use inc in auto)
  show ?thesis
    unfolding verify_account_in_bundle_def Let_def trust_anchor_cong [OF assms(1,2)] assms(3) by (simp only: f m)
qed

lemma serves_fetched:
  assumes "serves st prefix b s"
  shows "latest_sth (b_sths (fetched_bundle st prefix t (b_public_key b) s (b_entries b) is)) = latest_sth (b_sths b)"
    "b_public_key (fetched_bundle st prefix t (b_public_key b) s (b_entries b) is) = b_public_key b"
    "b_entries (fetched_bundle st prefix t (b_public_key b) s (b_entries b) is) = b_entries b"
  using assms by (simp_all add: fetched_bundle_def serves_def)

lemma selected_index: "j \<in> set (map fst (select_leaves t dec P es)) \<Longrightarrow> j < length es"
  by (auto simp: select_leaves_set)

text \<open>The verdict does not depend on how the bundle was obtained: over a site that serves a bundle, the URL-based
  checks of a conversation and of a user return exactly the report computed from the bundle in memory.\<close>

theorem verdict_same_over_site:
  assumes "connect proxy = Inr st"
  shows "(serves st (trim_end_slashes base @ ''/v1'') b s
      \<longrightarrow> verify_group_via L J connect base c proxy = Inr (verify_group_in_bundle L J b c))
    \<and> (serves st (trim_end_slashes base @ ''/v1/account-keys'') b s
      \<longrightarrow> verify_account_via L J connect base u proxy = Inr (verify_account_in_bundle L J b u))"
proof (intro conjI impI)
  let ?p = "trim_end_slashes base @ ''/v1''"
  assume sv: "serves st ?p b s"
  let ?sel = "select_leaves commit_TENANT (commit_from_slice J) (\<lambda>leaf. cl_conversation_id leaf = c) (b_entries b)"
  have "verify_group_in_bundle L J (fetched_bundle st ?p commit_TENANT (b_public_key b) s (b_entries b) (map fst ?sel)) c
      = verify_group_in_bundle L J b c"
  proof (rule group_report_cong [OF serves_fetched [OF sv]])
    fix i x assume "(i, x) \<in> set ?sel"
    then have "i \<in> set (map fst ?sel)" by force
    with sv show "leaf_included L (fetched_bundle st ?p commit_TENANT (b_public_key b) s (b_entries b) (map fst ?sel)) i
      = leaf_included L b i" by (rule fetched_leaf_included) (use selected_index in blast)
  qed
  with sv assms show "verify_group_via L J connect base c proxy = Inr (verify_group_in_bundle L J b c)"
    by (simp add: verify_group_via_def serves_def)
next
  let ?p = "trim_end_slashes base @ ''/v1/account-keys''"
  assume sv: "serves st ?p b s"
  let ?sel = "select_leaves account_TENANT (account_from_slice J) (\<lambda>leaf. al_user_id leaf = u) (b_entries b)"
  have "verify_account_in_bundle L J (fetched_bundle st ?p account_TENANT (b_public_key b) s (b_entries b) (map fst ?sel)) u
      = verify_account_in_bundle L J b u"
  proof (rule account_report_cong [OF serves_fetched [OF sv]])
    fix i x assume "(i, x) \<in> set ?sel"
    then have "i \<in> set (map fst ?sel)" by force
    with sv show "leaf_included L (fetched_bundle st ?p account_TENANT (b_public_key b) s (b_entries b) (map fst ?sel)) i
      = leaf_included L b i" by (rule fetched_leaf_included) (use selected_index in blast)
  qed
  with sv assms show "verify_account_via L J connect base u proxy = Inr (verify_account_in_bundle L J b u)"
    by (simp add: verify_account_via_def serves_def)
qed

definition demo_bundle :: log_bundle where
  "demo_bundle = \<lparr>b_public_key = ''k'', b_sths = [signed_tree_head demo_lib demo_log1 [7] 5], b_entries = [demo_entry],
     b_enforce_unique = [], b_inclusion = [], b_consistency = []\<rparr>"

definition demo_site :: site where
  "demo_site = \<lparr>fetch_public_key = (\<lambda>_. Inr ''k''), fetch_sth = (\<lambda>_. Inr (signed_tree_head demo_lib demo_log1 [7] 5)),
     fetch_entries = (\<lambda>_. Inr [demo_entry]), fetch_entry = (\<lambda>_. Inr demo_entry), fetch_inclusion = (\<lambda>_. Inl (Http [])),
     fetch_consistency = (\<lambda>_. Inl (Http [])), fetch_manifest = (\<lambda>_. Inl (Http [])), fetch_manifest_opt = (\<lambda>_. Inr None)\<rparr>"

theorem verdict_same_over_site_witness:
  "serves demo_site (trim_end_slashes ''h/'' @ ''/v1'') demo_bundle (signed_tree_head demo_lib demo_log1 [7] 5)
   \<and> verify_group_via demo_lib demo_json (\<lambda>_. Inr demo_site) ''h/'' ''c'' None
       = Inr (verify_group_in_bundle demo_lib demo_json demo_bundle ''c'')"
proof -
  have "serves demo_site (trim_end_slashes ''h/'' @ ''/v1'') demo_bundle (signed_tree_head demo_lib demo_log1 [7] 5)"
    by (simp add: serves_def demo_site_def demo_bundle_def inclusion_by_index_def)
  then show ?thesis
    using verdict_same_over_site [of "\<lambda>_. Inr demo_site" None demo_site "''h/''" demo_bundle
        "signed_tree_head demo_lib demo_log1 [7] 5" demo_lib demo_json "''c''" "''u''"] by blast
qed

end
