(* ===== verification/Vlog_Remote.thy ===== *)
theory Vlog_Remote
  imports Vlog_Verdict
begin

text \<open>The remote audit of \<open>verifiable-log-serve/src/remote.rs\<close>: it walks the manifest of each of the three trees
  and folds every check into one report. The three tree walks of the source share their steps up to the
  prefix, the labels, the signing context and the tenant rule; the steps are defined once, with these as
  arguments.\<close>

section \<open>Reports\<close>

record report =
  rep_ok :: bool
  rep_checks :: "(bool \<times> string) list"
  rep_notes :: "string list"

definition report_new :: report where
  "report_new = \<lparr>rep_ok = True, rep_checks = [], rep_notes = []\<rparr>"

definition report_check :: "bool \<Rightarrow> string \<Rightarrow> report \<Rightarrow> report" where
  "report_check passed label r = r\<lparr>rep_ok := (if \<not> passed then False else rep_ok r),
     rep_checks := rep_checks r @ [(passed, label)]\<rparr>"

definition report_note :: "string \<Rightarrow> report \<Rightarrow> report" where
  "report_note msg r = r\<lparr>rep_notes := rep_notes r @ [msg]\<rparr>"

fun show_builder_error :: "builder_error \<Rightarrow> string" where
  "show_builder_error (Db e) = ''database error: '' @ e"
| "show_builder_error (Log e) = ''verifiable-log error: '' @ show_vl_error e"
| "show_builder_error (BuilderInvariant v) =
     ''tenant invariant violated: tenant `'' @ iv_tenant v @ ''` invariant violated: '' @ iv_message v"
| "show_builder_error (Encode e) = ''leaf encoding error: '' @ e"
| "show_builder_error (Io e) = ''io error: '' @ e"
| "show_builder_error (SigningKey e) = ''invalid signing key: '' @ e"
| "show_builder_error NoDbSource = ''no database source: pass --db <url-or-path> or set TURSO_DATABASE_URL''"
| "show_builder_error EmptyCommitLog = ''commit log is empty: nothing to build a bundle from (db connected OK)''"
| "show_builder_error EmptyAccountKeyLog = ''account-key log is empty: nothing to build a bundle from (db connected OK)''"
| "show_builder_error (NoSigningKey v) = ''no signing key: set env `'' @ v @ ''` to 32-byte hex, or pass --signing-key-file <path>. Refusing to invent a key. Use `builder keygen` to mint a throwaway dev key.''"

fun show_serve_error :: "serve_error \<Rightarrow> string" where
  "show_serve_error (ServeIo e) = ''io error: '' @ e"
| "show_serve_error (ServeJson e) = ''json error: '' @ e"
| "show_serve_error (ServeLog e) = ''verifiable-log error: '' @ show_vl_error e"
| "show_serve_error (Http e) = ''http error: '' @ e"
| "show_serve_error (BadBundle e) = ''malformed bundle: '' @ e"
| "show_serve_error (Config e) = ''configuration error: '' @ e"
| "show_serve_error (ServeBuilder e) = ''builder error: '' @ show_builder_error e"

text \<open>A \<open>BTreeMap\<close> as the list of its pairs in key order.\<close>

fun btree_insert :: "'k::linorder \<Rightarrow> 'v \<Rightarrow> ('k \<times> 'v) list \<Rightarrow> ('k \<times> 'v) list" where
  "btree_insert k v [] = [(k, v)]"
| "btree_insert k v ((k', v') # m) =
     (if k < k' then (k, v) # (k', v') # m else if k = k' then (k, v) # m else (k', v') # btree_insert k v m)"

section \<open>The steps of a tree walk\<close>

text \<open>Step 1: every advertised head.\<close>

definition check_head :: "site \<Rightarrow> string \<Rightarrow> string \<Rightarrow> string \<Rightarrow> (sth \<Rightarrow> bool) \<Rightarrow> u64
    \<Rightarrow> report \<times> (u64 \<times> sth) list \<Rightarrow> report \<times> (u64 \<times> sth) list" where
  "check_head st prefix lbl ctxt verifies sz = (\<lambda>(r, sths).
     case fetch_sth st (prefix @ ''/sth/'' @ show_u64 sz @ ''.json'') of
       Inr s \<Rightarrow> (report_check (verifies s) (lbl @ ''STH['' @ show_u64 sz @ ''] signature'' @ ctxt)
           (report_check (sth_tree_size s = sz) (lbl @ ''STH['' @ show_u64 sz @ ''] tree_size matches its URL'') r),
         btree_insert sz s sths)
     | Inl e \<Rightarrow> (report_check False (lbl @ ''fetch STH['' @ show_u64 sz @ '']: '' @ show_serve_error e) r, sths))"

definition check_latest :: "site \<Rightarrow> string \<Rightarrow> string \<Rightarrow> string \<Rightarrow> (sth \<Rightarrow> bool) \<Rightarrow> u64 option \<Rightarrow> (u64 \<times> sth) list
    \<Rightarrow> report \<Rightarrow> report" where
  "check_latest st prefix lbl ctxt verifies latest_tree_size sths r =
     (case latest_tree_size of
        None \<Rightarrow> r
      | Some max_size \<Rightarrow>
          (case fetch_sth st (prefix @ ''/sth/latest.json'') of
             Inr latest \<Rightarrow>
               report_check (verifies latest) (lbl @ ''latest.json signature'' @ ctxt)
                 (report_check (sth_tree_size latest = max_size \<and> map_of sths max_size = Some latest)
                   (lbl @ ''latest.json matches the newest STH'') r)
           | Inl e \<Rightarrow> report_check False (lbl @ ''fetch latest.json: '' @ show_serve_error e) r))"

text \<open>Step 2: every pair of collected heads.\<close>

definition check_equivocation :: "string \<Rightarrow> sth list \<Rightarrow> report \<Rightarrow> report" where
  "check_equivocation lbl collected r =
     fold (\<lambda>(i, j). report_check (\<not> is_equivocation (collected ! i) (collected ! j))
         (lbl @ ''no equivocation between size '' @ show_u64 (sth_tree_size (collected ! i)) @ '' and size ''
           @ show_u64 (sth_tree_size (collected ! j))))
       (concat (map (\<lambda>i. map (Pair i) [i + 1..<length collected]) [0..<length collected])) r"

text \<open>Step 3: the entries, the per-entry files, the replay and the roots.\<close>

definition fetch_entry_list :: "site \<Rightarrow> string \<Rightarrow> string \<Rightarrow> report \<Rightarrow> entry list \<times> report" where
  "fetch_entry_list st prefix lbl r = (case fetch_entries st (prefix @ ''/entries.json'') of
       Inr es \<Rightarrow> (es, r)
     | Inl e \<Rightarrow> ([], report_check False (lbl @ ''fetch entries.json: '' @ show_serve_error e) r))"

definition per_entry_ok :: "site \<Rightarrow> string \<Rightarrow> entry list \<Rightarrow> bool" where
  "per_entry_ok st prefix es = list_all (\<lambda>(i, e).
     case fetch_entry st (prefix @ ''/entries/'' @ show_nat i @ ''.json'') of Inr per \<Rightarrow> per = e | Inl _ \<Rightarrow> False)
     (List.enumerate 0 es)"

definition check_entries :: "site \<Rightarrow> string \<Rightarrow> string \<Rightarrow> u64 \<Rightarrow> entry list \<Rightarrow> report \<Rightarrow> report" where
  "check_entries st prefix lbl entry_count es r =
     (let r1 = report_check (word_of_nat (length es) = entry_count) (lbl @ ''entries.json count matches manifest'') r
      in if es = [] then r1
         else report_check (per_entry_ok st prefix es) (lbl @ ''per-entry files match entries.json'') r1)"

definition check_replay :: "lib \<Rightarrow> string \<Rightarrow> string \<Rightarrow> vlog \<Rightarrow> (u64 \<times> sth) list \<Rightarrow> entry list \<Rightarrow> report \<Rightarrow> report" where
  "check_replay L lbl rule_label start sths es r =
     (if es = [] then r
      else let (errs, log) = replay_all L start es;
               replay_ok = (errs = []);
               r1 = report_check replay_ok (lbl @ rule_label) r
           in if replay_ok
              then fold (\<lambda>(sz, s). report_check
                  (case vlog_root_at L log (unat sz) of
                     Inr root \<Rightarrow> (case root_bytes L s of Inr h \<Rightarrow> h = root | Inl _ \<Rightarrow> False)
                   | Inl _ \<Rightarrow> False)
                  (lbl @ ''STH['' @ show_u64 sz @ ''] root matches replayed entries'')) sths r1
              else r1)"

text \<open>Steps 4 and 5: the advertised proofs.\<close>

definition check_inclusions :: "lib \<Rightarrow> site \<Rightarrow> string \<Rightarrow> string \<Rightarrow> (u64 \<times> sth) list \<Rightarrow> entry list \<Rightarrow> inclusion_ref list
    \<Rightarrow> report \<Rightarrow> report" where
  "check_inclusions L st prefix lbl sths es refs =
     fold (\<lambda>ref. report_check
       (case fetch_inclusion st (prefix @ ''/proof/inclusion/'' @ show_u64 (ir_tree_size ref) @ ''/''
               @ show_u64 (ir_leaf_index ref) @ ''.json'') of
          Inl _ \<Rightarrow> False
        | Inr p \<Rightarrow> (case map_of sths (ir_tree_size ref) of
              Some s \<Rightarrow> (if unat (ir_leaf_index ref) < length es
                then verify_inclusion_proof L (es ! unat (ir_leaf_index ref)) p s else False)
            | None \<Rightarrow> False))
       (lbl @ ''inclusion: leaf '' @ show_u64 (ir_leaf_index ref) @ '' in size '' @ show_u64 (ir_tree_size ref))) refs"

definition check_consistencies :: "lib \<Rightarrow> site \<Rightarrow> string \<Rightarrow> string \<Rightarrow> (u64 \<times> sth) list \<Rightarrow> consistency_ref list
    \<Rightarrow> report \<Rightarrow> report" where
  "check_consistencies L st prefix lbl sths refs =
     fold (\<lambda>ref. report_check
       (case fetch_consistency st (prefix @ ''/proof/consistency/'' @ show_u64 (kr_first ref) @ ''-''
               @ show_u64 (kr_second ref) @ ''.json'') of
          Inl _ \<Rightarrow> False
        | Inr p \<Rightarrow> (case (map_of sths (kr_first ref), map_of sths (kr_second ref)) of
              (Some old, Some new) \<Rightarrow> verify_consistency_proof L old new p
            | _ \<Rightarrow> False))
       (lbl @ ''consistency: size '' @ show_u64 (kr_first ref) @ '' -> size '' @ show_u64 (kr_second ref))) refs"

definition walk_tree :: "lib \<Rightarrow> site \<Rightarrow> string \<Rightarrow> string \<Rightarrow> string \<Rightarrow> string \<Rightarrow> (sth \<Rightarrow> bool) \<Rightarrow> vlog \<Rightarrow> manifest
    \<Rightarrow> report \<Rightarrow> report" where
  "walk_tree L st prefix lbl ctxt rule_label verifies start mf r =
     (let (r1, sths) = fold (check_head st prefix lbl ctxt verifies) (mf_sth_sizes mf) (r, []);
          r2 = check_latest st prefix lbl ctxt verifies (mf_latest_tree_size mf) sths r1;
          r3 = check_equivocation lbl (map snd sths) r2;
          (es, r4) = fetch_entry_list st prefix lbl r3;
          r5 = check_entries st prefix lbl (mf_entry_count mf) es r4;
          r6 = check_replay L lbl rule_label start sths es r5;
          r7 = check_inclusions L st prefix lbl sths es (mf_inclusion mf) r6
      in check_consistencies L st prefix lbl sths (mf_consistency mf) r7)"

section \<open>The three trees\<close>

definition verify_optional_tree :: "lib \<Rightarrow> site \<Rightarrow> string \<Rightarrow> string \<Rightarrow> string \<Rightarrow> string \<Rightarrow> string \<Rightarrow> bytes \<Rightarrow> vlog
    \<Rightarrow> report \<Rightarrow> report" where
  "verify_optional_tree L st prefix lbl ctxt absent rule_label sth_context start r =
     (case fetch_manifest_opt st (prefix @ ''/index.json'') of
        Inr None \<Rightarrow> report_note absent r
      | Inl e \<Rightarrow> report_check False (lbl @ ''fetch index.json: '' @ show_serve_error e) r
      | Inr (Some mf) \<Rightarrow>
          (case fetch_public_key st (prefix @ ''/public_key.json'') of
             Inl e \<Rightarrow> report_check False (lbl @ ''fetch public_key.json: '' @ show_serve_error e) r
           | Inr pk \<Rightarrow> (case verifying_key_from_hex L pk of
               Inl e \<Rightarrow> report_check False (lbl @ ''public key parses: '' @ show_vl_error e) r
             | Inr vk \<Rightarrow> walk_tree L st prefix lbl ctxt rule_label (\<lambda>s. verify_with_context L s vk sth_context) start mf r)))"

definition verify_account_tree :: "lib \<Rightarrow> json \<Rightarrow> site \<Rightarrow> string \<Rightarrow> report \<Rightarrow> report" where
  "verify_account_tree L J st base =
     verify_optional_tree L st (base @ ''/v1/account-keys'') ''account-keys: '' '' (account context)''
       (''account-keys tree not published (absent) '' @ em_dash @ '' skipping account-tree checks'')
       ''all entries satisfy the account invariant'' account_STH_CONTEXT
       (register_invariant vlog_new account_TENANT (account_check J))"

definition verify_binaries_tree :: "lib \<Rightarrow> json \<Rightarrow> site \<Rightarrow> string \<Rightarrow> report \<Rightarrow> report" where
  "verify_binaries_tree L J st base =
     verify_optional_tree L st (base @ ''/v1/binaries'') ''binaries: '' '' (binaries context)''
       (''binaries tree not published (absent) '' @ em_dash @ '' skipping binaries-tree checks'')
       ''all entries satisfy the binary invariant'' binaries_STH_CONTEXT
       (register_invariant vlog_new binaries_TENANT (binary_check J))"

definition verify_remote :: "lib \<Rightarrow> json \<Rightarrow> (string option \<Rightarrow> serve_error + site) \<Rightarrow> string \<Rightarrow> serve_error + report" where
  "verify_remote L J connect base_url =
     (let base = trim_end_slashes base_url; prefix = base @ ''/v1'' in
      bind_res (connect None) (\<lambda>st.
      bind_res (fetch_public_key st (prefix @ ''/public_key.json'')) (\<lambda>pk.
      bind_res (map_err ServeLog (verifying_key_from_hex L pk)) (\<lambda>vk.
      bind_res (fetch_manifest st (prefix @ ''/index.json'')) (\<lambda>mf.
        Inr (verify_binaries_tree L J st base (verify_account_tree L J st base
          (walk_tree L st prefix [] [] ''all entries satisfy tenant invariants'' (\<lambda>s. sth_verify L s vk)
            (fold (\<lambda>t log. register_invariant log t unique_data_check) (mf_enforce_unique mf) vlog_new)
            mf report_new))))))))"

section \<open>Lemmas on reports and steps\<close>

lemma rep_ok_new [simp]: "rep_ok report_new" by (simp add: report_new_def)

lemma rep_ok_check [simp]: "rep_ok (report_check p l r) \<longleftrightarrow> p \<and> rep_ok r"
  by (simp add: report_check_def)

lemma rep_ok_note [simp]: "rep_ok (report_note m r) = rep_ok r"
  by (simp add: report_note_def)

lemma rep_ok_fold: "rep_ok (fold (\<lambda>x. report_check (P x) (l x)) xs r) \<longleftrightarrow> (\<forall>x \<in> set xs. P x) \<and> rep_ok r"
  by (induction xs arbitrary: r) auto

lemma rep_ok_fold_pairs:
  "rep_ok (fold (\<lambda>(a, b). report_check (P a b) (l a b)) xs r) \<longleftrightarrow> (\<forall>(a, b) \<in> set xs. P a b) \<and> rep_ok r"
  by (induction xs arbitrary: r) auto

text \<open>\<open>ok\<close> is the conjunction of all checks.\<close>

definition report_inv :: "report \<Rightarrow> bool" where
  "report_inv r \<longleftrightarrow> (rep_ok r \<longleftrightarrow> (\<forall>(p, l) \<in> set (rep_checks r). p))"

lemma report_inv_new: "report_inv report_new" by (simp add: report_inv_def report_new_def)

lemma report_inv_check: "report_inv r \<Longrightarrow> report_inv (report_check p l r)"
  by (auto simp: report_inv_def report_check_def)

lemma report_inv_note: "report_inv r \<Longrightarrow> report_inv (report_note m r)"
  by (simp add: report_inv_def report_note_def)

lemma report_inv_fold: "(\<And>x r. report_inv r \<Longrightarrow> report_inv (f x r)) \<Longrightarrow> report_inv r \<Longrightarrow> report_inv (fold f xs r)"
  by (induction xs arbitrary: r) auto

lemma map_of_btree_insert [simp]: "map_of (btree_insert k v m) = (map_of m)(k \<mapsto> v)"
  by (induction m) (auto simp: fun_eq_iff)

lemma set_btree_insert: "set (btree_insert k v m) \<subseteq> insert (k, v) (set m)"
  by (induction m) (auto split: if_splits)

lemma fst_btree_insert: "fst ` set (btree_insert k v m) = insert k (fst ` set m)"
proof (induction m)
  case (Cons p m)
  then show ?case by (cases p; cases "k < fst p"; cases "k = fst p") (simp_all add: insert_commute)
qed simp

lemma sorted_btree_insert: "sorted_wrt (<) (map fst m) \<Longrightarrow> sorted_wrt (<) (map fst (btree_insert k v m))"
proof (induction m)
  case (Cons p m)
  obtain k' v' where p: "p = (k', v')" by fastforce
  have "\<forall>x \<in> fst ` set (btree_insert k v m). k' < x" if "k' < k"
    using Cons.prems that by (simp add: fst_btree_insert p)
  with Cons show ?case by (auto simp: p)
qed simp

definition head_ok :: "site \<Rightarrow> string \<Rightarrow> (sth \<Rightarrow> bool) \<Rightarrow> u64 \<Rightarrow> sth \<Rightarrow> bool" where
  "head_ok st prefix verifies sz s \<longleftrightarrow> fetch_sth st (prefix @ ''/sth/'' @ show_u64 sz @ ''.json'') = Inr s
     \<and> sth_tree_size s = sz \<and> verifies s"

lemma check_heads_mono:
  "fold (check_head st prefix lbl ctxt verifies) sizes (r, m) = (r', m') \<Longrightarrow> rep_ok r' \<Longrightarrow> rep_ok r"
proof (induction sizes arbitrary: r m)
  case (Cons sz sizes)
  obtain r1 m1 where one: "check_head st prefix lbl ctxt verifies sz (r, m) = (r1, m1)" by fastforce
  with Cons have "rep_ok r1" by simp
  with one show ?case by (auto simp: check_head_def split: sum.splits)
qed simp

lemma check_heads_spec:
  assumes "fold (check_head st prefix lbl ctxt verifies) sizes (r, m) = (r', m')" "rep_ok r'"
    and "sorted_wrt (<) (map fst m)" "\<forall>(k, s) \<in> set m. head_ok st prefix verifies k s"
  shows "rep_ok r \<and> sorted_wrt (<) (map fst m') \<and> (\<forall>(k, s) \<in> set m'. head_ok st prefix verifies k s)
    \<and> fst ` set m' = fst ` set m \<union> set sizes"
  using assms
proof (induction sizes arbitrary: r m)
  case (Cons sz sizes)
  obtain r1 m1 where one: "check_head st prefix lbl ctxt verifies sz (r, m) = (r1, m1)" by fastforce
  have rest: "fold (check_head st prefix lbl ctxt verifies) sizes (r1, m1) = (r', m')"
    using Cons.prems(1) one by simp
  show ?case
  proof (cases "fetch_sth st (prefix @ ''/sth/'' @ show_u64 sz @ ''.json'')")
    case (Inl e)
    then have "\<not> rep_ok r1" "m1 = m" using one by (auto simp: check_head_def)
    with Cons.IH [OF rest Cons.prems(2)] Cons.prems(3,4) show ?thesis by simp
  next
    case (Inr s)
    then have m1: "m1 = btree_insert sz s m"
      and ok: "rep_ok r1 \<longleftrightarrow> verifies s \<and> sth_tree_size s = sz \<and> rep_ok r"
      using one by (auto simp: check_head_def)
    have s1: "sorted_wrt (<) (map fst m1)" using Cons.prems(3) by (simp add: m1 sorted_btree_insert)
    show ?thesis
    proof (cases "verifies s \<and> sth_tree_size s = sz")
      case True
      then have "\<forall>(k, s) \<in> set m1. head_ok st prefix verifies k s"
        using Cons.prems(4) Inr set_btree_insert [of sz s m] by (auto simp: m1 head_ok_def)
      from Cons.IH [OF rest Cons.prems(2) s1 this] ok show ?thesis by (auto simp: m1 fst_btree_insert)
    next
      case False
      then have "\<not> rep_ok r1" using ok by blast
      with check_heads_mono [OF rest Cons.prems(2)] show ?thesis by blast
    qed
  qed
qed auto

lemma check_latest_mono: "rep_ok (check_latest st prefix lbl ctxt verifies l sths r) \<Longrightarrow> rep_ok r"
  by (auto simp: check_latest_def split: option.splits sum.splits)

lemma check_equivocation_ok:
  "rep_ok (check_equivocation lbl xs r) \<longleftrightarrow>
     (\<forall>j < length xs. \<forall>i < j. \<not> is_equivocation (xs ! i) (xs ! j)) \<and> rep_ok r"
proof -
  have "(i, j) \<in> set (concat (map (\<lambda>i. map (Pair i) [i + 1..<length xs]) [0..<length xs])) \<longleftrightarrow> i < j \<and> j < length xs" for i j
    by (auto intro!: bexI [of _ i])
  then show ?thesis unfolding check_equivocation_def rep_ok_fold_pairs by blast
qed

lemma fetch_entry_list_ok:
  "fetch_entry_list st prefix lbl r = (es, r') \<Longrightarrow> rep_ok r' \<Longrightarrow>
   rep_ok r \<and> fetch_entries st (prefix @ ''/entries.json'') = Inr es"
  by (auto simp: fetch_entry_list_def split: sum.splits)

lemma check_entries_ok:
  "rep_ok (check_entries st prefix lbl n es r) \<longleftrightarrow>
     word_of_nat (length es) = n \<and> (es \<noteq> [] \<longrightarrow> per_entry_ok st prefix es) \<and> rep_ok r"
  by (auto simp: check_entries_def Let_def)

lemma root_case_iff:
  "(case a of Inr root \<Rightarrow> (case b of Inr h \<Rightarrow> h = root | Inl _ \<Rightarrow> False) | Inl _ \<Rightarrow> False) \<longleftrightarrow> (\<exists>h. a = Inr h \<and> b = Inr h)"
  by (auto split: sum.splits)

lemma check_replay_ok:
  "rep_ok (check_replay L lbl rl start sths es r) \<longleftrightarrow> rep_ok r \<and> (es \<noteq> [] \<longrightarrow> fst (replay_all L start es) = []
     \<and> (\<forall>(sz, s) \<in> set sths. \<exists>h. vlog_root_at L (snd (replay_all L start es)) (unat sz) = Inr h \<and> root_bytes L s = Inr h))"
proof (cases "es = []")
  case False
  obtain errs log where "replay_all L start es = (errs, log)" by fastforce
  with False show ?thesis
    by (cases "errs = []") (auto simp: check_replay_def Let_def rep_ok_fold_pairs root_case_iff)
qed (simp add: check_replay_def)

lemma check_proofs_mono:
  "rep_ok (check_inclusions L st prefix lbl sths es refs r) \<Longrightarrow> rep_ok r"
  "rep_ok (check_consistencies L st prefix lbl sths crefs r) \<Longrightarrow> rep_ok r"
  by (simp_all add: check_inclusions_def check_consistencies_def rep_ok_fold)

lemma replayed_leaves:
  assumes "vlog_reach L start" "vl_entries start = []" "fst (replay_all L start es) = []"
  shows "vl_leaves (snd (replay_all L start es)) = map (entry_leaf_hash L) es"
proof -
  note app = replay_clean_append_all [OF assms(3)]
  have "vlog_inv L (snd (replay_all L start es))"
    using append_all_reach [OF app assms(1)] by (rule vlog_reach_inv)
  then show ?thesis using append_all_entries [OF app] assms(2) by (simp add: vlog_inv_def)
qed

text \<open>What a clean walk of one tree establishes.\<close>

definition tree_audited :: "lib \<Rightarrow> site \<Rightarrow> string \<Rightarrow> (sth \<Rightarrow> bool) \<Rightarrow> vlog \<Rightarrow> manifest \<Rightarrow> entry list \<Rightarrow> bool" where
  "tree_audited L st prefix verifies start mf es \<longleftrightarrow>
     fetch_entries st (prefix @ ''/entries.json'') = Inr es
     \<and> (es \<noteq> [] \<longrightarrow> fst (replay_all L start es) = [] \<and> per_entry_ok st prefix es)
     \<and> (\<forall>sz \<in> set (mf_sth_sizes mf). \<exists>s. head_ok st prefix verifies sz s
          \<and> (es \<noteq> [] \<longrightarrow> unat sz \<le> length es
              \<and> root_bytes L s = Inr (root_hash (sha256 L) (map (entry_leaf_hash L) (take (unat sz) es)))))"

lemma walk_tree_sound:
  assumes "rep_ok (walk_tree L st prefix lbl ctxt rl verifies start mf r)" "vlog_reach L start" "vl_entries start = []"
  shows "rep_ok r \<and> (\<exists>es. tree_audited L st prefix verifies start mf es)"
proof -
  obtain r1 sths where heads: "fold (check_head st prefix lbl ctxt verifies) (mf_sth_sizes mf) (r, []) = (r1, sths)" by fastforce
  define r3 where "r3 = check_equivocation lbl (map snd sths)
    (check_latest st prefix lbl ctxt verifies (mf_latest_tree_size mf) sths r1)"
  obtain es r4 where ents: "fetch_entry_list st prefix lbl r3 = (es, r4)" by fastforce
  define r6 where "r6 = check_replay L lbl rl start sths es (check_entries st prefix lbl (mf_entry_count mf) es r4)"
  have "rep_ok r6"
  proof -
    have "walk_tree L st prefix lbl ctxt rl verifies start mf r = check_consistencies L st prefix lbl sths (mf_consistency mf)
        (check_inclusions L st prefix lbl sths es (mf_inclusion mf) r6)"
      by (simp add: walk_tree_def Let_def heads r3_def [symmetric] ents r6_def)
    with assms(1) have "rep_ok (check_inclusions L st prefix lbl sths es (mf_inclusion mf) r6)"
      using check_proofs_mono(2) by metis
    then show ?thesis by (rule check_proofs_mono(1))
  qed
  then have ok5: "rep_ok (check_entries st prefix lbl (mf_entry_count mf) es r4)"
    and replay: "es \<noteq> [] \<longrightarrow> fst (replay_all L start es) = [] \<and> (\<forall>(sz, s) \<in> set sths. \<exists>h.
      vlog_root_at L (snd (replay_all L start es)) (unat sz) = Inr h \<and> root_bytes L s = Inr h)"
    unfolding r6_def check_replay_ok by blast+
  have ok4: "rep_ok r4" and per: "es \<noteq> [] \<longrightarrow> per_entry_ok st prefix es" using ok5 unfolding check_entries_ok by blast+
  have "rep_ok r3" and fetched: "fetch_entries st (prefix @ ''/entries.json'') = Inr es"
    using fetch_entry_list_ok [OF ents ok4] by blast+
  then have ok1: "rep_ok r1" unfolding r3_def check_equivocation_ok by (blast dest: check_latest_mono)
  have spec: "rep_ok r" "\<forall>(k, s) \<in> set sths. head_ok st prefix verifies k s" "fst ` set sths = set (mf_sth_sizes mf)"
    using check_heads_spec [OF heads ok1] by auto
  have "\<exists>s. head_ok st prefix verifies sz s \<and> (es \<noteq> [] \<longrightarrow> unat sz \<le> length es
      \<and> root_bytes L s = Inr (root_hash (sha256 L) (map (entry_leaf_hash L) (take (unat sz) es))))"
    if "sz \<in> set (mf_sth_sizes mf)" for sz
  proof -
    have "sz \<in> fst ` set sths" using that spec(3) by simp
    then obtain s where s: "(sz, s) \<in> set sths" by auto
    have "unat sz \<le> length es \<and> root_bytes L s = Inr (root_hash (sha256 L) (map (entry_leaf_hash L) (take (unat sz) es)))"
      if ne: "es \<noteq> []"
    proof -
      have clean: "fst (replay_all L start es) = []" using replay ne by blast
      obtain h where "vlog_root_at L (snd (replay_all L start es)) (unat sz) = Inr h" "root_bytes L s = Inr h"
        using replay ne s by blast
      then show ?thesis using replayed_leaves [OF assms(2,3) clean]
        by (auto simp: vlog_root_at_def take_map split: if_splits)
    qed
    with s spec(2) show ?thesis by blast
  qed
  with spec(1) fetched replay per show ?thesis unfolding tree_audited_def by blast
qed

lemma rep_ok_optional_mono:
  assumes "rep_ok (verify_optional_tree L st prefix lbl ctxt ab rl sc start r)" "vlog_reach L start" "vl_entries start = []"
  shows "rep_ok r"
proof -
  have walk: "rep_ok (walk_tree L st prefix lbl ctxt rl v start mf r) \<Longrightarrow> rep_ok r" for v mf
    using walk_tree_sound [OF _ assms(2,3)] by blast
  show ?thesis
  proof (cases "fetch_manifest_opt st (prefix @ ''/index.json'')")
    case (Inr m)
    show ?thesis
    proof (cases m)
      case (Some mf)
      show ?thesis
        using assms(1) Inr Some walk unfolding verify_optional_tree_def
        by (cases "fetch_public_key st (prefix @ ''/public_key.json'')") (simp_all split: sum.splits)
    qed (use assms(1) Inr in \<open>simp add: verify_optional_tree_def\<close>)
  qed (use assms(1) in \<open>simp add: verify_optional_tree_def\<close>)
qed

lemma reach_registered: "vlog_reach L (register_invariant vlog_new t rule)" "vl_entries (register_invariant vlog_new t rule) = []"
  by (intro vlog_reach.intros) (simp add: register_invariant_def vlog_new_def)

lemma reach_unique:
  "vlog_reach L log \<Longrightarrow> vlog_reach L (fold (\<lambda>t log. register_invariant log t unique_data_check) ts log)"
  by (induction ts arbitrary: log) (simp_all add: reach_register)

lemma registered_unique:
  "vl_entries (fold (\<lambda>t log. register_invariant log t unique_data_check) ts log) = vl_entries log"
  "vl_invariants (fold (\<lambda>t log. register_invariant log t unique_data_check) ts log) t
     = (if t \<in> set ts then Some unique_data_check else vl_invariants log t)"
  by (induction ts arbitrary: log) (simp_all add: register_invariant_def)

section \<open>Properties of the remote audit\<close>


text \<open>The pairwise equivocation step of a tree walk never decides: heads are collected in a map keyed by size, so if
  every advertised head is at its own size no two collected heads have the same size, and the step
  passes whatever their roots are.\<close>

theorem equivocation_step_never_fails:
  assumes "fold (check_head st prefix lbl ctxt verifies) sizes (report_new, []) = (r, sths)" "rep_ok r"
  shows "rep_ok (check_equivocation lbl (map snd sths) r)"
proof -
  have spec: "sorted_wrt (<) (map fst sths)" "\<forall>(k, s) \<in> set sths. head_ok st prefix verifies k s"
    using check_heads_spec [OF assms] by auto
  have "\<not> is_equivocation (map snd sths ! i) (map snd sths ! j)" if "i < j" "j < length sths" for i j
  proof -
    have "fst (sths ! i) < fst (sths ! j)" using spec(1) that by (auto simp: sorted_wrt_nth_iff)
    moreover have "sth_tree_size (snd (sths ! k)) = fst (sths ! k)" if "k < length sths" for k
      using spec(2) nth_mem [OF that] by (auto simp: head_ok_def split: prod.splits)
    ultimately show ?thesis using that by (auto simp: is_equivocation_def)
  qed
  with assms(2) show ?thesis by (simp add: check_equivocation_ok)
qed

text \<open>A site with one entry, one head and no optional trees.\<close>

abbreviation demo_head :: sth where "demo_head \<equiv> signed_tree_head demo_lib demo_log1 [7] 5"

definition audit_site :: site where
  "audit_site = demo_site\<lparr>fetch_public_key := (\<lambda>_. Inr (hex_encode demo_lib (ed_public demo_lib [7]))),
     fetch_manifest := (\<lambda>_. Inr \<lparr>mf_version = ''v1'', mf_public_key = [], mf_entry_count = 1, mf_latest_tree_size = Some 1,
       mf_sth_sizes = [1], mf_inclusion = [], mf_consistency = [], mf_enforce_unique = [''a''], mf_subjects = []\<rparr>)\<rparr>"

lemma demo_head_verifies: "sth_verify demo_lib demo_head (ed_public demo_lib [7])"
proof -
  have "hash_fn (sha256 demo_lib)" using lib_ok_demo by (simp add: lib_ok_def)
  then have "is_hash (vlog_root demo_lib demo_log1)"
    by (simp add: vlog_root_def demo_log1_facts entry_leaf_hash_def root_hash.simps)
  then show ?thesis
    by (simp add: sth_verify_def signed_tree_head_def sth_create_def verify_created [OF lib_ok_demo])
qed

lemma audit_replay:
  "replay_all demo_lib (register_invariant vlog_new ''a'' unique_data_check) [demo_entry]
   = ([], snd (replay_all demo_lib (register_invariant vlog_new ''a'' unique_data_check) [demo_entry]))"
  by (simp add: vlog_append_def register_invariant_def vlog_new_def demo_entry_def entry_new_def unique_data_check_def)

lemma audit_leaves:
  "vl_leaves (snd (replay_all demo_lib (register_invariant vlog_new ''a'' unique_data_check) [demo_entry]))
   = vl_leaves demo_log1"
  by (simp add: vlog_append_def register_invariant_def vlog_new_def demo_entry_def entry_new_def unique_data_check_def
      demo_log1_def)

lemma audit_walk_ok:
  "rep_ok (check_replay demo_lib [] rl (register_invariant vlog_new ''a'' unique_data_check) [(1, demo_head)] [demo_entry] r) = rep_ok r"
  unfolding check_replay_ok using audit_replay
  by (auto simp: vlog_root_at_def audit_leaves demo_log1_facts demo_head1 vlog_root_def simp del: replay_all.simps)
    (metis fst_conv)

lemma audit_ok: "\<exists>rep. verify_remote demo_lib demo_json (\<lambda>_. Inr audit_site) ''h'' = Inr rep \<and> rep_ok rep"
  by (simp add: verify_remote_def Let_def verifying_key_of_bundle [OF lib_ok_demo] audit_site_def demo_site_def
      verify_binaries_tree_def verify_account_tree_def verify_optional_tree_def walk_tree_def check_head_def
      check_latest_def check_equivocation_ok fetch_entry_list_def check_inclusions_def check_consistencies_def
      audit_walk_ok check_entries_ok per_entry_ok_def demo_head_verifies demo_head1)


theorem equivocation_step_never_fails_witness:
  "\<exists>r sths. fold (check_head demo_site [] [] [] (\<lambda>s. True)) [1] (report_new, []) = (r, sths) \<and> rep_ok r
     \<and> rep_ok (check_equivocation [] (map snd sths) r)"
proof -
  obtain r sths where f: "fold (check_head demo_site [] [] [] (\<lambda>s. True)) [1] (report_new, []) = (r, sths)" by fastforce
  then have "rep_ok r" by (auto simp: check_head_def demo_site_def demo_head1)
  with f equivocation_step_never_fails [OF f] show ?thesis by blast
qed

end
