(* ===== verification/Delivery_Db.thy ===== *)
theory Delivery_Db
  imports Prelude
begin

text \<open>The two databases of the delivery service: the commit-log database (\<open>mls_commit_log\<close>, \<open>mls_group_info\<close>,
  \<open>mls_welcome\<close>, \<open>mls_commit_since\<close>) and the tables of the main database its handlers use, as records of row
  lists in insertion order, with the SQL statements of the handlers as functions on row lists. A statement
  that violates a constraint fails and leaves its table as it was.\<close>

section \<open>Statements\<close>

named_theorems sql_simps \<open>effects of statements on row lists\<close>

text \<open>\<open>UPDATE ... SET f WHERE P\<close>, \<open>DELETE ... WHERE P\<close>, \<open>INSERT OR IGNORE\<close> with the key columns as \<open>same\<close>, and
  \<open>INSERT ... ON CONFLICT(key) DO UPDATE SET f\<close>.\<close>

definition sql_update :: "('r \<Rightarrow> bool) \<Rightarrow> ('r \<Rightarrow> 'r) \<Rightarrow> 'r list \<Rightarrow> 'r list" where
  "sql_update P f rows = map (\<lambda>r. if P r then f r else r) rows"

definition sql_delete :: "('r \<Rightarrow> bool) \<Rightarrow> 'r list \<Rightarrow> 'r list" where
  "sql_delete P rows = filter (\<lambda>r. \<not> P r) rows"

definition sql_insert_or_ignore :: "('r \<Rightarrow> bool) \<Rightarrow> 'r \<Rightarrow> 'r list \<Rightarrow> 'r list" where
  "sql_insert_or_ignore same row rows = (if list_ex same rows then rows else rows @ [row])"

definition sql_upsert :: "('r \<Rightarrow> bool) \<Rightarrow> ('r \<Rightarrow> 'r) \<Rightarrow> 'r \<Rightarrow> 'r list \<Rightarrow> 'r list" where
  "sql_upsert same f row rows = (if list_ex same rows then sql_update same f rows else rows @ [row])"

text \<open>The first row of a query, as \<open>rows.next()\<close> returns it.\<close>

definition first_row :: "('r \<Rightarrow> bool) \<Rightarrow> 'r list \<Rightarrow> 'r option" where
  "first_row P rows = List.find P rows"

lemma sql_update_Nil [sql_simps]: "sql_update P f [] = []"
  by (simp add: sql_update_def)

lemma set_sql_delete [sql_simps]: "r \<in> set (sql_delete P rows) \<longleftrightarrow> r \<in> set rows \<and> \<not> P r"
  by (simp add: sql_delete_def)

lemma filter_sql_delete: "(\<And>r. Q r \<Longrightarrow> \<not> P r) \<Longrightarrow> filter Q (sql_delete P rows) = filter Q rows"
  by (auto simp: sql_delete_def intro: filter_cong)

lemma filter_sql_update:
  "(\<And>r. P r \<Longrightarrow> \<not> Q r \<and> \<not> Q (f r)) \<Longrightarrow> filter Q (sql_update P f rows) = filter Q rows"
  by (induction rows) (auto simp: sql_update_def)

lemma filter_sql_upsert:
  assumes "\<And>r. same r \<Longrightarrow> \<not> Q r \<and> \<not> Q (f r)" "\<not> Q row"
  shows "filter Q (sql_upsert same f row rows) = filter Q rows"
  using filter_sql_update [of same Q f rows] assms by (simp add: sql_upsert_def)

lemma set_sql_upsertE:
  assumes "r \<in> set (sql_upsert same f row rows)"
  obtains "r \<in> set rows" | "r = row" | r' where "r' \<in> set rows" "same r'" "r = f r'"
  using assms by (auto simp: sql_upsert_def sql_update_def split: if_splits)

lemma set_sql_updateE:
  assumes "r \<in> set (sql_update P f rows)"
  obtains "r \<in> set rows" "\<not> P r" | r' where "r' \<in> set rows" "P r'" "r = f r'"
  using assms by (auto simp: sql_update_def split: if_splits)

lemma first_row_Some: "first_row P rows = Some r \<Longrightarrow> r \<in> set rows \<and> P r"
  by (auto simp: first_row_def find_Some_iff)

lemma first_row_None: "first_row P rows = None \<longleftrightarrow> (\<forall>r \<in> set rows. \<not> P r)"
  by (auto simp: first_row_def find_None_iff)

section \<open>The commit-log database\<close>

text \<open>Columns of \<open>migrations-log\<close>. \<open>seq\<close> is \<open>AUTOINCREMENT\<close>: a value once used is never used again, so the
  database keeps the next one.\<close>

record mls_commit_log =
  ml_seq :: i64
  ml_conversation_id :: string
  ml_epoch :: i64
  ml_sender_id :: string
  ml_commit_data :: bytes
  ml_added_user_id :: "string option"
  ml_added_device_ids :: "string option"
  ml_created_at :: string

record mls_group_info =
  gi_conversation_id :: string
  gi_epoch :: i64
  gi_group_info :: bytes
  gi_updated_at :: string
  gi_updated_by_device_id :: string

record mls_welcome =
  w_id :: string
  w_conversation_id :: string
  w_recipient_id :: string
  w_welcome_data :: bytes
  w_delivered :: bool
  w_recipient_device_id :: "string option"

record mls_commit_since =
  cs_conversation_id :: string
  cs_user_id :: string
  cs_device_id :: string
  cs_since_epoch :: i64

record log_db =
  commit_log :: "mls_commit_log list"
  next_seq :: i64
  group_infos :: "mls_group_info list"
  welcomes :: "mls_welcome list"
  commit_since :: "mls_commit_since list"

definition log_db_new :: log_db where
  "log_db_new = \<lparr>commit_log = [], next_seq = 1, group_infos = [], welcomes = [], commit_since = []\<rparr>"

section \<open>The main database\<close>

text \<open>Columns no handler reads or compares (creation and update stamps with a default) are left out.\<close>

record user_row =
  u_id :: string
  u_email :: string
  u_username :: string
  u_preferred_name :: "string option"
  u_phone :: "string option"
  u_avatar_url :: "string option"
  u_account_id_pub :: "bytes option"
  u_identity_version :: i64

record user_device =
  ud_device_id :: string
  ud_user_id :: string
  ud_device_name :: "string option"
  ud_device_cert :: "bytes option"
  ud_cert_issued_at :: "string option"
  ud_cert_identity_version :: "i64 option"
  ud_mls_signature_pub :: "bytes option"
  ud_revoked_at :: "string option"

record group_row =
  g_id :: string
  g_name :: string
  g_description :: "string option"
  g_icon_url :: "string option"
  g_owner_id :: string
  g_created_at :: string

record channel_row =
  ch_id :: string
  ch_group_id :: string
  ch_name :: string
  ch_description :: "string option"
  ch_channel_type :: string

record group_member =
  gm_group_id :: string
  gm_user_id :: string
  gm_role :: string

record dm_channel_member =
  dcm_dm_channel_id :: string
  dcm_user_id :: string
  dcm_added_by :: string
  dcm_added_at :: string
  dcm_accepted_at :: "string option"

record dm_channel =
  dc_id :: string
  dc_created_by :: string
  dc_created_at :: string

record user_block =
  ub_blocker_id :: string
  ub_blocked_id :: string

record user_preferences =
  up_user_id :: string
  up_preferences :: string

record group_invite =
  iv_id :: string
  iv_group_id :: string
  iv_inviter_id :: string
  iv_invitee_id :: string

record group_join_request =
  jr_id :: string
  jr_group_id :: string
  jr_requester_id :: string
  jr_created_at :: string
  jr_reviewed_by :: "string option"
  jr_reviewed_at :: "string option"
  jr_status :: string

record message_envelope =
  me_id :: string
  me_conversation_id :: string
  me_sender_id :: string
  me_ciphertext :: string
  me_reply_to_id :: "string option"
  me_sent_at :: string
  me_type :: string
  me_target_message_id :: "string option"
  me_sealed :: i64

record message_reaction =
  mr_id :: string
  mr_message_id :: string
  mr_user_id :: string
  mr_emoji :: string
  mr_created_at :: string

record conversation_watermark =
  cw_conversation_id :: string
  cw_user_id :: string
  cw_device_id :: string
  cw_last_fetched_at :: string

record attachment_object =
  ao_content_hash :: string
  ao_r2_key :: string

record mls_key_package =
  kp_ref_hash :: string
  kp_user_id :: string
  kp_key_package :: bytes
  kp_claimed :: bool
  kp_created_at :: string
  kp_device_id :: "string option"

record push_token =
  pt_token :: string
  pt_user_id :: string
  pt_platform :: string
  pt_updated_at :: string

record account_key_log =
  ak_seq :: i64
  ak_user_id :: string
  ak_account_id_pub :: bytes
  ak_identity_version :: i64

record account_recovery =
  ar_user_id :: string
  ar_identity_version :: i64
  ar_salt :: bytes
  ar_nonce :: bytes
  ar_wrapped_key :: bytes

record security_event =
  ev_id :: string
  ev_user_id :: string
  ev_kind :: string
  ev_device_id :: "string option"
  ev_metadata :: "string option"

record device_enrollment_request =
  er_id :: string
  er_user_id :: string
  er_new_device_id :: string
  er_new_device_ephemeral_pub :: bytes
  er_verification_code :: string
  er_wrapped_account_key :: "bytes option"
  er_status :: string
  er_created_at :: string
  er_expires_at :: string
  er_approved_by_device_id :: "string option"

record main_db =
  users :: "user_row list"
  user_devices :: "user_device list"
  groups :: "group_row list"
  channels :: "channel_row list"
  group_members :: "group_member list"
  dm_channels :: "dm_channel list"
  dm_channel_members :: "dm_channel_member list"
  group_invites :: "group_invite list"
  group_join_requests :: "group_join_request list"
  envelopes :: "message_envelope list"
  reactions :: "message_reaction list"
  watermarks :: "conversation_watermark list"
  attachments :: "attachment_object list"
  blocks :: "user_block list"
  preferences :: "user_preferences list"
  key_packages :: "mls_key_package list"
  push_tokens :: "push_token list"
  key_log :: "account_key_log list"
  key_log_seq :: i64
  recoveries :: "account_recovery list"
  security_events :: "security_event list"
  enrollments :: "device_enrollment_request list"

definition main_db_new :: main_db where
  "main_db_new = \<lparr>users = [], user_devices = [], groups = [], channels = [], group_members = [], dm_channels = [],
     dm_channel_members = [], group_invites = [], group_join_requests = [], envelopes = [], reactions = [],
     watermarks = [], attachments = [], blocks = [], preferences = [], key_packages = [], push_tokens = [], key_log = [],
     key_log_seq = 1, recoveries = [], security_events = [], enrollments = []\<rparr>"

text \<open>The rows that a foreign key to \<open>users(id)\<close> may name.\<close>

definition has_user :: "main_db \<Rightarrow> string \<Rightarrow> bool" where
  "has_user db user_id \<longleftrightarrow> list_ex (\<lambda>u. u_id u = user_id) (users db)"

section \<open>Shared queries\<close>

text \<open>\<open>writes.rs\<close>: a conversation id is a group id, a DM channel id or a channel id.\<close>

definition is_member :: "main_db \<Rightarrow> string \<Rightarrow> string \<Rightarrow> bool" where
  "is_member db conversation_id user_id \<longleftrightarrow>
     list_ex (\<lambda>m. dcm_dm_channel_id m = conversation_id \<and> dcm_user_id m = user_id) (dm_channel_members db)
     \<or> list_ex (\<lambda>m. gm_group_id m = conversation_id \<and> gm_user_id m = user_id) (group_members db)
     \<or> list_ex (\<lambda>c. ch_id c = conversation_id
           \<and> list_ex (\<lambda>m. gm_group_id m = ch_group_id c \<and> gm_user_id m = user_id) (group_members db)) (channels db)"

lemma is_member_cong:
  "dm_channel_members db = dm_channel_members db' \<Longrightarrow> group_members db = group_members db' \<Longrightarrow> channels db = channels db'
   \<Longrightarrow> is_member db = is_member db'"
  by (simp add: is_member_def fun_eq_iff)

end
