(* ===== verification/Delivery_Auth.thy ===== *)
theory Delivery_Auth
  imports Delivery_Db Vlog_Log
begin

text \<open>Authentication of requests to the delivery service: device signatures (\<open>auth.rs\<close>), bootstrap sessions
  (\<open>session.rs\<close>), the rejections of \<open>error.rs\<close> and the gates of \<open>writes.rs\<close> that every handler runs first. The
  base64 crate is the record \<open>b64\<close>, Ed25519 and SHA-256 are fields of \<open>lib\<close>, the clock and the random bytes
  are arguments.\<close>

section \<open>Requests and rejections\<close>

record b64 =
  b64_dec :: "string \<Rightarrow> bytes option"
  b64_enc :: "bytes \<Rightarrow> string"

definition b64_ok :: "b64 \<Rightarrow> bool" where
  "b64_ok E \<longleftrightarrow> (\<forall>x. b64_dec E (b64_enc E x) = Some x)"

text \<open>A header is absent (\<open>None\<close>), present but not visible ASCII (\<open>Some None\<close>), or a string.\<close>

type_synonym headers = "string \<Rightarrow> string option option"

record request =
  req_method :: string
  req_path :: string
  req_headers :: headers
  req_body :: bytes

datatype auth_rejection = Unauthorized | Forbidden

definition header_str :: "headers \<Rightarrow> string \<Rightarrow> string option" where
  "header_str headers name = (case headers name of Some (Some s) \<Rightarrow> Some s | _ \<Rightarrow> None)"

section \<open>Device signatures (auth.rs)\<close>

definition REPLAY_WINDOW_SECS :: i64 where "REPLAY_WINDOW_SECS = 300"
definition H_USER :: string where "H_USER = ''x-pollis-user''"
definition H_DEVICE :: string where "H_DEVICE = ''x-pollis-device''"
definition H_TIMESTAMP :: string where "H_TIMESTAMP = ''x-pollis-timestamp''"
definition H_SIGNATURE :: string where "H_SIGNATURE = ''x-pollis-signature''"

record credentials =
  cr_user_id :: string
  cr_device_id :: string
  cr_timestamp :: i64
  cr_signature :: bytes

definition HEX_DIGITS :: string where "HEX_DIGITS = ''0123456789abcdef''"

definition hex_lower :: "bytes \<Rightarrow> string" where
  "hex_lower bs = concat (map (\<lambda>b. [HEX_DIGITS ! unat (drop_bit 4 b), HEX_DIGITS ! unat (and b 15)]) bs)"

definition canonical_message :: "lib \<Rightarrow> string \<Rightarrow> string \<Rightarrow> i64 \<Rightarrow> bytes \<Rightarrow> bytes" where
  "canonical_message L meth path timestamp body =
     as_bytes (meth @ [CHR 0x0A] @ path @ [CHR 0x0A] @ show_int timestamp @ [CHR 0x0A] @ hex_lower (sha256 L body))"

text \<open>\<open>(now - timestamp).abs() > REPLAY_WINDOW_SECS\<close>, as a release build computes it.\<close>

definition outside_window :: "i64 \<Rightarrow> i64 \<Rightarrow> bool" where
  "outside_window now timestamp \<longleftrightarrow> wrap_i64 \<bar>wrap_i64 (now - timestamp)\<bar> > REPLAY_WINDOW_SECS"

definition parse_credentials :: "b64 \<Rightarrow> headers \<Rightarrow> i64 \<Rightarrow> auth_rejection + credentials" where
  "parse_credentials E headers now =
     (case (header_str headers H_USER, header_str headers H_DEVICE, header_str headers H_TIMESTAMP, header_str headers H_SIGNATURE) of
        (Some user_id, Some device_id, Some timestamp_str, Some signature_b64) \<Rightarrow>
          if user_id = [] \<or> device_id = [] then Inl Unauthorized
          else (case parse_i64 timestamp_str of
              None \<Rightarrow> Inl Unauthorized
            | Some timestamp \<Rightarrow>
                if outside_window now timestamp then Inl Unauthorized
                else (case b64_dec E signature_b64 of
                    None \<Rightarrow> Inl Unauthorized
                  | Some sig_bytes \<Rightarrow>
                      if length sig_bytes \<noteq> 64 then Inl Unauthorized
                      else Inr \<lparr>cr_user_id = user_id, cr_device_id = device_id, cr_timestamp = timestamp,
                                cr_signature = sig_bytes\<rparr>))
      | _ \<Rightarrow> Inl Unauthorized)"

text \<open>\<open>conn = None\<close> is a query that fails.\<close>

definition lookup_device_pubkey :: "lib \<Rightarrow> main_db option \<Rightarrow> string \<Rightarrow> string \<Rightarrow> unit + bytes option" where
  "lookup_device_pubkey L conn user_id device_id =
     (case conn of
        None \<Rightarrow> Inl ()
      | Some db \<Rightarrow> Inr
          (case first_row (\<lambda>r. ud_device_id r = device_id \<and> ud_user_id r = user_id) (user_devices db) of
             None \<Rightarrow> None
           | Some row \<Rightarrow>
               if ud_revoked_at row \<noteq> None then None
               else (case ud_mls_signature_pub row of
                   None \<Rightarrow> None
                 | Some pub_bytes \<Rightarrow> if length pub_bytes \<noteq> 32 then None else ed_from_bytes L pub_bytes)))"

definition verify_request :: "lib \<Rightarrow> b64 \<Rightarrow> main_db option \<Rightarrow> headers \<Rightarrow> string \<Rightarrow> string \<Rightarrow> bytes \<Rightarrow> i64
    \<Rightarrow> auth_rejection + string" where
  "verify_request L E conn headers meth path body now =
     bind_res (parse_credentials E headers now) (\<lambda>creds.
       case lookup_device_pubkey L conn (cr_user_id creds) (cr_device_id creds) of
         Inr (Some vk) \<Rightarrow>
           if ed_verify L vk (canonical_message L meth path (cr_timestamp creds) body) (cr_signature creds)
           then Inr (cr_user_id creds) else Inl Unauthorized
       | _ \<Rightarrow> Inl Unauthorized)"

section \<open>Bootstrap sessions (session.rs)\<close>

definition SESSION_HEADER :: string where "SESSION_HEADER = ''x-pollis-session''"

record session_record =
  sr_user_id :: string
  sr_email :: string
  sr_device_id :: string
  sr_expires_at :: nat

record session_claims =
  sc_user_id :: string
  sc_email :: string
  sc_device_id :: string

type_synonym session_store = "bytes \<rightharpoonup> session_record"

definition hash_token :: "lib \<Rightarrow> string \<Rightarrow> bytes" where
  "hash_token L token = sha256 L (as_bytes token)"

text \<open>\<open>raw\<close> is the 32 random bytes the token is made of.\<close>

definition mint :: "lib \<Rightarrow> bytes \<Rightarrow> string \<Rightarrow> string \<Rightarrow> string \<Rightarrow> nat \<Rightarrow> nat \<Rightarrow> session_store \<Rightarrow> string \<times> session_store" where
  "mint L raw user_id email device_id ttl_secs now store =
     (let token = hex_lower raw
      in (token, store(hash_token L token \<mapsto> \<lparr>sr_user_id = user_id, sr_email = email, sr_device_id = device_id,
                                               sr_expires_at = sat_add 64 now ttl_secs\<rparr>)))"

definition resolve :: "lib \<Rightarrow> string \<Rightarrow> nat \<Rightarrow> session_store \<Rightarrow> session_claims option \<times> session_store" where
  "resolve L token now store =
     (let key = hash_token L token in
      case store key of
        Some rec \<Rightarrow>
          if now \<le> sr_expires_at rec
          then (Some \<lparr>sc_user_id = sr_user_id rec, sc_email = sr_email rec, sc_device_id = sr_device_id rec\<rparr>, store)
          else (None, store(key := None))
      | None \<Rightarrow> (None, store))"

definition invalidate :: "lib \<Rightarrow> string \<Rightarrow> session_store \<Rightarrow> session_store" where
  "invalidate L token store = store(hash_token L token := None)"

definition session_token :: "headers \<Rightarrow> string option" where
  "session_token headers = header_str headers SESSION_HEADER"

definition verify_session :: "lib \<Rightarrow> headers \<Rightarrow> nat \<Rightarrow> session_store \<Rightarrow> (auth_rejection + session_claims) \<times> session_store" where
  "verify_session L headers now store =
     (case session_token headers of
        None \<Rightarrow> (Inl Unauthorized, store)
      | Some token \<Rightarrow>
          if token = [] then (Inl Unauthorized, store)
          else (case resolve L token now store of
              (None, store') \<Rightarrow> (Inl Unauthorized, store')
            | (Some claims, store') \<Rightarrow> (Inr claims, store')))"

section \<open>Gates (writes.rs)\<close>

text \<open>The authenticated user, or \<open>None\<close> when authentication is off.\<close>

type_synonym authed = "string option"

definition gate :: "lib \<Rightarrow> b64 \<Rightarrow> bool \<Rightarrow> i64 \<Rightarrow> main_db \<Rightarrow> request \<Rightarrow> auth_rejection + authed" where
  "gate L E require_auth now db req =
     (if \<not> require_auth then Inr None
      else (case verify_request L E (Some db) (req_headers req) (req_method req) (req_path req) (req_body req) now of
              Inr user_id \<Rightarrow> Inr (Some user_id)
            | Inl rej \<Rightarrow> Inl rej))"

definition gate_or_session :: "lib \<Rightarrow> b64 \<Rightarrow> bool \<Rightarrow> i64 \<Rightarrow> main_db \<Rightarrow> session_store \<Rightarrow> request
    \<Rightarrow> (auth_rejection + authed) \<times> session_store" where
  "gate_or_session L E require_auth now db sessions req =
     (if \<not> require_auth then (Inr None, sessions)
      else if req_headers req H_SIGNATURE \<noteq> None then (gate L E require_auth now db req, sessions)
      else (case verify_session L (req_headers req) (nat now) sessions of
              (Inr claims, s) \<Rightarrow> (Inr (Some (sc_user_id claims)), s)
            | (Inl rej, s) \<Rightarrow> (Inl rej, s)))"

datatype write_outcome = Ok | OutForbidden

definition resolve_actor :: "authed \<Rightarrow> string option \<Rightarrow> write_outcome + string" where
  "resolve_actor authed body_actor =
     (case authed of
        Some u \<Rightarrow> (case body_actor of
            Some b \<Rightarrow> if b \<noteq> u then Inl OutForbidden else Inr u
          | None \<Rightarrow> Inr u)
      | None \<Rightarrow> (case body_actor of
            Some b \<Rightarrow> if b \<noteq> [] then Inr b else Inl OutForbidden
          | None \<Rightarrow> Inl OutForbidden))"

section \<open>The signing client (pollis-core, mls/ds_client.rs)\<close>

text \<open>The parts of the application state that \<open>ds_post\<close> reads: the configured URL, the unlocked session, the
  accounts index (which may fail to load), the device id and the device's signing key.\<close>

record client_state =
  cst_delivery_url :: "string option"
  cst_unlock :: "string option"
  cst_last_active_user :: "string + string option"
  cst_device_id :: "string option"
  cst_device_key :: "bytes option"

datatype ds_error = NoDeliveryUrl | AccountsIndex string | NoActiveUser | NoDeviceId | NotSignedIn

definition client_canonical_message :: "lib \<Rightarrow> string \<Rightarrow> string \<Rightarrow> i64 \<Rightarrow> bytes \<Rightarrow> bytes" where
  "client_canonical_message L meth path timestamp body =
     (let digest = sha256 L body;
          hex = fold (\<lambda>b h. h @ [''0123456789abcdef'' ! unat (drop_bit 4 b)] @ [''0123456789abcdef'' ! unat (and b 15)]) digest []
      in as_bytes (meth @ [CHR 0x0A] @ path @ [CHR 0x0A] @ show_int timestamp @ [CHR 0x0A] @ hex))"

definition current_user_id :: "client_state \<Rightarrow> ds_error + string" where
  "current_user_id c =
     (let fallback = (case cst_last_active_user c of
          Inl e \<Rightarrow> Inl (AccountsIndex e)
        | Inr (Some u) \<Rightarrow> if u \<noteq> [] then Inr u else Inl NoActiveUser
        | Inr None \<Rightarrow> Inl NoActiveUser)
      in case cst_unlock c of
           Some u \<Rightarrow> if u \<noteq> [] then Inr u else fallback
         | None \<Rightarrow> fallback)"

definition trim_slashes :: "string \<Rightarrow> string" where
  "trim_slashes s = rev (dropWhile (\<lambda>c. c = CHR ''/'') (rev s))"

text \<open>\<open>ds_post\<close> up to the send: the URL and the request that go on the wire, for a serialised body.\<close>

definition ds_post :: "lib \<Rightarrow> b64 \<Rightarrow> client_state \<Rightarrow> string \<Rightarrow> bytes \<Rightarrow> i64 \<Rightarrow> ds_error + string \<times> request" where
  "ds_post L E c path body_bytes timestamp =
     (case cst_delivery_url c of
        None \<Rightarrow> Inl NoDeliveryUrl
      | Some base \<Rightarrow>
          bind_res (current_user_id c) (\<lambda>user_id.
            case cst_device_id c of
              None \<Rightarrow> Inl NoDeviceId
            | Some device_id \<Rightarrow>
                (case cst_device_key c of
                   None \<Rightarrow> Inl NotSignedIn
                 | Some key \<Rightarrow>
                     let msg = client_canonical_message L ''POST'' path timestamp body_bytes;
                         signature_b64 = b64_enc E (ed_sign L key msg)
                     in Inr (trim_slashes base @ path,
                          \<lparr>req_method = ''POST'', req_path = path,
                           req_headers = [H_USER \<mapsto> Some user_id, H_DEVICE \<mapsto> Some device_id,
                             H_TIMESTAMP \<mapsto> Some (show_int timestamp), H_SIGNATURE \<mapsto> Some signature_b64,
                             ''content-type'' \<mapsto> Some ''application/json''],
                           req_body = body_bytes\<rparr>))))"

section \<open>Lemmas\<close>

lemma header_strI: "headers n = Some (Some s) \<Longrightarrow> header_str headers n = Some s"
  by (simp add: header_str_def)

lemma hex_digits_inject: "i < 16 \<Longrightarrow> j < 16 \<Longrightarrow> HEX_DIGITS ! i = HEX_DIGITS ! j \<longleftrightarrow> i = j"
  by (rule nth_eq_iff_index_eq) (simp_all add: HEX_DIGITS_def)

lemma nibbles_less: "unat (drop_bit 4 (b :: byte)) < 16" "unat (and b 15) < 16"
proof -
  have "unat b < 256" using unsigned_less [of b] by simp
  then show "unat (drop_bit 4 b) < 16" by (simp add: drop_bit_eq_div unat_div less_mult_imp_div_less)
  have "and b 15 = take_bit 4 b" by (simp add: take_bit_eq_mask mask_eq_exp_minus_1)
  then have "unat (and b 15) = take_bit 4 (unat b)" by (simp add: unsigned_take_bit_eq)
  then show "unat (and b 15) < 16" using take_bit_nat_less_exp [of 4 "unat b"] by simp
qed

lemma byte_of_nibbles:
  assumes "drop_bit 4 b = drop_bit 4 (c :: byte)" "and b 15 = and c 15"
  shows "b = c"
proof -
  have split: "x = or (push_bit 4 (drop_bit 4 x)) (and x (mask 4))" for x :: byte
    by (rule bit_word_eqI) (auto simp: bit_simps)
  have "mask 4 = (15 :: byte)" by (simp add: mask_eq_exp_minus_1)
  then show ?thesis using split [of b] split [of c] assms by simp
qed

lemma hex_lower_Nil: "hex_lower [] = []"
  by (simp add: hex_lower_def)

lemma hex_lower_Cons: "hex_lower (b # bs) = HEX_DIGITS ! unat (drop_bit 4 b) # HEX_DIGITS ! unat (and b 15) # hex_lower bs"
  by (simp add: hex_lower_def)

lemma hex_byte_inject:
  fixes b c :: byte
  assumes "HEX_DIGITS ! unat (drop_bit 4 b) = HEX_DIGITS ! unat (drop_bit 4 c)"
    and "HEX_DIGITS ! unat (and b 15) = HEX_DIGITS ! unat (and c 15)"
  shows "b = c"
proof (rule byte_of_nibbles)
  show "drop_bit 4 b = drop_bit 4 c"
    using assms(1) unfolding hex_digits_inject [OF nibbles_less(1) nibbles_less(1)] word_unat_eq_iff .
  show "and b 15 = and c 15"
    using assms(2) unfolding hex_digits_inject [OF nibbles_less(2) nibbles_less(2)] word_unat_eq_iff .
qed

lemma hex_lower_inject [simp]: "hex_lower bs = hex_lower cs \<longleftrightarrow> bs = cs"
proof (induction bs arbitrary: cs)
  case Nil
  show ?case by (cases cs) (simp_all add: hex_lower_Nil hex_lower_Cons)
next
  case (Cons b bs)
  show ?case
  proof (cases cs)
    case Nil
    show ?thesis unfolding Nil hex_lower_Nil hex_lower_Cons by simp
  next
    case (Cons c cs')
    show ?thesis unfolding Cons hex_lower_Cons list.inject Cons.IH using hex_byte_inject [of b c] by blast
  qed
qed

lemma append_sep_inject:
  assumes "c \<notin> set xs" "c \<notin> set ys"
  shows "xs @ c # us = ys @ c # vs \<longleftrightarrow> xs = ys \<and> us = vs"
  using assms
proof (induction xs arbitrary: ys)
  case Nil
  then show ?case by (cases ys) auto
next
  case (Cons x xs)
  then show ?case by (cases ys) auto
qed

lemma newline_not_in_show_int: "CHR 0x0A \<notin> set (show_int i)"
proof
  assume "CHR 0x0A \<in> set (show_int i)"
  from show_int_chars [OF this] show False by (simp add: digit_of_def)
qed

lemma canonical_message_parts:
  assumes "CHR 0x0A \<notin> set m" "CHR 0x0A \<notin> set p" "CHR 0x0A \<notin> set m'" "CHR 0x0A \<notin> set p'"
    and "canonical_message L m p ts body = canonical_message L m' p' ts' body'"
  shows "m = m' \<and> p = p' \<and> ts = ts' \<and> sha256 L body = sha256 L body'"
proof -
  let ?nl = "CHR 0x0A"
  have "m @ ?nl # (p @ ?nl # (show_int ts @ ?nl # hex_lower (sha256 L body)))
      = m' @ ?nl # (p' @ ?nl # (show_int ts' @ ?nl # hex_lower (sha256 L body')))"
    using assms(5) unfolding canonical_message_def as_bytes_inject by simp
  from this [unfolded append_sep_inject [OF assms(1,3)] append_sep_inject [OF assms(2,4)]
      append_sep_inject [OF newline_not_in_show_int newline_not_in_show_int] show_int_inject hex_lower_inject]
  show ?thesis by blast
qed

lemma within_window_iff:
  assumes "0 \<le> now" "now < 2 ^ 62" "- (2 ^ 63) \<le> ts" "ts < 2 ^ 63"
  shows "\<not> outside_window now ts \<longleftrightarrow> \<bar>now - ts\<bar> \<le> 300 \<or> ts = now - 2 ^ 63"
proof (cases "now - ts < 2 ^ 63")
  case True
  then have "wrap_i64 (now - ts) = now - ts" using assms by (intro wrap_i64_id) simp_all
  moreover have "wrap_i64 \<bar>now - ts\<bar> = \<bar>now - ts\<bar>" using True assms by (intro wrap_i64_id) simp_all
  ultimately show ?thesis using True by (simp add: outside_window_def REPLAY_WINDOW_SECS_def) linarith
next
  case False
  then have w: "wrap_i64 (now - ts) = now - ts - 2 ^ 64" using assms by (intro wrap_i64_high) simp_all
  show ?thesis
  proof (cases "now - ts = 2 ^ 63")
    case True
    with w show ?thesis by (simp add: outside_window_def REPLAY_WINDOW_SECS_def wrap_i64_def)
  next
    case neq: False
    have "wrap_i64 \<bar>now - ts - 2 ^ 64\<bar> = \<bar>now - ts - 2 ^ 64\<bar>"
      using neq False assms by (intro wrap_i64_id) simp_all
    with w neq False assms show ?thesis by (simp add: outside_window_def REPLAY_WINDOW_SECS_def)
  qed
qed

lemma parse_i64_range: "parse_i64 s = Some i \<Longrightarrow> - (2 ^ 63) \<le> i \<and> i < 2 ^ 63"
  by (auto simp: parse_i64_def Let_def split: option.splits prod.splits if_splits)

lemma parse_credentials_Inr:
  assumes "parse_credentials E h now = Inr c"
  shows "\<exists>ts sig. header_str h H_USER = Some (cr_user_id c) \<and> header_str h H_DEVICE = Some (cr_device_id c)
    \<and> header_str h H_TIMESTAMP = Some ts \<and> parse_i64 ts = Some (cr_timestamp c)
    \<and> header_str h H_SIGNATURE = Some sig \<and> b64_dec E sig = Some (cr_signature c) \<and> \<not> outside_window now (cr_timestamp c)"
  using assms unfolding parse_credentials_def
  by (auto split: option.splits if_splits)

lemma resolve_actor_authed: "resolve_actor (Some u) b = Inr a \<Longrightarrow> a = u"
  by (auto simp: resolve_actor_def split: option.splits if_splits)

lemma gate_authed: "gate L E True now db req = Inr a \<longleftrightarrow>
    (\<exists>u. a = Some u \<and> verify_request L E (Some db) (req_headers req) (req_method req) (req_path req) (req_body req) now = Inr u)"
  by (auto simp: gate_def split: sum.splits)

lemma verify_request_Inr:
  assumes "verify_request L E conn h m p body now = Inr u"
  shows "\<exists>c vk. parse_credentials E h now = Inr c \<and> u = cr_user_id c
    \<and> lookup_device_pubkey L conn (cr_user_id c) (cr_device_id c) = Inr (Some vk)
    \<and> ed_verify L vk (canonical_message L m p (cr_timestamp c) body) (cr_signature c)"
proof -
  obtain c where c: "parse_credentials E h now = Inr c"
    using assms by (auto simp: verify_request_def bind_res_eq_Inr)
  moreover from assms c obtain vk where "lookup_device_pubkey L conn (cr_user_id c) (cr_device_id c) = Inr (Some vk)"
    by (auto simp: verify_request_def split: sum.splits option.splits)
  ultimately show ?thesis using assms by (auto simp: verify_request_def split: if_splits)
qed

lemma fold_hex: "fold (\<lambda>b h. h @ [f b] @ [g b]) bs acc = acc @ concat (map (\<lambda>b. [f b, g b]) bs)"
  by (induction bs arbitrary: acc) simp_all

lemma client_canonical_message_eq: "client_canonical_message = canonical_message"
  by (intro ext) (simp add: client_canonical_message_def canonical_message_def hex_lower_def HEX_DIGITS_def fold_hex [simplified])

lemma ds_post_InrE:
  assumes "ds_post L E c path body ts = Inr (url, req)"
  obtains u d key where "current_user_id c = Inr u" "u \<noteq> []" "cst_device_id c = Some d" "cst_device_key c = Some key"
    "req = \<lparr>req_method = ''POST'', req_path = path, req_headers = [H_USER \<mapsto> Some u, H_DEVICE \<mapsto> Some d,
       H_TIMESTAMP \<mapsto> Some (show_int ts), H_SIGNATURE \<mapsto> Some (b64_enc E (ed_sign L key (canonical_message L ''POST'' path ts body))),
       ''content-type'' \<mapsto> Some ''application/json''], req_body = body\<rparr>"
proof -
  obtain u where u: "current_user_id c = Inr u"
    using assms by (auto simp: ds_post_def bind_res_eq_Inr split: option.splits)
  moreover have "u \<noteq> []"
    using u by (auto simp: current_user_id_def Let_def split: option.splits sum.splits if_splits)
  ultimately show thesis using assms that
    by (auto simp: ds_post_def client_canonical_message_eq Let_def split: option.splits)
qed

lemma unique_first_row:
  assumes "r \<in> set rows" "distinct (map key rows)" "P r" "\<And>x. P x \<Longrightarrow> key x = key r"
  shows "first_row P rows = Some r"
proof (cases "first_row P rows")
  case None
  with assms show ?thesis by (simp add: first_row_None)
next
  case (Some x)
  then have "x \<in> set rows" "key x = key r" using first_row_Some assms(4) by metis+
  with assms(1,2) have "x = r" unfolding distinct_map by (blast dest: inj_onD)
  with Some show ?thesis by simp
qed

lemma client_request_verified:
  assumes "lib_ok L" "b64_ok E" "ds_post L E c path body ts = Inr (url, req)" "cst_device_key c = Some key"
    and "current_user_id c = Inr user" "cst_device_id c = Some dev" "dev \<noteq> []"
    and "row \<in> set (user_devices db)" "distinct (map ud_device_id (user_devices db))" "ud_device_id row = dev"
      "ud_user_id row = user" "ud_revoked_at row = None" "ud_mls_signature_pub row = Some (ed_public L key)"
    and "0 \<le> now" "now < 2 ^ 62" "0 \<le> ts" "\<bar>now - ts\<bar> \<le> 300"
  shows "verify_request L E (Some db) (req_headers req) (req_method req) (req_path req) (req_body req) now = Inr user"
proof -
  let ?msg = "canonical_message L ''POST'' path ts body"
  let ?sig = "ed_sign L key ?msg"
  have req: "user \<noteq> []" "req = \<lparr>req_method = ''POST'', req_path = path, req_headers = [H_USER \<mapsto> Some user, H_DEVICE \<mapsto> Some dev,
      H_TIMESTAMP \<mapsto> Some (show_int ts), H_SIGNATURE \<mapsto> Some (b64_enc E ?sig), ''content-type'' \<mapsto> Some ''application/json''],
      req_body = body\<rparr>"
    using ds_post_InrE [OF assms(3)] assms(4-6) by fastforce+
  have "ts < 2 ^ 63" using assms(14-17) by simp
  then have parsed: "parse_i64 (show_int ts) = Some ts" and window: "\<not> outside_window now ts"
    using assms(14-17) within_window_iff [of now ts] parse_i64_show_int [of ts] by simp_all
  have ed: "length ?sig = 64" "length (ed_public L key) = 32" "ed_from_bytes L (ed_public L key) = Some (ed_public L key)"
      "ed_verify L (ed_public L key) ?msg ?sig"
    using assms(1) by (simp_all add: lib_ok_def ed25519_ok_def)
  have "parse_credentials E (req_headers req) now
      = Inr \<lparr>cr_user_id = user, cr_device_id = dev, cr_timestamp = ts, cr_signature = ?sig\<rparr>"
    using req(1) assms(2,7) parsed window ed(1)
    by (simp add: req(2) parse_credentials_def header_str_def H_USER_def H_DEVICE_def H_TIMESTAMP_def H_SIGNATURE_def b64_ok_def)
  moreover have "lookup_device_pubkey L (Some db) user dev = Inr (Some (ed_public L key))"
    using unique_first_row [OF assms(8,9), of "\<lambda>r. ud_device_id r = dev \<and> ud_user_id r = user"] assms(10-13) ed
    by (simp add: lookup_device_pubkey_def)
  ultimately show ?thesis using ed(4) by (simp add: verify_request_def req(2))
qed

section \<open>A concrete deployment for witnesses\<close>

definition demo_b64 :: b64 where
  "demo_b64 = \<lparr>b64_dec = (\<lambda>s. Some (as_bytes s)), b64_enc = map char_of_byte\<rparr>"

definition demo_device :: user_device where
  "demo_device = \<lparr>ud_device_id = ''d'', ud_user_id = ''u'', ud_device_name = None, ud_device_cert = None, ud_cert_issued_at = None,
     ud_cert_identity_version = None, ud_mls_signature_pub = Some (demo_public [1]), ud_revoked_at = None\<rparr>"

definition demo_user :: user_row where
  "demo_user = \<lparr>u_id = ''u'', u_email = ''u@x'', u_username = ''u'', u_preferred_name = None, u_phone = None, u_avatar_url = None,
     u_account_id_pub = None, u_identity_version = 1\<rparr>"

definition demo_main :: main_db where
  "demo_main = main_db_new\<lparr>users := [demo_user], user_devices := [demo_device],
     group_members := [\<lparr>gm_group_id = ''g'', gm_user_id = ''u'', gm_role = ''admin''\<rparr>]\<rparr>"

definition demo_client :: client_state where
  "demo_client = \<lparr>cst_delivery_url = Some ''https://ds'', cst_unlock = Some ''u'', cst_last_active_user = Inr None,
     cst_device_id = Some ''d'', cst_device_key = Some [1]\<rparr>"

lemma b64_ok_demo: "b64_ok demo_b64"
  by (simp add: b64_ok_def demo_b64_def as_bytes_def comp_def)

lemma demo_client_simps:
  "cst_device_key demo_client = Some [1]" "current_user_id demo_client = Inr ''u''" "cst_device_id demo_client = Some ''d''"
  "''d'' \<noteq> []"
  by (simp_all add: demo_client_def current_user_id_def)

lemma demo_main_simps:
  "demo_device \<in> set (user_devices demo_main)" "distinct (map ud_device_id (user_devices demo_main))"
  "ud_device_id demo_device = ''d''" "ud_user_id demo_device = ''u''" "ud_revoked_at demo_device = None"
  "ud_mls_signature_pub demo_device = Some (ed_public demo_lib [1])"
  by (simp_all add: demo_main_def demo_device_def demo_lib_def)

lemma demo_post: "\<exists>url req. ds_post demo_lib demo_b64 demo_client path body ts = Inr (url, req)"
  by (simp add: ds_post_def demo_client_def current_user_id_def Let_def)

lemma demo_verified:
  "\<exists>h. verify_request demo_lib demo_b64 (Some demo_main) h ''POST'' ''/v1/commits'' [1, 2] 1200 = Inr ''u''"
proof -
  obtain url req where req: "ds_post demo_lib demo_b64 demo_client ''/v1/commits'' [1, 2] 1000 = Inr (url, req)"
    using demo_post by blast
  have "verify_request demo_lib demo_b64 (Some demo_main) (req_headers req) (req_method req) (req_path req) (req_body req) 1200 = Inr ''u''"
    by (rule client_request_verified [OF lib_ok_demo b64_ok_demo req demo_client_simps demo_main_simps]) simp_all
  moreover have "req_method req = ''POST''" "req_path req = ''/v1/commits''" "req_body req = [1, 2]"
    by (rule ds_post_InrE [OF req], simp)+
  ultimately show ?thesis by auto
qed

section \<open>Properties\<close>



text \<open>The signed message determines the request: for methods and paths without line breaks, two requests with the same
  canonical message have the same method, path and timestamp, and the same body unless SHA-256 collides on
  the two bodies. A captured signature cannot be moved to another request.\<close>

theorem canonical_message_binds_request:
  assumes "CHR 0x0A \<notin> set m" "CHR 0x0A \<notin> set p" "CHR 0x0A \<notin> set m'" "CHR 0x0A \<notin> set p'"
    and "inj_on (sha256 L) {body, body'}"
    and "canonical_message L m p ts body = canonical_message L m' p' ts' body'"
  shows "m = m' \<and> p = p' \<and> ts = ts' \<and> body = body'"
proof -
  have "m = m'" "p = p'" "ts = ts'" "sha256 L body = sha256 L body'" using canonical_message_parts [OF assms(1-4,6)] by blast+
  then show ?thesis using inj_onD [OF assms(5), of body body'] by simp
qed

theorem canonical_message_binds_request_witness:
  "client_canonical_message demo_lib ''POST'' ''/v1/commits'' 5 [1] = canonical_message demo_lib ''POST'' ''/v1/commits'' 5 [1]
   \<and> canonical_message demo_lib ''POST'' ''/v1/commits'' 5 [1] \<noteq> canonical_message demo_lib ''POST'' ''/v1/group-info'' 5 [1]"
  using canonical_message_binds_request [of "''POST''" "''/v1/commits''" "''POST''" "''/v1/commits''" demo_lib "[1]" "[1]" 5 5]
    canonical_message_binds_request [of "''POST''" "''/v1/commits''" "''POST''" "''/v1/group-info''" demo_lib "[1]" "[1]" 5 5]
  by (auto simp: client_canonical_message_eq)

text \<open>C30. Client and server agree on the signing contract: a request that the client builds with an enrolled key reaches the
  handler as its user, provided the device row is live and holds the public half of that key and the two
  clocks are at most 300 seconds apart.\<close>

theorem client_request_accepted:
  assumes "lib_ok L" "b64_ok E" "ds_post L E c path body ts = Inr (url, req)" "cst_device_key c = Some key"
    and "current_user_id c = Inr user" "cst_device_id c = Some dev" "dev \<noteq> []"
    and "row \<in> set (user_devices db)" "distinct (map ud_device_id (user_devices db))" "ud_device_id row = dev"
      "ud_user_id row = user" "ud_revoked_at row = None" "ud_mls_signature_pub row = Some (ed_public L key)"
    and "0 \<le> now" "now < 2 ^ 62" "0 \<le> ts" "\<bar>now - ts\<bar> \<le> 300"
  shows "gate L E True now db req = Inr (Some user)"
  using client_request_verified [OF assms] by (simp add: gate_def)

theorem client_request_accepted_witness:
  "\<exists>url req. ds_post demo_lib demo_b64 demo_client ''/v1/commits'' [1, 2] 1000 = Inr (url, req)
     \<and> gate demo_lib demo_b64 True 1200 demo_main req = Inr (Some ''u'')"
proof -
  obtain url req where "ds_post demo_lib demo_b64 demo_client ''/v1/commits'' [1, 2] 1000 = Inr (url, req)"
    using demo_post by blast
  with client_request_accepted [OF lib_ok_demo b64_ok_demo this demo_client_simps demo_main_simps, of 1200] show ?thesis
    by simp
qed

text \<open>The replay window: for a server clock below \<open>2 ^ 62\<close> seconds, a timestamp passes the window check exactly if it is at most 300
  seconds away from the clock in either direction, or if it is the one value whose distance is \<open>2 ^ 63\<close>,
  for which the subtraction and the absolute value wrap to a negative number.\<close>

theorem replay_window_bounds:
  assumes "0 \<le> now" "now < 2 ^ 62" "parse_i64 s = Some ts"
  shows "\<not> outside_window now ts \<longleftrightarrow> \<bar>now - ts\<bar> \<le> 300 \<or> ts = now - 2 ^ 63"
  using within_window_iff [OF assms(1,2)] parse_i64_range [OF assms(3)] by blast

theorem replay_window_bounds_witness:
  "\<not> outside_window 1000 700 \<and> outside_window 1000 699 \<and> \<not> outside_window 1000 (1000 - 2 ^ 63)"
  using replay_window_bounds [of 1000 "''700''" 700] replay_window_bounds [of 1000 "''699''" 699]
    replay_window_bounds [of 1000 "show_int (1000 - 2 ^ 63)" "1000 - 2 ^ 63"] parse_i64_show_int [of "1000 - 2 ^ 63"]
  by (simp add: parse_i64_def parse_nat_def digit_of_def)

text \<open>Sessions: a minted token resolves to exactly the identity it was minted for up to and including its
  expiry and to nothing afterwards or once invalidated, an expired session stays dead, and no token with
  another hash changes its meaning.\<close>

theorem session_token_lifecycle:
  assumes "mint L raw user email dev ttl now store = (token, store')"
  shows "fst (resolve L token t store') = (if t \<le> min (now + ttl) (2 ^ 64 - 1)
      then Some \<lparr>sc_user_id = user, sc_email = email, sc_device_id = dev\<rparr> else None)
    \<and> (t > min (now + ttl) (2 ^ 64 - 1) \<longrightarrow> fst (resolve L token t' (snd (resolve L token t store'))) = None)
    \<and> fst (resolve L token t' (invalidate L token store')) = None
    \<and> (hash_token L other \<noteq> hash_token L token \<longrightarrow> fst (resolve L other t store') = fst (resolve L other t store))"
proof -
  define ex where "ex = min (now + ttl) (2 ^ 64 - 1)"
  have store': "store' = store(hash_token L token \<mapsto> \<lparr>sr_user_id = user, sr_email = email, sr_device_id = dev, sr_expires_at = ex\<rparr>)"
    using assms by (auto simp: mint_def Let_def sat_add_def ex_def)
  show ?thesis unfolding store' ex_def [symmetric]
    by (cases "t \<le> ex") (simp_all add: resolve_def invalidate_def Let_def split: option.split)
qed

theorem session_token_lifecycle_witness:
  "\<exists>token store. mint demo_lib [5] ''u'' ''e'' ''d'' 600 1000 Map.empty = (token, store)
     \<and> fst (resolve demo_lib token 1600 store) = Some \<lparr>sc_user_id = ''u'', sc_email = ''e'', sc_device_id = ''d''\<rparr>
     \<and> fst (resolve demo_lib token 1601 store) = None"
proof -
  obtain token store where m: "mint demo_lib [5] ''u'' ''e'' ''d'' 600 1000 Map.empty = (token, store)" by fastforce
  show ?thesis using m session_token_lifecycle [OF m, of 1600] session_token_lifecycle [OF m, of 1601] by simp
qed

end
