(* ===== verification/Delivery_Commit.thy ===== *)
theory Delivery_Commit
  imports Delivery_Auth
begin

text \<open>Commit serialisation and log retention of the delivery service: \<open>commit.rs\<close>, the group-info and welcome
  upserts it shares with \<open>writes.rs\<close>, and the \<open>submit\<close> and \<open>commits\<close> handlers of \<open>lib.rs\<close>. One transaction is one
  function on the commit-log database; a statement may fail (a constraint, or the oracle \<open>e_fails\<close>), and a
  failed transaction leaves the database as it was. The invariant and the refinement are proved over a step
  relation whose steps are single statements, so that the statements of concurrent requests interleave.\<close>

section \<open>Wire types\<close>

record welcome_body =
  wb_recipient_id :: string
  wb_recipient_device_id :: string
  wb_welcome :: string

record submit_body =
  sb_conversation_id :: string
  sb_based_on_epoch :: i64
  sb_sender_id :: string
  sb_commit :: string
  sb_added_user_id :: "string option"
  sb_added_device_ids :: "string option"
  sb_group_info :: "string option"
  sb_welcomes :: "welcome_body list"

record commit_wire =
  wi_epoch :: i64
  wi_seq :: i64
  wi_sender_id :: string
  wi_commit :: string
  wi_added_user_id :: "string option"
  wi_added_device_ids :: "string option"
  wi_created_at :: string

datatype submit_response = Accepted i64 | Rejected i64 "commit_wire list"

text \<open>The error of a failed transaction: a payload that is not base64, or a statement that failed.\<close>

datatype db_error = BadBase64 | StatementFailed

text \<open>What a transaction takes from outside: the base64 crate, \<open>datetime('now')\<close>, fresh ULIDs, and which of its
  statements fail.\<close>

record ds_env =
  e_b64 :: b64
  e_now :: string
  e_ulid :: "nat \<Rightarrow> string"
  e_fails :: "nat \<Rightarrow> bool"

section \<open>Head and catch-up\<close>

definition head_epoch_of :: "u64 option \<Rightarrow> u64" where
  "head_epoch_of max_epoch = (case max_epoch of None \<Rightarrow> 0 | Some m \<Rightarrow> m + 1)"

definition accepts :: "u64 \<Rightarrow> u64 \<Rightarrow> bool" where
  "accepts based_on_epoch head \<longleftrightarrow> based_on_epoch = head"

definition conv_rows :: "string \<Rightarrow> mls_commit_log list \<Rightarrow> mls_commit_log list" where
  "conv_rows c rows = filter (\<lambda>r. ml_conversation_id r = c) rows"

text \<open>\<open>SELECT MAX(epoch) ... WHERE conversation_id = ?1\<close>, with \<open>None\<close> for SQL NULL.\<close>

definition max_epoch :: "log_db \<Rightarrow> string \<Rightarrow> i64 option" where
  "max_epoch d c = (let es = map ml_epoch (conv_rows c (commit_log d)) in if es = [] then None else Some (Max (set es)))"

definition head_epoch :: "log_db \<Rightarrow> string \<Rightarrow> i64" where
  "head_epoch d c = sint (head_epoch_of (map_option word_of_int (max_epoch d c)))"

definition to_wire :: "b64 \<Rightarrow> mls_commit_log \<Rightarrow> commit_wire" where
  "to_wire E r = \<lparr>wi_epoch = ml_epoch r, wi_seq = ml_seq r, wi_sender_id = ml_sender_id r, wi_commit = b64_enc E (ml_commit_data r),
     wi_added_user_id = ml_added_user_id r, wi_added_device_ids = ml_added_device_ids r, wi_created_at = ml_created_at r\<rparr>"

definition fetch_commits :: "b64 \<Rightarrow> log_db \<Rightarrow> string \<Rightarrow> i64 \<Rightarrow> commit_wire list" where
  "fetch_commits E d c since =
     map (to_wire E) (sort_key ml_epoch (sort_key ml_seq (filter (\<lambda>r. ml_epoch r \<ge> since) (conv_rows c (commit_log d)))))"

section \<open>Group info and welcomes\<close>

definition upsert_group_info :: "string \<Rightarrow> string \<Rightarrow> i64 \<Rightarrow> bytes \<Rightarrow> string \<Rightarrow> mls_group_info list \<Rightarrow> mls_group_info list" where
  "upsert_group_info now c epoch gi device =
     sql_upsert (\<lambda>r. gi_conversation_id r = c)
       (\<lambda>r. if epoch > gi_epoch r
            then r\<lparr>gi_epoch := epoch, gi_group_info := gi, gi_updated_by_device_id := device, gi_updated_at := now\<rparr> else r)
       \<lparr>gi_conversation_id = c, gi_epoch = epoch, gi_group_info = gi, gi_updated_at = now, gi_updated_by_device_id = device\<rparr>"

text \<open>The conflict clause covers the recipient tuple only: a ULID that is already in use fails.\<close>

definition upsert_welcome :: "string \<Rightarrow> string \<Rightarrow> string \<Rightarrow> string \<Rightarrow> bytes \<Rightarrow> mls_welcome list \<Rightarrow> db_error + mls_welcome list" where
  "upsert_welcome ulid c recipient device blob rows =
     (if list_ex (\<lambda>r. w_id r = ulid) rows then Inl StatementFailed
      else Inr (sql_upsert
        (\<lambda>r. w_conversation_id r = c \<and> w_recipient_id r = recipient \<and> w_recipient_device_id r = Some device)
        (\<lambda>r. r\<lparr>w_welcome_data := blob, w_delivered := False\<rparr>)
        \<lparr>w_id = ulid, w_conversation_id = c, w_recipient_id = recipient, w_welcome_data = blob, w_delivered = False,
         w_recipient_device_id = Some device\<rparr> rows))"

section \<open>Submitting a commit\<close>

text \<open>The conditional \<open>INSERT\<close>, with the number of rows it affected.\<close>

definition insert_at_head :: "string \<Rightarrow> bytes \<Rightarrow> submit_body \<Rightarrow> log_db \<Rightarrow> nat \<times> log_db" where
  "insert_at_head now commit body d =
     (let c = sb_conversation_id body; e = sb_based_on_epoch body in
      if e = (case max_epoch d c of None \<Rightarrow> - 1 | Some m \<Rightarrow> m) + 1
         \<and> \<not> list_ex (\<lambda>r. ml_conversation_id r = c \<and> ml_epoch r = e) (commit_log d)
      then (1, d\<lparr>commit_log := commit_log d @
             [\<lparr>ml_seq = next_seq d, ml_conversation_id = c, ml_epoch = e, ml_sender_id = sb_sender_id body,
               ml_commit_data = commit, ml_added_user_id = sb_added_user_id body,
               ml_added_device_ids = sb_added_device_ids body, ml_created_at = now\<rparr>],
           next_seq := next_seq d + 1\<rparr>)
      else (0, d))"

fun insert_welcomes :: "ds_env \<Rightarrow> nat \<Rightarrow> string \<Rightarrow> (welcome_body \<times> bytes) list \<Rightarrow> mls_welcome list \<Rightarrow> db_error + mls_welcome list" where
  "insert_welcomes env i c [] rows = Inr rows"
| "insert_welcomes env i c ((w, blob) # ws) rows =
     (if e_fails env (3 + i) then Inl StatementFailed
      else bind_res (upsert_welcome (e_ulid env i) c (wb_recipient_id w) (wb_recipient_device_id w) blob rows)
             (insert_welcomes env (Suc i) c ws))"

definition decode_b64 :: "b64 \<Rightarrow> string \<Rightarrow> db_error + bytes" where
  "decode_b64 E s = (case b64_dec E s of None \<Rightarrow> Inl BadBase64 | Some b \<Rightarrow> Inr b)"

definition decode_opt :: "b64 \<Rightarrow> string option \<Rightarrow> db_error + bytes option" where
  "decode_opt E s = (case s of None \<Rightarrow> Inr None | Some t \<Rightarrow> bind_res (decode_b64 E t) (\<lambda>b. Inr (Some b)))"

text \<open>Statements 0 to 2 are \<open>BEGIN IMMEDIATE\<close>, the insert and the group-info upsert (or the read of the head on the
  rejecting path), then one statement per welcome, then the commit of the transaction.\<close>

definition submit_commit :: "ds_env \<Rightarrow> submit_body \<Rightarrow> log_db \<Rightarrow> (db_error + submit_response) \<times> log_db" where
  "submit_commit env body d =
     (let c = sb_conversation_id body; e = sb_based_on_epoch body in
      case bind_res (decode_b64 (e_b64 env) (sb_commit body)) (\<lambda>commit.
             bind_res (decode_opt (e_b64 env) (sb_group_info body)) (\<lambda>group_info.
             bind_res (map_res (\<lambda>w. bind_res (decode_b64 (e_b64 env) (wb_welcome w)) (\<lambda>b. Inr (w, b))) (sb_welcomes body)) (\<lambda>ws.
               Inr (commit, group_info, ws)))) of
        Inl err \<Rightarrow> (Inl err, d)
      | Inr (commit, group_info, ws) \<Rightarrow>
          if e_fails env 0 \<or> e_fails env 1 then (Inl StatementFailed, d)
          else let (affected, d1) = insert_at_head (e_now env) commit body d in
               if affected = 0
               then if e_fails env 2 \<or> e_fails env 3 \<or> e_fails env 4 then (Inl StatementFailed, d)
                    else (Inr (Rejected (head_epoch d1 c) (fetch_commits (e_b64 env) d1 c e)), d)
               else case (case group_info of
                          None \<Rightarrow> Inr d1
                        | Some gi \<Rightarrow>
                            if e_fails env 2 then Inl StatementFailed
                            else Inr (d1\<lparr>group_infos := upsert_group_info (e_now env) c (wrap_i64 (e + 1)) gi (sb_sender_id body)
                                            (group_infos d1)\<rparr>)) of
                      Inl err \<Rightarrow> (Inl err, d)
                    | Inr d2 \<Rightarrow>
                        (case insert_welcomes env 0 c ws (welcomes d2) of
                           Inl err \<Rightarrow> (Inl err, d)
                         | Inr rows \<Rightarrow>
                             if e_fails env (3 + length ws) then (Inl StatementFailed, d)
                             else (Inr (Accepted e), d2\<lparr>welcomes := rows\<rparr>)))"

section \<open>Retention\<close>

definition PRUNE_SLACK_EPOCHS :: i64 where "PRUNE_SLACK_EPOCHS = 8"
definition PRUNE_MAX_BEHIND_HEAD :: i64 where "PRUNE_MAX_BEHIND_HEAD = 512"

definition prune_floor :: "i64 option \<Rightarrow> bool \<Rightarrow> i64 \<Rightarrow> i64" where
  "prune_floor min_since all_reported head =
     (let tier1 = (case (all_reported, min_since) of
          (True, Some m) \<Rightarrow> max (wrap_i64 (m - PRUNE_SLACK_EPOCHS)) 0
        | _ \<Rightarrow> 0);
          tier2 = max (wrap_i64 (head - PRUNE_MAX_BEHIND_HEAD)) 0
      in max tier1 tier2)"

definition record_commit_since :: "string \<Rightarrow> string \<Rightarrow> string \<Rightarrow> i64 \<Rightarrow> log_db \<Rightarrow> log_db" where
  "record_commit_since c user device since d = d\<lparr>commit_since :=
     sql_upsert (\<lambda>r. cs_conversation_id r = c \<and> cs_user_id r = user \<and> cs_device_id r = device)
       (\<lambda>r. r\<lparr>cs_since_epoch := max (cs_since_epoch r) since\<rparr>)
       \<lparr>cs_conversation_id = c, cs_user_id = user, cs_device_id = device, cs_since_epoch = since\<rparr> (commit_since d)\<rparr>"

definition current_member_devices :: "main_db \<Rightarrow> string \<Rightarrow> string list" where
  "current_member_devices db c =
     remdups (map ud_device_id (filter (\<lambda>d. ud_revoked_at d = None
       \<and> (list_ex (\<lambda>m. dcm_dm_channel_id m = c \<and> dcm_user_id m = ud_user_id d) (dm_channel_members db)
          \<or> list_ex (\<lambda>m. gm_group_id m = c \<and> gm_user_id m = ud_user_id d) (group_members db)
          \<or> list_ex (\<lambda>ch. ch_id ch = c \<and> list_ex (\<lambda>m. gm_group_id m = ch_group_id ch \<and> gm_user_id m = ud_user_id d)
                (group_members db)) (channels db))) (user_devices db)))"

definition recorded_since :: "log_db \<Rightarrow> string \<Rightarrow> string \<rightharpoonup> i64" where
  "recorded_since d c = fold (\<lambda>r m. m(cs_device_id r \<mapsto> cs_since_epoch r)) (filter (\<lambda>r. cs_conversation_id r = c) (commit_since d)) Map.empty"

definition delete_commits_below :: "string \<Rightarrow> i64 \<Rightarrow> log_db \<Rightarrow> nat \<times> log_db" where
  "delete_commits_below c floor d =
     (if floor \<le> 0 then (0, d)
      else let rows = sql_delete (\<lambda>r. ml_conversation_id r = c \<and> ml_epoch r < floor) (commit_log d)
           in (length (commit_log d) - length rows, d\<lparr>commit_log := rows\<rparr>))"

record prune_report =
  pr_floor :: i64
  pr_deleted :: nat

text \<open>The loop over the member devices: the least report and whether every device reported.\<close>

fun min_reported :: "(string \<rightharpoonup> i64) \<Rightarrow> string list \<Rightarrow> i64 option \<times> bool \<Rightarrow> i64 option \<times> bool" where
  "min_reported recorded [] acc = acc"
| "min_reported recorded (d # ds) (mn, al) =
     min_reported recorded ds (case recorded d of
         Some s \<Rightarrow> (Some (case mn of None \<Rightarrow> s | Some m \<Rightarrow> min m s), al)
       | None \<Rightarrow> (mn, False))"

definition roster_floor :: "string list \<Rightarrow> (string \<rightharpoonup> i64) \<Rightarrow> i64 \<Rightarrow> i64" where
  "roster_floor members recorded head =
     (let (min_since, all_reported) = (if members = [] then (None, False) else min_reported recorded members (None, True))
      in prune_floor min_since all_reported head)"

definition prune_commit_log :: "main_db \<Rightarrow> log_db \<Rightarrow> string \<Rightarrow> prune_report \<times> log_db" where
  "prune_commit_log main log c =
     (let head = head_epoch log c;
          members = current_member_devices main c;
          recorded = recorded_since log c;
          floor = roster_floor members recorded head;
          (deleted, log') = delete_commits_below c floor log
      in (\<lparr>pr_floor = floor, pr_deleted = deleted\<rparr>, log'))"

section \<open>Handlers (lib.rs)\<close>

record app_state =
  st_db :: main_db
  st_log_db :: log_db
  st_require_auth :: bool
  st_sessions :: session_store

datatype reply =
    ErrorBody string
  | StatusOk
  | UpdatedCount nat
  | DeletedCount nat
  | SubmitReply submit_response
  | CommitsReply i64 "commit_wire list"
  | KeyPackageReply string string
  | IdentityReply i64
  | VersionConflict i64
  | ConflictBody string
  | VerifyOtpReply string string bool bool string nat

type_synonym response = "nat \<times> reply"

fun into_response :: "auth_rejection \<Rightarrow> response" where
  "into_response Unauthorized = (401, ErrorBody ''unauthorized'')"
| "into_response Forbidden = (403, ErrorBody ''forbidden'')"

definition app_error :: response where "app_error = (500, ErrorBody ''internal error'')"

text \<open>\<open>prune_ok\<close> and \<open>record_ok\<close> say whether the best-effort statements after the decision go through; their failure is
  logged and ignored.\<close>

definition submit :: "lib \<Rightarrow> ds_env \<Rightarrow> (bytes \<Rightarrow> submit_body option) \<Rightarrow> i64 \<Rightarrow> bool \<Rightarrow> request \<Rightarrow> app_state \<Rightarrow> response \<times> app_state" where
  "submit L env from_slice now prune_ok req st =
     (case (if st_require_auth st
            then bind_res (verify_request L (e_b64 env) (Some (st_db st)) (req_headers req) (req_method req) (req_path req)
                   (req_body req) now) (\<lambda>u. Inr (Some u))
            else Inr None) of
        Inl rej \<Rightarrow> (into_response rej, st)
      | Inr authed_user \<Rightarrow>
          (case from_slice (req_body req) of
             None \<Rightarrow> ((400, ErrorBody ''invalid body''), st)
           | Some parsed \<Rightarrow>
               if (case authed_user of
                     None \<Rightarrow> False
                   | Some user_id \<Rightarrow> sb_sender_id parsed \<noteq> user_id \<or> \<not> is_member (st_db st) (sb_conversation_id parsed) user_id)
               then (into_response Forbidden, st)
               else (case submit_commit env parsed (st_log_db st) of
                   (Inl err, log) \<Rightarrow> (app_error, st\<lparr>st_log_db := log\<rparr>)
                 | (Inr (Accepted e), log) \<Rightarrow>
                     ((200, SubmitReply (Accepted e)),
                      st\<lparr>st_log_db := (if prune_ok then snd (prune_commit_log (st_db st) log (sb_conversation_id parsed)) else log)\<rparr>)
                 | (Inr (Rejected h m), log) \<Rightarrow> ((409, SubmitReply (Rejected h m)), st\<lparr>st_log_db := log\<rparr>))))"

record since_query =
  q_since :: i64
  q_user_id :: "string option"
  q_device_id :: "string option"

definition commits :: "b64 \<Rightarrow> bool \<Rightarrow> bool \<Rightarrow> string \<Rightarrow> since_query \<Rightarrow> app_state \<Rightarrow> response \<times> app_state" where
  "commits E record_ok prune_ok c q st =
     (let log = (case (q_user_id q, q_device_id q) of
          (Some user_id, Some device_id) \<Rightarrow>
            if user_id \<noteq> [] \<and> device_id \<noteq> [] \<and> record_ok
            then let log1 = record_commit_since c user_id device_id (q_since q) (st_log_db st)
                 in if prune_ok then snd (prune_commit_log (st_db st) log1 c) else log1
            else st_log_db st
        | _ \<Rightarrow> st_log_db st)
      in ((200, CommitsReply (head_epoch log c) (fetch_commits E log c (q_since q))), st\<lparr>st_log_db := log\<rparr>))"

end
