(* ===== verification/Delivery_Log.thy ===== *)
theory Delivery_Log
  imports Delivery_Commit
begin

text \<open>Correctness of the commit log: submitting is atomic, the stored log refines the history of accepted commits
  under every interleaving of statements, catch-up returns exactly what is missing, and pruning never takes
  a commit that the slowest reporting member still needs.\<close>

section \<open>Submitting\<close>

lemma conv_rows_append [simp]: "conv_rows c (xs @ ys) = conv_rows c xs @ conv_rows c ys"
  by (simp add: conv_rows_def)

lemma conv_rows_single: "conv_rows c [r] = (if ml_conversation_id r = c then [r] else [])"
  by (simp add: conv_rows_def)

lemma insert_at_head_cases:
  assumes "insert_at_head now commit body d = (n, d1)"
  obtains "n = 0" "d1 = d"
  | row where "n = 1" "d1 = d\<lparr>commit_log := commit_log d @ [row], next_seq := next_seq d + 1\<rparr>"
      "ml_conversation_id row = sb_conversation_id body" "ml_epoch row = sb_based_on_epoch body"
      "ml_commit_data row = commit" "ml_sender_id row = sb_sender_id body" "ml_seq row = next_seq d"
      "sb_based_on_epoch body = (case max_epoch d (sb_conversation_id body) of None \<Rightarrow> 0 | Some m \<Rightarrow> m + 1)"
  using assms by (auto simp: insert_at_head_def Let_def split: if_splits option.splits)

text \<open>The outcomes of a submission.\<close>

lemma submit_commit_cases:
  assumes "submit_commit env body d = (res, d')"
  obtains (failed) e where "res = Inl e" "d' = d"
  | (rejected) commit where "insert_at_head (e_now env) commit body d = (0, d)" "d' = d"
      "res = Inr (Rejected (head_epoch d (sb_conversation_id body))
         (fetch_commits (e_b64 env) d (sb_conversation_id body) (sb_based_on_epoch body)))"
  | (accepted) commit d1 gi ws rows where "insert_at_head (e_now env) commit body d = (1, d1)"
      "res = Inr (Accepted (sb_based_on_epoch body))" "decode_b64 (e_b64 env) (sb_commit body) = Inr commit"
      "decode_opt (e_b64 env) (sb_group_info body) = Inr gi"
      "map_res (\<lambda>w. bind_res (decode_b64 (e_b64 env) (wb_welcome w)) (\<lambda>b. Inr (w, b))) (sb_welcomes body) = Inr ws"
      "insert_welcomes env 0 (sb_conversation_id body) ws (welcomes d) = Inr rows"
      "d' = d1\<lparr>group_infos := (case gi of None \<Rightarrow> group_infos d
           | Some b \<Rightarrow> upsert_group_info (e_now env) (sb_conversation_id body) (wrap_i64 (sb_based_on_epoch body + 1)) b
               (sb_sender_id body) (group_infos d)), welcomes := rows\<rparr>"
proof -
  show thesis
  proof (cases "bind_res (decode_b64 (e_b64 env) (sb_commit body)) (\<lambda>commit.
             bind_res (decode_opt (e_b64 env) (sb_group_info body)) (\<lambda>group_info.
             bind_res (map_res (\<lambda>w. bind_res (decode_b64 (e_b64 env) (wb_welcome w)) (\<lambda>b. Inr (w, b))) (sb_welcomes body)) (\<lambda>ws.
               Inr (commit, group_info, ws))))")
    case (Inl e)
    then have "res = Inl e" "d' = d" using assms by (simp_all add: submit_commit_def)
    then show thesis by (rule failed)
  next
    case (Inr x)
    obtain commit gi ws where x: "x = (commit, gi, ws)" by (cases x) auto
    have dec: "decode_b64 (e_b64 env) (sb_commit body) = Inr commit" "decode_opt (e_b64 env) (sb_group_info body) = Inr gi"
      "map_res (\<lambda>w. bind_res (decode_b64 (e_b64 env) (wb_welcome w)) (\<lambda>b. Inr (w, b))) (sb_welcomes body) = Inr ws"
      using Inr x by (auto simp: bind_res_eq_Inr)
    obtain n d1 where ins: "insert_at_head (e_now env) commit body d = (n, d1)" by fastforce
    note sc = assms [unfolded submit_commit_def Let_def Inr x, simplified, unfolded ins, simplified]
    show thesis
    proof (rule insert_at_head_cases [OF ins])
      assume n: "n = 0" "d1 = d"
      with sc ins show thesis by (auto split: if_splits intro: failed rejected)
    next
      fix row assume n: "n = 1" and d1: "d1 = d\<lparr>commit_log := commit_log d @ [row], next_seq := next_seq d + 1\<rparr>"
      let ?gis = "case gi of None \<Rightarrow> group_infos d | Some b \<Rightarrow> upsert_group_info (e_now env) (sb_conversation_id body)
          (wrap_i64 (sb_based_on_epoch body + 1)) b (sb_sender_id body) (group_infos d)"
      have "(\<exists>e. res = Inl e) \<and> d' = d \<or> (\<exists>rows. insert_welcomes env 0 (sb_conversation_id body) ws (welcomes d) = Inr rows
          \<and> res = Inr (Accepted (sb_based_on_epoch body)) \<and> d' = d1\<lparr>group_infos := ?gis, welcomes := rows\<rparr>)"
      proof (cases gi)
        case None
        then show ?thesis using sc n by (cases d) (auto simp: d1 split: if_splits sum.splits)
      next
        case (Some b)
        then show ?thesis using sc n by (auto simp: d1 split: if_splits sum.splits)
      qed
      then show thesis using ins n dec failed accepted by blast
    qed
  qed
qed

section \<open>Statements as steps\<close>

text \<open>The world: the two databases, the history of accepted commits, and what requests in flight hold in local
  variables: heads they have read and floors they have computed. Each rule is one statement (or one
  transaction) of one request; between the statements of a request any others may run.\<close>

record ds_world =
  dw_main :: main_db
  dw_log :: log_db
  dw_hist :: "mls_commit_log list"
  dw_heads :: "(string \<times> i64) list"
  dw_floors :: "(string \<times> i64) list"

inductive ds_reach :: "ds_world \<Rightarrow> bool" where
  init: "ds_reach \<lparr>dw_main = m, dw_log = log_db_new, dw_hist = [], dw_heads = [], dw_floors = []\<rparr>"
| submit: "ds_reach w \<Longrightarrow> submit_commit env body (dw_log w) = (res, d)
    \<Longrightarrow> ds_reach (w\<lparr>dw_log := d, dw_hist := dw_hist w @ (case res of Inr (Accepted e) \<Rightarrow> [last (commit_log d)] | _ \<Rightarrow> [])\<rparr>)"
| report: "ds_reach w \<Longrightarrow> 0 \<le> since \<Longrightarrow> since \<le> head_epoch (dw_log w) c
    \<Longrightarrow> ds_reach (w\<lparr>dw_log := record_commit_since c user device since (dw_log w)\<rparr>)"
| read_head: "ds_reach w \<Longrightarrow> ds_reach (w\<lparr>dw_heads := (c, head_epoch (dw_log w) c) # dw_heads w\<rparr>)"
| plan_prune: "ds_reach w \<Longrightarrow> (c, head) \<in> set (dw_heads w)
    \<Longrightarrow> ds_reach (w\<lparr>dw_floors := (c, roster_floor members (recorded_since (dw_log w) c) head) # dw_floors w\<rparr>)"
| prune: "ds_reach w \<Longrightarrow> (c, floor) \<in> set (dw_floors w) \<Longrightarrow> ds_reach (w\<lparr>dw_log := snd (delete_commits_below c floor (dw_log w))\<rparr>)"
| membership: "ds_reach w \<Longrightarrow> ds_reach (w\<lparr>dw_main := m\<rparr>)"
| other: "ds_reach w \<Longrightarrow> ds_reach (w\<lparr>dw_log := (dw_log w)\<lparr>group_infos := gis, welcomes := ws\<rparr>\<rparr>)"

abbreviation accepted :: "ds_world \<Rightarrow> string \<Rightarrow> mls_commit_log list" where
  "accepted w c \<equiv> conv_rows c (dw_hist w)"

text \<open>The invariant for one conversation: the accepted commits are numbered from zero without gap, the stored log
  is a suffix of them that is empty only if nothing was accepted, and no report, head read or planned
  floor is ahead of the log.\<close>

definition log_inv :: "ds_world \<Rightarrow> string \<Rightarrow> bool" where
  "log_inv w c \<longleftrightarrow> (let H = accepted w c; n = length H in
     map ml_epoch H = map int [0..<n]
     \<and> (\<exists>lo. conv_rows c (commit_log (dw_log w)) = drop lo H \<and> (lo < n \<or> n = 0))
     \<and> (\<forall>r \<in> set (commit_since (dw_log w)). cs_conversation_id r = c \<longrightarrow> 0 \<le> cs_since_epoch r \<and> cs_since_epoch r \<le> int n)
     \<and> (\<forall>h. (c, h) \<in> set (dw_heads w) \<longrightarrow> 0 \<le> h \<and> h \<le> int n)
     \<and> (\<forall>f. (c, f) \<in> set (dw_floors w) \<longrightarrow> f \<le> max 0 (int n - PRUNE_SLACK_EPOCHS)))"

lemma log_invD:
  assumes "log_inv w c"
  shows "map ml_epoch (accepted w c) = map int [0..<length (accepted w c)]"
    and "\<exists>lo. conv_rows c (commit_log (dw_log w)) = drop lo (accepted w c) \<and> (lo < length (accepted w c) \<or> accepted w c = [])"
    and "\<And>r. r \<in> set (commit_since (dw_log w)) \<Longrightarrow> cs_conversation_id r = c
      \<Longrightarrow> 0 \<le> cs_since_epoch r \<and> cs_since_epoch r \<le> int (length (accepted w c))"
    and "\<And>h. (c, h) \<in> set (dw_heads w) \<Longrightarrow> 0 \<le> h \<and> h \<le> int (length (accepted w c))"
    and "\<And>f. (c, f) \<in> set (dw_floors w) \<Longrightarrow> f \<le> max 0 (int (length (accepted w c)) - PRUNE_SLACK_EPOCHS)"
  using assms by (auto simp: log_inv_def Let_def)

lemma log_invI:
  assumes "map ml_epoch (accepted w c) = map int [0..<length (accepted w c)]"
    and "conv_rows c (commit_log (dw_log w)) = drop lo (accepted w c)" "lo < length (accepted w c) \<or> accepted w c = []"
    and "\<And>r. r \<in> set (commit_since (dw_log w)) \<Longrightarrow> cs_conversation_id r = c
      \<Longrightarrow> 0 \<le> cs_since_epoch r \<and> cs_since_epoch r \<le> int (length (accepted w c))"
    and "\<And>h. (c, h) \<in> set (dw_heads w) \<Longrightarrow> 0 \<le> h \<and> h \<le> int (length (accepted w c))"
    and "\<And>f. (c, f) \<in> set (dw_floors w) \<Longrightarrow> f \<le> max 0 (int (length (accepted w c)) - PRUNE_SLACK_EPOCHS)"
  shows "log_inv w c"
  unfolding log_inv_def Let_def using assms by auto

lemma length_accepted: "length (dw_hist w) < n \<Longrightarrow> length (accepted w c) < n"
  unfolding conv_rows_def by (rule le_less_trans [OF length_filter_le])

lemma head_word:
  assumes "0 \<le> n" "n < 2 ^ 63"
  shows "sint (word_of_int (n - 1) + 1 :: u64) = n"
proof -
  have "word_of_int (n - 1) + 1 = (word_of_int n :: u64)" by simp
  moreover have "sint (word_of_int n :: u64) = signed_take_bit 63 n" by (simp add: signed_of_int)
  moreover have "signed_take_bit 63 n = n" using assms by (intro signed_take_bit_int_eq_self) simp_all
  ultimately show ?thesis by simp
qed

lemma epochs_nth:
  assumes "map ml_epoch H = map int [0..<length H]" "i < length H"
  shows "ml_epoch (H ! i) = int i"
  using arg_cong [OF assms(1), of "\<lambda>xs. xs ! i"] assms(2) by simp

lemma max_epoch_suffix:
  assumes "map ml_epoch H = map int [0..<length H]" "conv_rows c (commit_log d) = drop lo H" "lo < length H"
  shows "max_epoch d c = Some (int (length H) - 1)"
proof -
  have eps: "map ml_epoch (drop lo H) = map int [lo..<length H]"
    using assms(1) by (metis drop_map drop_upt add_0)
  have "Max (set (map int [lo..<length H])) = int (length H) - 1"
    using assms(3) by (intro Max_eqI) (auto intro!: image_eqI [of _ _ "length H - 1"])
  moreover have "H \<noteq> []" using assms(3) by auto
  ultimately show ?thesis using assms(2,3) eps by (simp add: max_epoch_def Let_def del: map_eq_conv set_map)
qed

lemma head_epoch_inv:
  assumes "log_inv w c" "length (accepted w c) < 2 ^ 63"
  shows "head_epoch (dw_log w) c = int (length (accepted w c))"
    and "(case max_epoch (dw_log w) c of None \<Rightarrow> 0 | Some m \<Rightarrow> m + 1) = int (length (accepted w c))"
proof -
  obtain lo where lo: "conv_rows c (commit_log (dw_log w)) = drop lo (accepted w c)" "lo < length (accepted w c) \<or> accepted w c = []"
    using log_invD(2) [OF assms(1)] by blast
  have "max_epoch (dw_log w) c = (if accepted w c = [] then None else Some (int (length (accepted w c)) - 1))"
  proof (cases "accepted w c = []")
    case True
    with lo show ?thesis by (simp add: max_epoch_def)
  next
    case False
    with lo max_epoch_suffix [OF log_invD(1) [OF assms(1)] lo(1)] show ?thesis by simp
  qed
  moreover have "int (length (accepted w c)) < 2 ^ 63" using assms(2) by (metis of_nat_less_iff of_nat_numeral of_nat_power)
  ultimately show "head_epoch (dw_log w) c = int (length (accepted w c))"
      "(case max_epoch (dw_log w) c of None \<Rightarrow> 0 | Some m \<Rightarrow> m + 1) = int (length (accepted w c))"
    using head_word [of "int (length (accepted w c))"] by (simp_all add: head_epoch_def head_epoch_of_def)
qed

section \<open>Preservation\<close>

lemma recorded_since_fold:
  "fold (\<lambda>r m. m(cs_device_id r \<mapsto> cs_since_epoch r)) rows m dev = Some s
   \<Longrightarrow> m dev = Some s \<or> (\<exists>r \<in> set rows. cs_device_id r = dev \<and> cs_since_epoch r = s)"
proof (induction rows arbitrary: m)
  case (Cons r rows)
  from Cons.IH [of "m(cs_device_id r \<mapsto> cs_since_epoch r)"] Cons.prems show ?case by (auto split: if_splits)
qed simp

lemma recorded_sinceD:
  assumes "recorded_since d c dev = Some s"
  obtains r where "r \<in> set (commit_since d)" "cs_conversation_id r = c" "cs_device_id r = dev" "cs_since_epoch r = s"
  using recorded_since_fold [of "filter (\<lambda>r. cs_conversation_id r = c) (commit_since d)" Map.empty dev s] assms
  by (auto simp: recorded_since_def)

lemma min_reported_pred:
  assumes "min_reported rec ds (mn, al) = (Some m, al')" "\<And>dev s. rec dev = Some s \<Longrightarrow> P s" "\<And>x. mn = Some x \<Longrightarrow> P x"
  shows "P m"
  using assms
proof (induction ds arbitrary: mn al)
  case (Cons d ds)
  show ?case
  proof (cases "rec d")
    case None
    with Cons.IH [of mn False] Cons.prems show ?thesis by simp
  next
    case (Some s)
    have "P (case mn of None \<Rightarrow> s | Some m \<Rightarrow> min m s)"
      using Cons.prems(2) [OF Some] Cons.prems(3) by (auto simp: min_def split: option.splits)
    with Cons.IH [of "Some (case mn of None \<Rightarrow> s | Some m \<Rightarrow> min m s)" al] Cons.prems Some show ?thesis by simp
  qed
qed simp

lemma prune_floor_bound:
  assumes "min_since = None \<or> (\<exists>m. min_since = Some m \<and> 0 \<le> m \<and> m \<le> n)" "0 \<le> head" "head \<le> n" "n < 2 ^ 63"
  shows "prune_floor min_since al head \<le> max 0 (n - PRUNE_SLACK_EPOCHS)"
proof -
  have t2: "wrap_i64 (head - 512) = head - 512" using assms by (intro wrap_i64_id) simp_all
  have t1: "wrap_i64 (m - 8) = m - 8" if "0 \<le> m" "m \<le> n" for m using that assms by (intro wrap_i64_id) simp_all
  show ?thesis using assms t1
    by (auto simp: prune_floor_def Let_def PRUNE_SLACK_EPOCHS_def PRUNE_MAX_BEHIND_HEAD_def t2 split: bool.split option.split)
qed

lemma roster_floor_bound:
  assumes "\<And>dev s. rec dev = Some s \<Longrightarrow> 0 \<le> s \<and> s \<le> n" "0 \<le> head" "head \<le> n" "n < 2 ^ 63"
  shows "roster_floor members rec head \<le> max 0 (n - PRUNE_SLACK_EPOCHS)"
proof (cases "members = []")
  case True
  then show ?thesis using prune_floor_bound [of None n head False] assms(2-4) by (simp add: roster_floor_def)
next
  case False
  obtain mn al where mr: "min_reported rec members (None, True) = (mn, al)" by fastforce
  have "mn = None \<or> (\<exists>m. mn = Some m \<and> 0 \<le> m \<and> m \<le> n)"
    using min_reported_pred [of rec members None True _ al "\<lambda>s. 0 \<le> s \<and> s \<le> n"] mr assms(1) by (cases mn) auto
  with False mr prune_floor_bound [OF _ assms(2-4)] show ?thesis by (simp add: roster_floor_def)
qed

lemma filter_suffix:
  assumes "map ml_epoch H = map int [0..<length H]" "0 \<le> f"
  shows "filter (\<lambda>r. f \<le> ml_epoch r) (drop lo H) = drop (max lo (nat f)) H"
proof -
  let ?m = "max lo (nat f)"
  have split: "drop lo H = take (?m - lo) (drop lo H) @ drop ?m H"
    using append_take_drop_id [of "?m - lo" "drop lo H"] by simp
  have "filter (\<lambda>r. f \<le> ml_epoch r) (take (?m - lo) (drop lo H)) = []"
  proof -
    have "ml_epoch r < f" if "r \<in> set (take (?m - lo) (drop lo H))" for r
    proof -
      obtain i where i: "i < length (take (?m - lo) (drop lo H))" "r = take (?m - lo) (drop lo H) ! i"
        using \<open>r \<in> _\<close> by (metis in_set_conv_nth)
      then have l: "i < ?m - lo" "lo + i < length H" by auto
      then have "r = H ! (lo + i)" using i by simp
      with l epochs_nth [OF assms(1), of "lo + i"] show ?thesis by auto
    qed
    then show ?thesis by (auto simp: filter_empty_conv not_le)
  qed
  moreover have "filter (\<lambda>r. f \<le> ml_epoch r) (drop ?m H) = drop ?m H"
  proof -
    have "f \<le> ml_epoch r" if "r \<in> set (drop ?m H)" for r
    proof -
      obtain i where i: "i < length (drop ?m H)" "r = drop ?m H ! i"
        using \<open>r \<in> _\<close> by (metis in_set_conv_nth)
      then have l: "?m + i < length H" by simp
      then have "r = H ! (?m + i)" using i(2) nth_drop [of ?m H i, OF less_imp_le [OF add_lessD1]] by metis
      with l epochs_nth [OF assms(1), of "?m + i"] show ?thesis by auto
    qed
    then show ?thesis by (simp add: filter_id_conv)
  qed
  ultimately show ?thesis unfolding filter_append arg_cong [OF split, of "filter (\<lambda>r. f \<le> ml_epoch r)"] by simp
qed

lemma conv_rows_delete:
  "conv_rows c' (sql_delete (\<lambda>r. ml_conversation_id r = c \<and> ml_epoch r < f) rows)
   = (if c' = c then filter (\<lambda>r. f \<le> ml_epoch r) (conv_rows c rows) else conv_rows c' rows)"
  by (auto simp: conv_rows_def sql_delete_def not_less intro!: filter_cong)

lemma last_accepted:
  assumes "insert_at_head now commit body d = (1, d1)" "commit_log d' = commit_log d1"
  shows "ml_conversation_id (last (commit_log d')) = sb_conversation_id body"
    and "ml_epoch (last (commit_log d')) = sb_based_on_epoch body"
    and "commit_log d' = commit_log d @ [last (commit_log d')]"
  by (rule insert_at_head_cases [OF assms(1)]; use assms(2) in simp)+

lemma log_inv_submit:
  assumes "log_inv w c" "submit_commit env body (dw_log w) = (res, d)"
    and "length (dw_hist w) < 2 ^ 63"
  shows "log_inv (w\<lparr>dw_log := d, dw_hist := dw_hist w @ (case res of Inr (Accepted e) \<Rightarrow> [last (commit_log d)] | _ \<Rightarrow> [])\<rparr>) c"
  using assms(2)
proof (cases rule: submit_commit_cases)
  case (accepted commit d1 gi ws rows)
  let ?row = "last (commit_log d)"
  have len: "length (accepted w c) < 2 ^ 63"
    using assms(3) by (rule length_accepted)
  have d: "commit_log d = commit_log d1" "commit_since d = commit_since (dw_log w)"
    using accepted by (auto elim: insert_at_head_cases)
  note row = last_accepted [OF accepted(1) d(1)]
  have at: "sb_based_on_epoch body = (case max_epoch (dw_log w) (sb_conversation_id body) of None \<Rightarrow> 0 | Some m \<Rightarrow> m + 1)"
    using accepted(1) by (auto elim: insert_at_head_cases)
  show ?thesis
  proof (cases "sb_conversation_id body = c")
    case True
    have ep: "ml_epoch ?row = int (length (accepted w c))"
      using row(2) at True head_epoch_inv(2) [OF assms(1) len] by simp
    obtain lo where lo: "conv_rows c (commit_log (dw_log w)) = drop lo (accepted w c)" "lo < length (accepted w c) \<or> accepted w c = []"
      using log_invD(2) [OF assms(1)] by blast
    have "conv_rows c (commit_log d) = drop (if accepted w c = [] then 0 else lo) (accepted w c @ [?row])"
      using lo row(1) True by (subst row(3)) (auto simp: conv_rows_single)
    moreover have "map ml_epoch (accepted w c @ [?row]) = map int [0..<length (accepted w c @ [?row])]"
      using log_invD(1) [OF assms(1)] ep by simp
    moreover have "0 \<le> cs_since_epoch r \<and> cs_since_epoch r \<le> int (length (accepted w c @ [?row]))"
      if "r \<in> set (commit_since d)" "cs_conversation_id r = c" for r
      using log_invD(3) [OF assms(1), of r] that by (simp add: d(2))
    moreover have "0 \<le> h \<and> h \<le> int (length (accepted w c @ [?row]))" if "(c, h) \<in> set (dw_heads w)" for h
      using log_invD(4) [OF assms(1) that] by simp
    moreover have "f \<le> max 0 (int (length (accepted w c @ [?row])) - PRUNE_SLACK_EPOCHS)" if "(c, f) \<in> set (dw_floors w)" for f
      using log_invD(5) [OF assms(1) that] by simp
    ultimately show ?thesis
      using row(1) True accepted(2) lo(2) less_SucI
      by (intro log_invI [where lo = "if accepted w c = [] then 0 else lo"]) (auto simp: conv_rows_single)
  next
    case False
    then have "conv_rows c (commit_log d) = conv_rows c (commit_log (dw_log w))"
      using row(1) by (subst row(3)) (simp add: conv_rows_single)
    with False show ?thesis using assms(1) row(1) accepted(2)
      by (simp add: log_inv_def Let_def conv_rows_single d(2))
  qed
qed (use assms(1) in simp_all)

lemma log_inv_prune:
  assumes "log_inv w c" "(c', f) \<in> set (dw_floors w)"
  shows "log_inv (w\<lparr>dw_log := snd (delete_commits_below c' f (dw_log w))\<rparr>) c"
proof (cases "0 < f \<and> c' = c")
  case True
  let ?H = "accepted w c"
  obtain lo where lo: "conv_rows c (commit_log (dw_log w)) = drop lo ?H" "lo < length ?H \<or> ?H = []"
    using log_invD(2) [OF assms(1)] by blast
  have "f \<le> max 0 (int (length ?H) - 8)" using log_invD(5) [OF assms(1)] assms(2) True by (simp add: PRUNE_SLACK_EPOCHS_def)
  with True have "nat f < length ?H" by (auto simp: max_def split: if_splits)
  with lo have "max lo (nat f) < length ?H" by auto
  moreover have "conv_rows c (commit_log (snd (delete_commits_below c' f (dw_log w)))) = drop (max lo (nat f)) ?H"
    using True lo filter_suffix [OF log_invD(1) [OF assms(1)], of f lo]
    by (simp add: delete_commits_below_def Let_def conv_rows_delete)
  ultimately show ?thesis using assms(1) True
    by (auto simp: log_inv_def Let_def delete_commits_below_def)
next
  case False
  then have "conv_rows c (commit_log (snd (delete_commits_below c' f (dw_log w)))) = conv_rows c (commit_log (dw_log w))"
    by (auto simp: delete_commits_below_def Let_def conv_rows_delete)
  with assms(1) show ?thesis by (simp add: log_inv_def Let_def delete_commits_below_def)
qed

lemma log_inv_report:
  assumes "log_inv w c" "0 \<le> since" "since \<le> head_epoch (dw_log w) c'" "length (dw_hist w) < 2 ^ 63" "log_inv w c'"
  shows "log_inv (w\<lparr>dw_log := record_commit_since c' user dev since (dw_log w)\<rparr>) c"
proof -
  have "length (accepted w c') < 2 ^ 63" using assms(4) by (rule length_accepted)
  then have since: "since \<le> int (length (accepted w c'))" using head_epoch_inv(1) [OF assms(5)] assms(3) by simp
  have "0 \<le> cs_since_epoch r \<and> cs_since_epoch r \<le> int (length (accepted w c))"
    if "r \<in> set (commit_since (record_commit_since c' user dev since (dw_log w)))" "cs_conversation_id r = c" for r
    using that(1) unfolding record_commit_since_def
    by (simp, elim set_sql_upsertE) (use that(2) since assms(2) log_invD(3) [OF assms(1)] in \<open>auto simp: max_def\<close>)
  then show ?thesis using assms(1) by (simp add: log_inv_def Let_def record_commit_since_def)
qed

lemma log_inv_reachable: "ds_reach w \<Longrightarrow> length (dw_hist w) < 2 ^ 63 \<Longrightarrow> log_inv w c"
proof (induction arbitrary: c rule: ds_reach.induct)
  case (init m)
  show ?case by (rule log_invI [where lo = 0]) (simp_all add: log_db_new_def conv_rows_def)
next
  case (submit w env body res d)
  have "length (dw_hist w) < 2 ^ 63" using submit.prems by simp
  with log_inv_submit [OF submit.IH submit.hyps(2)] show ?case by blast
next
  case (report w since c' user device)
  then have len: "length (dw_hist w) < 2 ^ 63" by simp
  show ?case by (rule log_inv_report [OF report.IH [OF len] report.hyps(2,3) len report.IH [OF len]])
next
  case (read_head w c')
  have "length (accepted w c') < 2 ^ 63" using read_head.prems by (intro length_accepted) simp
  moreover have len: "length (dw_hist w) < 2 ^ 63" using read_head.prems by simp
  ultimately have "head_epoch (dw_log w) c' = int (length (accepted w c'))" using head_epoch_inv(1) [OF read_head.IH] by blast
  with read_head.IH [OF len] show ?case by (auto simp: log_inv_def Let_def)
next
  case (plan_prune w c' head members)
  then have len: "length (dw_hist w) < 2 ^ 63" by simp
  note inv = plan_prune.IH [OF len, of c']
  have "length (accepted w c') < 2 ^ 63" using plan_prune.prems by (intro length_accepted) simp
  then have "int (length (accepted w c')) < 2 ^ 63" by (metis of_nat_less_iff of_nat_numeral of_nat_power)
  then have "roster_floor members (recorded_since (dw_log w) c') head \<le> max 0 (int (length (accepted w c')) - PRUNE_SLACK_EPOCHS)"
    using log_invD(4) [OF inv plan_prune.hyps(2)] log_invD(3) [OF inv]
    by (intro roster_floor_bound) (auto elim!: recorded_sinceD)
  with plan_prune.IH [OF len] show ?case by (auto simp: log_inv_def Let_def)
next
  case (prune w c' floor)
  then have len: "length (dw_hist w) < 2 ^ 63" by simp
  show ?case by (rule log_inv_prune [OF prune.IH [OF len] prune.hyps(2)])
qed (auto simp: log_inv_def Let_def)

section \<open>Catch-up, welcomes and floors\<close>

text \<open>\<open>ORDER BY epoch ASC, seq ASC\<close> keeps rows whose epochs increase.\<close>

lemma sort_increasing_epochs:
  assumes "map ml_epoch rows = map int [lo..<hi]"
  shows "sort_key ml_epoch (sort_key ml_seq (filter P rows)) = filter P rows"
proof -
  let ?xs = "filter P rows"
  have "distinct (map ml_epoch rows)" "sorted (map ml_epoch rows)"
    unfolding assms(1) by (simp_all add: distinct_map sorted_map sorted_wrt_upt)
  then have xs: "distinct (map ml_epoch ?xs)" "sorted (map ml_epoch ?xs)"
    by (simp_all add: distinct_map_filter sorted_filter)
  have sets: "set (sort_key ml_epoch (sort_key ml_seq ?xs)) = set ?xs" by simp
  have "distinct (map ml_epoch (sort_key ml_epoch (sort_key ml_seq ?xs)))"
    using xs(1) by (simp add: distinct_map)
  then show ?thesis
    using xs sets by (intro map_sorted_distinct_set_unique [where f = ml_epoch]) (simp_all add: distinct_map)
qed

lemma fetch_commits_sorted:
  assumes "map ml_epoch rows = map int [lo..<hi]" "conv_rows c (commit_log d) = rows"
  shows "fetch_commits E d c since = map (to_wire E) (filter (\<lambda>r. since \<le> ml_epoch r) rows)"
  using sort_increasing_epochs [OF assms(1)] assms(2) by (simp add: fetch_commits_def)

lemma fetch_commits_inv:
  assumes "log_inv w c" "0 \<le> since"
  shows "\<exists>lo. conv_rows c (commit_log (dw_log w)) = drop lo (accepted w c) \<and> (accepted w c \<noteq> [] \<longrightarrow> lo < length (accepted w c))
    \<and> fetch_commits E (dw_log w) c since = map (to_wire E) (drop (max lo (nat since)) (accepted w c))"
proof -
  obtain lo where lo: "conv_rows c (commit_log (dw_log w)) = drop lo (accepted w c)" "lo < length (accepted w c) \<or> accepted w c = []"
    using log_invD(2) [OF assms(1)] by blast
  have "map ml_epoch (drop lo (accepted w c)) = map int [lo..<length (accepted w c)]"
    using log_invD(1) [OF assms(1)] by (metis drop_map drop_upt add_0)
  from fetch_commits_sorted [OF this lo(1)] filter_suffix [OF log_invD(1) [OF assms(1)] assms(2), of lo]
  show ?thesis using lo by (intro exI [of _ lo]) auto
qed

text \<open>ULIDs that are new and pairwise different, and a run without failing statements.\<close>

definition ulids_fresh :: "ds_env \<Rightarrow> mls_welcome list \<Rightarrow> bool" where
  "ulids_fresh env rows \<longleftrightarrow> inj (e_ulid env) \<and> range (e_ulid env) \<inter> w_id ` set rows = {}"

definition no_faults :: "ds_env \<Rightarrow> bool" where
  "no_faults env \<longleftrightarrow> (\<forall>i. \<not> e_fails env i)"

lemma w_id_upsert:
  "upsert_welcome u c rc dv b rows = Inr rows' \<Longrightarrow> w_id ` set rows' \<subseteq> insert u (w_id ` set rows)"
  by (auto simp: upsert_welcome_def elim!: set_sql_upsertE split: if_splits)

lemma insert_welcomes_ok:
  assumes "\<And>i. \<not> e_fails env i" "inj (e_ulid env)" "\<And>j. i \<le> j \<Longrightarrow> e_ulid env j \<notin> w_id ` set rows"
  shows "\<exists>rows'. insert_welcomes env i c ws rows = Inr rows'"
  using assms(3)
proof (induction ws arbitrary: i rows)
  case (Cons x ws)
  obtain w b where x: "x = (w, b)" by fastforce
  have "e_ulid env i \<notin> w_id ` set rows" using Cons.prems by blast
  then obtain rows1 where r1: "upsert_welcome (e_ulid env i) c (wb_recipient_id w) (wb_recipient_device_id w) b rows = Inr rows1"
    by (force simp: upsert_welcome_def list_ex_iff)
  have "e_ulid env j \<notin> w_id ` set rows1" if "Suc i \<le> j" for j
  proof -
    have "e_ulid env j \<noteq> e_ulid env i" using that injD [OF assms(2), of j i] by auto
    moreover have "e_ulid env j \<notin> w_id ` set rows" using Cons.prems [of j] that by simp
    ultimately show ?thesis using w_id_upsert [OF r1] by blast
  qed
  from Cons.IH [OF this] r1 show ?case by (simp add: x assms(1))
qed simp

text \<open>After the loop every recipient has an undelivered welcome from the bundle.\<close>

definition welcomed :: "string \<Rightarrow> (welcome_body \<times> bytes) list \<Rightarrow> welcome_body \<Rightarrow> mls_welcome list \<Rightarrow> bool" where
  "welcomed c ws w rows \<longleftrightarrow> (\<exists>r \<in> set rows. w_conversation_id r = c \<and> w_recipient_id r = wb_recipient_id w
     \<and> w_recipient_device_id r = Some (wb_recipient_device_id w) \<and> \<not> w_delivered r
     \<and> (\<exists>(w', b) \<in> set ws. wb_recipient_id w' = wb_recipient_id w \<and> wb_recipient_device_id w' = wb_recipient_device_id w
          \<and> w_welcome_data r = b))"

lemma upsert_welcome_row:
  assumes "upsert_welcome u c rc dv b rows = Inr rows'"
  shows "\<exists>r \<in> set rows'. w_conversation_id r = c \<and> w_recipient_id r = rc \<and> w_recipient_device_id r = Some dv
    \<and> \<not> w_delivered r \<and> w_welcome_data r = b"
proof (cases "list_ex (\<lambda>r. w_conversation_id r = c \<and> w_recipient_id r = rc \<and> w_recipient_device_id r = Some dv) rows")
  case True
  then obtain r where "r \<in> set rows" "w_conversation_id r = c \<and> w_recipient_id r = rc \<and> w_recipient_device_id r = Some dv"
    by (auto simp: list_ex_iff)
  with assms True show ?thesis
    by (intro bexI [of _ "r\<lparr>w_welcome_data := b, w_delivered := False\<rparr>"])
      (auto simp: upsert_welcome_def sql_upsert_def sql_update_def split: if_splits)
next
  case False
  with assms show ?thesis by (auto simp: upsert_welcome_def sql_upsert_def split: if_splits)
qed

lemma welcomed_upsert_same:
  assumes "upsert_welcome u c (wb_recipient_id w') (wb_recipient_device_id w') b rows = Inr rows'" "(w', b) \<in> set ws"
    and "wb_recipient_id w' = wb_recipient_id w" "wb_recipient_device_id w' = wb_recipient_device_id w"
  shows "welcomed c ws w rows'"
proof -
  obtain r where r: "r \<in> set rows'" "w_conversation_id r = c" "w_recipient_id r = wb_recipient_id w'"
      "w_recipient_device_id r = Some (wb_recipient_device_id w')" "\<not> w_delivered r" "w_welcome_data r = b"
    using upsert_welcome_row [OF assms(1)] by blast
  show ?thesis unfolding welcomed_def
    by (rule bexI [OF _ r(1)], intro conjI, use r assms(3,4) in simp_all) (rule bexI [OF _ assms(2)], use assms(3,4) in simp)
qed

lemma welcomed_upsert:
  assumes "upsert_welcome u c (wb_recipient_id w') (wb_recipient_device_id w') b rows = Inr rows'" "welcomed c ws w rows" "(w', b) \<in> set ws"
  shows "welcomed c ws w rows'"
proof (cases "wb_recipient_id w' = wb_recipient_id w \<and> wb_recipient_device_id w' = wb_recipient_device_id w")
  case True
  with welcomed_upsert_same [OF assms(1,3)] show ?thesis by simp
next
  case False
  have "r \<in> set rows'" if "r \<in> set rows" "w_recipient_id r = wb_recipient_id w" "w_recipient_device_id r = Some (wb_recipient_device_id w)" for r
    using assms(1) that False by (auto simp: upsert_welcome_def sql_upsert_def sql_update_def split: if_splits)
  with assms(2) show ?thesis unfolding welcomed_def by blast
qed

lemma insert_welcomes_welcomed:
  assumes "insert_welcomes env i c ws rows = Inr rows'" "set ws \<subseteq> set all" "welcomed c all w rows \<or> w \<in> fst ` set ws"
  shows "welcomed c all w rows'"
  using assms
proof (induction ws arbitrary: i rows)
  case (Cons x ws)
  obtain w' b where x: "x = (w', b)" by fastforce
  obtain rows1 where r1: "upsert_welcome (e_ulid env i) c (wb_recipient_id w') (wb_recipient_device_id w') b rows = Inr rows1"
      "insert_welcomes env (Suc i) c ws rows1 = Inr rows'"
    using Cons.prems(1) by (auto simp: x bind_res_eq_Inr split: if_splits)
  have mem: "(w', b) \<in> set all" using Cons.prems(2) x by simp
  have "welcomed c all w rows1 \<or> w \<in> fst ` set ws"
  proof (cases "w = w'")
    case True
    with welcomed_upsert_same [OF r1(1) mem] show ?thesis by simp
  next
    case False
    with Cons.prems(3) x welcomed_upsert [OF r1(1) _ mem] show ?thesis by auto
  qed
  with Cons.IH [OF r1(2)] Cons.prems(2) show ?case by simp
qed simp

lemma group_info_upsert:
  "\<exists>r \<in> set (upsert_group_info now c e gi dev rows). gi_conversation_id r = c \<and> e \<le> gi_epoch r"
proof (cases "list_ex (\<lambda>r. gi_conversation_id r = c) rows")
  case True
  then obtain r where r: "r \<in> set rows" "gi_conversation_id r = c" by (auto simp: list_ex_iff)
  let ?f = "\<lambda>r. if e > gi_epoch r then r\<lparr>gi_epoch := e, gi_group_info := gi, gi_updated_by_device_id := dev, gi_updated_at := now\<rparr> else r"
  from r True have "?f r \<in> set (upsert_group_info now c e gi dev rows)"
    unfolding upsert_group_info_def sql_upsert_def sql_update_def by (auto intro!: image_eqI [of _ _ r])
  with r show ?thesis by (intro bexI [of _ "?f r"]) auto
qed (simp add: upsert_group_info_def sql_upsert_def)

lemma submit_at_head:
  assumes "no_faults env" "ulids_fresh env (welcomes d)" "decode_b64 (e_b64 env) (sb_commit body) = Inr commit"
    and "decode_opt (e_b64 env) (sb_group_info body) = Inr gi"
    and "map_res (\<lambda>w. bind_res (decode_b64 (e_b64 env) (wb_welcome w)) (\<lambda>b. Inr (w, b))) (sb_welcomes body) = Inr ws"
  shows "fst (submit_commit env body d) =
    (if fst (insert_at_head (e_now env) commit body d) = 0
     then Inr (Rejected (head_epoch d (sb_conversation_id body))
       (fetch_commits (e_b64 env) d (sb_conversation_id body) (sb_based_on_epoch body)))
     else Inr (Accepted (sb_based_on_epoch body)))"
proof -
  obtain n d1 where ins: "insert_at_head (e_now env) commit body d = (n, d1)" by fastforce
  have w1: "welcomes d1 = welcomes d" "n = 0 \<longrightarrow> d1 = d" by (rule insert_at_head_cases [OF ins]; simp)+
  obtain rows where rows: "insert_welcomes env 0 (sb_conversation_id body) ws (welcomes d) = Inr rows"
  proof -
    have "e_ulid env j \<notin> w_id ` set (welcomes d)" for j
      using assms(2) rangeI [of "e_ulid env" j] unfolding ulids_fresh_def by blast
    then have "\<exists>rows. insert_welcomes env 0 (sb_conversation_id body) ws (welcomes d) = Inr rows"
      using assms(1,2) by (intro insert_welcomes_ok) (simp_all add: no_faults_def ulids_fresh_def)
    then show thesis using that by blast
  qed
  have nf: "e_fails env i = False" for i using assms(1) by (simp add: no_faults_def)
  note sc = submit_commit_def [of env body d, unfolded Let_def assms(3-5) bind_res_simps sum.case prod.case ins nf simp_thms if_False]
  show ?thesis
  proof (cases "n = 0")
    case True
    with w1 show ?thesis unfolding sc ins by simp
  next
    case False
    with w1(1) rows show ?thesis unfolding sc ins by (cases gi) simp_all
  qed
qed

lemma stored_epoch_below:
  assumes "log_inv w c" "r \<in> set (conv_rows c (commit_log (dw_log w)))"
  shows "ml_epoch r < int (length (accepted w c))"
proof -
  obtain lo where "conv_rows c (commit_log (dw_log w)) = drop lo (accepted w c)" using log_invD(2) [OF assms(1)] by blast
  with assms(2) have "r \<in> set (accepted w c)" by (auto dest: in_set_dropD)
  then obtain i where "i < length (accepted w c)" "r = accepted w c ! i" by (metis in_set_conv_nth)
  with epochs_nth [OF log_invD(1) [OF assms(1)]] show ?thesis by simp
qed

lemma insert_decision:
  assumes "log_inv w (sb_conversation_id body)" "length (accepted w (sb_conversation_id body)) < 2 ^ 63"
  shows "fst (insert_at_head now commit body (dw_log w)) = 0
    \<longleftrightarrow> sb_based_on_epoch body \<noteq> int (length (accepted w (sb_conversation_id body)))"
proof -
  have "\<not> list_ex (\<lambda>r. ml_conversation_id r = sb_conversation_id body \<and> ml_epoch r = int (length (accepted w (sb_conversation_id body))))
      (commit_log (dw_log w))"
    using stored_epoch_below [OF assms(1)] by (fastforce simp: list_ex_iff conv_rows_def)
  moreover have "(case max_epoch (dw_log w) (sb_conversation_id body) of None \<Rightarrow> - 1 | Some m \<Rightarrow> m) + 1
      = int (length (accepted w (sb_conversation_id body)))"
    using head_epoch_inv(2) [OF assms] by (auto split: option.splits)
  ultimately show ?thesis by (auto simp: insert_at_head_def Let_def)
qed

lemma min_reported_False: "min_reported rec ds (y, False) \<noteq> (z, True)"
  by (induction ds arbitrary: y) (auto split: option.splits)

lemma min_reported_le:
  assumes "min_reported rec ds (mn, al) = (Some m, True)" "d \<in> set ds \<or> (\<exists>x. mn = Some x \<and> x \<le> e)"
    and "case rec d of None \<Rightarrow> True | Some s \<Rightarrow> s \<le> e"
  shows "m \<le> e"
  using assms(1,2)
proof (induction ds arbitrary: mn al)
  case (Cons x ds)
  show ?case
  proof (cases "rec x")
    case None
    with Cons.prems(1) min_reported_False show ?thesis by fastforce
  next
    case (Some s)
    let ?v = "case mn of None \<Rightarrow> s | Some m \<Rightarrow> min m s"
    have "min_reported rec ds (Some ?v, al) = (Some m, True)" using Cons.prems(1) Some by simp
    moreover have "d \<in> set ds \<or> (\<exists>y. Some ?v = Some y \<and> y \<le> e)"
      using Cons.prems(2) Some assms(3) by (auto split: option.splits)
    ultimately show ?thesis by (rule Cons.IH)
  qed
qed auto

lemma roster_floor_le:
  assumes "d \<in> set members" "case rec d of None \<Rightarrow> True | Some s \<Rightarrow> s \<le> e" "head - PRUNE_MAX_BEHIND_HEAD \<le> e" "0 \<le> e"
    and "\<And>dev s. rec dev = Some s \<Longrightarrow> 0 \<le> s \<and> s < 2 ^ 63" "0 \<le> head" "head < 2 ^ 63"
  shows "roster_floor members rec head \<le> e"
proof -
  obtain mn al where mr: "min_reported rec members (None, True) = (mn, al)" by fastforce
  have low: "case mn of None \<Rightarrow> True | Some m \<Rightarrow> al \<longrightarrow> m \<le> e"
    using min_reported_le [of rec members None True _ d e] mr assms(1,2) by (auto split: option.split)
  have range: "mn = Some m \<Longrightarrow> 0 \<le> m \<and> m < 2 ^ 63" for m
    using min_reported_pred [of rec members None True m al "\<lambda>s. 0 \<le> s \<and> s < 2 ^ 63"] mr assms(5) by simp
  have w1: "mn = Some m \<Longrightarrow> wrap_i64 (m - 8) = m - 8" for m using range [of m] by (intro wrap_i64_id) simp_all
  have w2: "wrap_i64 (head - 512) = head - 512" using assms(6,7) by (intro wrap_i64_id) simp_all
  show ?thesis using assms(1,3,4) mr low w1
    by (cases mn; cases al) (auto simp: roster_floor_def prune_floor_def PRUNE_SLACK_EPOCHS_def PRUNE_MAX_BEHIND_HEAD_def w2)
qed

lemma roster_floor_ge: "wrap_i64 (head - PRUNE_MAX_BEHIND_HEAD) \<le> roster_floor members rec head"
  by (auto simp: roster_floor_def prune_floor_def Let_def le_max_iff_disj split: prod.split)

section \<open>Handlers as sequences of steps\<close>

lemma prune_steps:
  assumes "ds_reach w"
  shows "\<exists>w'. ds_reach w' \<and> dw_log w' = snd (prune_commit_log m (dw_log w) c) \<and> dw_main w' = dw_main w \<and> dw_hist w' = dw_hist w"
proof -
  let ?h = "head_epoch (dw_log w) c"
  let ?f = "roster_floor (current_member_devices m c) (recorded_since (dw_log w) c) ?h"
  let ?w1 = "w\<lparr>dw_heads := (c, ?h) # dw_heads w\<rparr>"
  let ?w2 = "?w1\<lparr>dw_floors := (c, ?f) # dw_floors w\<rparr>"
  have "ds_reach ?w1" using assms by (rule ds_reach.read_head)
  then have "ds_reach ?w2" using ds_reach.plan_prune [of ?w1 c ?h "current_member_devices m c"] by simp
  then have "ds_reach (?w2\<lparr>dw_log := snd (delete_commits_below c ?f (dw_log w))\<rparr>)"
    using ds_reach.prune [of ?w2 c ?f] by simp
  moreover have "snd (prune_commit_log m (dw_log w) c) = snd (delete_commits_below c ?f (dw_log w))"
    by (simp add: prune_commit_log_def Let_def split: prod.split)
  ultimately show ?thesis by force
qed

definition decided :: "bool \<Rightarrow> string \<Rightarrow> app_state \<Rightarrow> db_error + submit_response \<Rightarrow> log_db \<Rightarrow> response \<times> app_state" where
  "decided pok c st res log = (case res of
       Inl err \<Rightarrow> (app_error, st\<lparr>st_log_db := log\<rparr>)
     | Inr (Accepted e) \<Rightarrow> ((200, SubmitReply (Accepted e)),
         st\<lparr>st_log_db := (if pok then snd (prune_commit_log (st_db st) log c) else log)\<rparr>)
     | Inr (Rejected h m) \<Rightarrow> ((409, SubmitReply (Rejected h m)), st\<lparr>st_log_db := log\<rparr>))"

lemma into_response_code: "fst (into_response rej) \<in> {401, 403}"
  by (cases rej) simp_all

lemma submit_handler_cases:
  assumes "submit L env from_slice now pok req st = (resp, st')"
  obtains (refused) "st' = st" "fst resp \<in> {400, 401, 403}"
  | (reached) parsed res log where "from_slice (req_body req) = Some parsed" "submit_commit env parsed (st_log_db st) = (res, log)"
      "(resp, st') = decided pok (sb_conversation_id parsed) st res log"
      "st_require_auth st \<longrightarrow> verify_request L (e_b64 env) (Some (st_db st)) (req_headers req) (req_method req) (req_path req)
         (req_body req) now = Inr (sb_sender_id parsed) \<and> is_member (st_db st) (sb_conversation_id parsed) (sb_sender_id parsed)"
proof -
  let ?auth = "if st_require_auth st then bind_res (verify_request L (e_b64 env) (Some (st_db st)) (req_headers req) (req_method req)
      (req_path req) (req_body req) now) (\<lambda>u. Inr (Some u)) else Inr None"
  show thesis
  proof (cases ?auth)
    case (Inl rej)
    then have "st' = st" "resp = into_response rej" using assms by (simp_all add: submit_def)
    then show thesis using refused into_response_code by blast
  next
    case (Inr authed)
    show thesis
    proof (cases "from_slice (req_body req)")
      case None
      with Inr have "st' = st" "fst resp = 400" using assms by (auto simp: submit_def)
      then show thesis using refused by blast
    next
      case (Some parsed)
      obtain res log where sub: "submit_commit env parsed (st_log_db st) = (res, log)" by fastforce
      let ?bad = "case authed of None \<Rightarrow> False
          | Some user_id \<Rightarrow> sb_sender_id parsed \<noteq> user_id \<or> \<not> is_member (st_db st) (sb_conversation_id parsed) user_id"
      show thesis
      proof (cases ?bad)
        case True
        with Inr Some have "st' = st" "resp = into_response Forbidden" using assms by (simp_all add: submit_def)
        then show thesis using refused into_response_code by blast
      next
        case False
        have "(resp, st') = decided pok (sb_conversation_id parsed) st res log"
          using assms Inr Some False sub
          by (cases res) (simp_all add: submit_def decided_def split: submit_response.split)
        moreover have "st_require_auth st \<longrightarrow> verify_request L (e_b64 env) (Some (st_db st)) (req_headers req) (req_method req)
            (req_path req) (req_body req) now = Inr (sb_sender_id parsed) \<and> is_member (st_db st) (sb_conversation_id parsed) (sb_sender_id parsed)"
          using Inr False by (auto simp: bind_res_eq_Inr)
        ultimately show thesis using reached Some sub by blast
      qed
    qed
  qed
qed

lemma submit_steps:
  assumes "ds_reach w" "dw_log w = st_log_db st" "dw_main w = st_db st" "submit L env from_slice now pok req st = (resp, st')"
  shows "\<exists>w'. ds_reach w' \<and> dw_log w' = st_log_db st' \<and> dw_main w' = st_db st'
    \<and> (if fst resp = 200 then \<exists>row. dw_hist w' = dw_hist w @ [row] else dw_hist w' = dw_hist w)"
  using assms(4)
proof (cases rule: submit_handler_cases)
  case refused
  with assms(1-3) show ?thesis by auto
next
  case (reached parsed res log)
  let ?w1 = "w\<lparr>dw_log := log, dw_hist := dw_hist w @ (case res of Inr (Accepted e) \<Rightarrow> [last (commit_log log)] | _ \<Rightarrow> [])\<rparr>"
  have r1: "ds_reach ?w1" by (rule ds_reach.submit [OF assms(1), of env parsed]) (simp add: assms(2) reached(2))
  show ?thesis
  proof (cases "pok \<and> (\<exists>e. res = Inr (Accepted e))")
    case True
    then obtain e where e: "res = Inr (Accepted e)" by blast
    obtain w' where "ds_reach w'" "dw_log w' = snd (prune_commit_log (st_db st) log (sb_conversation_id parsed))"
        "dw_main w' = dw_main w" "dw_hist w' = dw_hist w @ [last (commit_log log)]"
      using prune_steps [OF r1, of "st_db st" "sb_conversation_id parsed"] e by auto
    with True reached(3) e assms(3) show ?thesis by (intro exI [of _ w']) (simp add: decided_def)
  next
    case False
    with r1 reached(3) assms(3) show ?thesis
      by (intro exI [of _ ?w1]) (auto simp: app_error_def decided_def split: sum.splits submit_response.splits)
  qed
qed

lemma commits_steps:
  assumes "ds_reach w" "dw_log w = st_log_db st" "dw_main w = st_db st" "commits E rok pok c q st = (resp, st')"
    and "0 \<le> q_since q" "q_since q \<le> head_epoch (st_log_db st) c"
  shows "\<exists>w'. ds_reach w' \<and> dw_log w' = st_log_db st' \<and> dw_main w' = st_db st' \<and> dw_hist w' = dw_hist w"
proof (cases "\<exists>u d. q_user_id q = Some u \<and> q_device_id q = Some d \<and> u \<noteq> [] \<and> d \<noteq> [] \<and> rok")
  case True
  then obtain u d where ud: "q_user_id q = Some u" "q_device_id q = Some d" "u \<noteq> []" "d \<noteq> []" rok by blast
  let ?w1 = "w\<lparr>dw_log := record_commit_since c u d (q_since q) (dw_log w)\<rparr>"
  have r1: "ds_reach ?w1" using assms(5,6) by (intro ds_reach.report [OF assms(1)]) (simp_all add: assms(2))
  show ?thesis
  proof (cases pok)
    case True
    obtain w' where "ds_reach w'" "dw_log w' = snd (prune_commit_log (st_db st) (dw_log ?w1) c)" "dw_main w' = dw_main w" "dw_hist w' = dw_hist w"
      using prune_steps [OF r1, of "st_db st" c] by auto
    with True ud assms show ?thesis by (intro exI [of _ w']) (auto simp: commits_def Let_def)
  next
    case False
    with r1 ud assms show ?thesis by (intro exI [of _ ?w1]) (auto simp: commits_def Let_def)
  qed
next
  case False
  then have "st' = st" using assms(4) by (auto simp: commits_def Let_def split: option.splits if_splits)
  with assms(1-3) show ?thesis by blast
qed

section \<open>Concrete runs for witnesses\<close>

definition demo_env :: ds_env where
  "demo_env = \<lparr>e_b64 = demo_b64, e_now = ''t'', e_ulid = (\<lambda>i. replicate i CHR ''z''), e_fails = (\<lambda>_. False)\<rparr>"

definition demo_body :: "i64 \<Rightarrow> submit_body" where
  "demo_body e = \<lparr>sb_conversation_id = ''g'', sb_based_on_epoch = e, sb_sender_id = ''u'', sb_commit = ''c'', sb_added_user_id = None,
     sb_added_device_ids = None, sb_group_info = Some ''i'', sb_welcomes = []\<rparr>"

definition demo_commit_row :: mls_commit_log where
  "demo_commit_row = \<lparr>ml_seq = 1, ml_conversation_id = ''g'', ml_epoch = 0, ml_sender_id = ''u'', ml_commit_data = as_bytes ''c'',
     ml_added_user_id = None, ml_added_device_ids = None, ml_created_at = ''t''\<rparr>"

definition demo_ds_log :: log_db where
  "demo_ds_log = \<lparr>commit_log = [demo_commit_row], next_seq = 2,
     group_infos = [\<lparr>gi_conversation_id = ''g'', gi_epoch = 1, gi_group_info = as_bytes ''i'', gi_updated_at = ''t'', gi_updated_by_device_id = ''u''\<rparr>],
     welcomes = [], commit_since = []\<rparr>"

definition demo_world :: "ds_world" where
  "demo_world = \<lparr>dw_main = demo_main, dw_log = demo_ds_log, dw_hist = [demo_commit_row], dw_heads = [], dw_floors = []\<rparr>"

definition demo_state :: app_state where
  "demo_state = \<lparr>st_db = demo_main, st_log_db = demo_ds_log, st_require_auth = False, st_sessions = Map.empty\<rparr>"

lemma demo_submit: "submit_commit demo_env (demo_body 0) log_db_new = (Inr (Accepted 0), demo_ds_log)"
  by (simp add: submit_commit_def demo_env_def demo_body_def demo_ds_log_def demo_commit_row_def log_db_new_def insert_at_head_def
      max_epoch_def conv_rows_def decode_b64_def decode_opt_def demo_b64_def upsert_group_info_def sql_upsert_def wrap_i64_id)

lemma demo_reach: "ds_reach demo_world"
  using ds_reach.submit [OF ds_reach.init [of demo_main], of demo_env "demo_body 0"] demo_submit
  by (simp add: demo_world_def demo_ds_log_def)

lemma demo_env_ok: "no_faults demo_env" "ulids_fresh demo_env []" "e_b64 demo_env = demo_b64"
  by (auto simp: no_faults_def ulids_fresh_def demo_env_def inj_def)

lemma demo_decodes:
  "decode_b64 (e_b64 demo_env) (sb_commit (demo_body e)) = Inr (as_bytes ''c'')"
  "decode_opt (e_b64 demo_env) (sb_group_info (demo_body e)) = Inr (Some (as_bytes ''i''))"
  "map_res (\<lambda>w. bind_res (decode_b64 (e_b64 demo_env) (wb_welcome w)) (\<lambda>b. Inr (w, b))) (sb_welcomes (demo_body e)) = Inr []"
  by (simp_all add: demo_env_def demo_body_def decode_b64_def decode_opt_def demo_b64_def)

section \<open>Properties\<close>



text \<open>The decision: in a reachable state and without a fault, a well-formed submission is accepted exactly if it was
  built on the number of commits accepted so far; any other is rejected with that number and the stored
  commits from its epoch on, in order.\<close>

theorem submit_accepts_exactly_head:
  assumes "ds_reach w" "length (dw_hist w) < 2 ^ 63" "no_faults env" "ulids_fresh env (welcomes (dw_log w))"
    and "decode_b64 (e_b64 env) (sb_commit body) = Inr commit" "decode_opt (e_b64 env) (sb_group_info body) = Inr gi"
    and "map_res (\<lambda>w. bind_res (decode_b64 (e_b64 env) (wb_welcome w)) (\<lambda>b. Inr (w, b))) (sb_welcomes body) = Inr ws"
    and "0 \<le> sb_based_on_epoch body"
  shows "\<exists>lo. fst (submit_commit env body (dw_log w)) =
    (let H = accepted w (sb_conversation_id body) in
     if sb_based_on_epoch body = int (length H) then Inr (Accepted (sb_based_on_epoch body))
     else Inr (Rejected (int (length H)) (map (to_wire (e_b64 env)) (drop (max lo (nat (sb_based_on_epoch body))) H))))
    \<and> (accepted w (sb_conversation_id body) \<noteq> [] \<longrightarrow> lo < length (accepted w (sb_conversation_id body)))"
proof -
  let ?c = "sb_conversation_id body"
  note inv = log_inv_reachable [OF assms(1,2), of ?c] and len = length_accepted [OF assms(2), of ?c]
  obtain lo where lo: "accepted w ?c \<noteq> [] \<longrightarrow> lo < length (accepted w ?c)"
      "fetch_commits (e_b64 env) (dw_log w) ?c (sb_based_on_epoch body)
        = map (to_wire (e_b64 env)) (drop (max lo (nat (sb_based_on_epoch body))) (accepted w ?c))"
    using fetch_commits_inv [OF inv assms(8)] by blast
  show ?thesis
    using submit_at_head [OF assms(3-7)] insert_decision [OF inv len] head_epoch_inv(1) [OF inv len] lo
    by (intro exI [of _ lo]) (simp add: Let_def)
qed

theorem submit_accepts_exactly_head_witness:
  "fst (submit_commit demo_env (demo_body 1) demo_ds_log) = Inr (Accepted 1)
   \<and> (\<exists>ms. fst (submit_commit demo_env (demo_body 0) demo_ds_log) = Inr (Rejected 1 ms))"
proof -
  have acc: "accepted demo_world ''g'' = [demo_commit_row]" by (simp add: demo_world_def conv_rows_def demo_commit_row_def)
  have len: "length (dw_hist demo_world) < 2 ^ 63" and fresh: "ulids_fresh demo_env (welcomes (dw_log demo_world))"
    using demo_env_ok(2) by (simp_all add: demo_world_def demo_ds_log_def)
  have log: "dw_log demo_world = demo_ds_log" and c: "sb_conversation_id (demo_body e) = ''g''" "sb_based_on_epoch (demo_body e) = e" for e
    by (simp_all add: demo_world_def demo_body_def)
  show ?thesis
    using submit_accepts_exactly_head [OF demo_reach len demo_env_ok(1) fresh demo_decodes(1) demo_decodes(2) demo_decodes(3), of 1]
      submit_accepts_exactly_head [OF demo_reach len demo_env_ok(1) fresh demo_decodes(1) demo_decodes(2) demo_decodes(3), of 0]
    by (auto simp: log c acc Let_def)
qed







text \<open>C8. With authentication on, only members write commits, and only as themselves: if the submit handler answers 200, the request
  carried a valid device signature of the commit's sender, and the sender is a member of the conversation.\<close>

theorem only_signed_members_commit:
  assumes "st_require_auth st" "submit L env from_slice now pok req st = ((200, body), st')"
  shows "\<exists>parsed. from_slice (req_body req) = Some parsed
    \<and> verify_request L (e_b64 env) (Some (st_db st)) (req_headers req) (req_method req) (req_path req) (req_body req) now
        = Inr (sb_sender_id parsed)
    \<and> is_member (st_db st) (sb_conversation_id parsed) (sb_sender_id parsed)
    \<and> body = SubmitReply (Accepted (sb_based_on_epoch parsed))"
  using assms(2)
proof (cases rule: submit_handler_cases)
  case (reached parsed res log)
  have "res = Inr (Accepted (sb_based_on_epoch parsed))"
    using reached(2)
  proof (cases rule: submit_commit_cases)
    case (failed e)
    with reached(3) show ?thesis by (simp add: decided_def app_error_def)
  next
    case (rejected commit)
    with reached(3) show ?thesis by (simp add: decided_def)
  qed
  with reached assms(1) show ?thesis by (simp add: decided_def)
qed simp

theorem only_signed_members_commit_witness:
  "\<exists>url req body st'. ds_post demo_lib demo_b64 demo_client ''/v1/commits'' [1] 1000 = Inr (url, req)
     \<and> submit demo_lib demo_env (\<lambda>_. Some (demo_body 1)) 1000 False req (demo_state\<lparr>st_require_auth := True\<rparr>) = ((200, body), st')
     \<and> is_member demo_main ''g'' ''u''"
proof -
  let ?st = "demo_state\<lparr>st_require_auth := True\<rparr>"
  obtain url req where req: "ds_post demo_lib demo_b64 demo_client ''/v1/commits'' [1] 1000 = Inr (url, req)"
    using demo_post by blast
  have sig: "verify_request demo_lib demo_b64 (Some demo_main) (req_headers req) (req_method req) (req_path req) (req_body req) 1000 = Inr ''u''"
    by (rule client_request_verified [OF lib_ok_demo b64_ok_demo req demo_client_simps demo_main_simps]) simp_all
  have head: "fst (insert_at_head ''t'' (as_bytes ''c'') (demo_body 1) demo_ds_log) \<noteq> 0"
    by (simp add: insert_at_head_def Let_def demo_body_def demo_ds_log_def demo_commit_row_def max_epoch_def conv_rows_def)
  have "fst (submit_commit demo_env (demo_body 1) demo_ds_log) = Inr (Accepted 1)"
    using submit_at_head [OF demo_env_ok(1), of demo_ds_log, OF _ demo_decodes(1) demo_decodes(2) demo_decodes(3)] demo_env_ok(2) head
    by (simp add: demo_ds_log_def demo_env_def demo_body_def split: if_splits)
  then obtain log where "submit_commit demo_env (demo_body 1) demo_ds_log = (Inr (Accepted 1), log)" by (metis prod.collapse)
  moreover have "is_member demo_main ''g'' ''u''" by (simp add: is_member_def demo_main_def)
  ultimately have sub: "submit demo_lib demo_env (\<lambda>_. Some (demo_body 1)) 1000 False req ?st = ((200, SubmitReply (Accepted 1)), ?st\<lparr>st_log_db := log\<rparr>)"
    using sig by (simp add: submit_def demo_state_def demo_env_ok(3) demo_body_def)
  have "st_require_auth ?st" by simp
  from only_signed_members_commit [OF this sub] req sub show ?thesis
    by (auto simp: demo_body_def demo_state_def)
qed

lemma recorded_since_first:
  assumes "\<forall>r \<in> set (commit_since d). cs_conversation_id r \<noteq> c"
  shows "recorded_since (record_commit_since c user dev since d) c = [dev \<mapsto> since]"
proof -
  have "filter (\<lambda>r. cs_conversation_id r = c) (commit_since d) = []" using assms by (simp add: filter_empty_conv)
  moreover have "\<not> list_ex (\<lambda>r. cs_conversation_id r = c \<and> cs_user_id r = user \<and> cs_device_id r = dev) (commit_since d)"
    using assms by (auto simp: list_ex_iff)
  ultimately show ?thesis by (simp add: recorded_since_def record_commit_since_def sql_upsert_def)
qed

text \<open>What the catch-up endpoint does with a report that is ahead of the log: the endpoint takes no credentials, and if the only
  member device of a conversation has not reported yet, one request naming it with an epoch more than 8
  above every stored commit deletes the whole log of the conversation and answers with head 0, so that
  epoch 0 is open again. The bound on reports in the reachability above is therefore needed.\<close>

theorem unauthenticated_report_resets_head:
  assumes "current_member_devices (st_db st) c = [dev]" "\<forall>r \<in> set (commit_since (st_log_db st)). cs_conversation_id r \<noteq> c"
    and "user \<noteq> []" "dev \<noteq> []" "8 < since" "since < 2 ^ 63"
    and "\<forall>r \<in> set (conv_rows c (commit_log (st_log_db st))). ml_epoch r < since - 8"
  shows "fst (commits E True True c \<lparr>q_since = since, q_user_id = Some user, q_device_id = Some dev\<rparr> st) = (200, CommitsReply 0 [])
    \<and> conv_rows c (commit_log (st_log_db (snd (commits E True True c \<lparr>q_since = since, q_user_id = Some user, q_device_id = Some dev\<rparr> st)))) = []"
proof -
  let ?log1 = "record_commit_since c user dev since (st_log_db st)"
  let ?log2 = "snd (prune_commit_log (st_db st) ?log1 c)"
  have "wrap_i64 (since - 8) = since - 8" using assms(5,6) by (intro wrap_i64_id) simp_all
  then have floor: "since - 8 \<le> roster_floor [dev] (recorded_since ?log1 c) h" for h
    using assms(5) by (simp add: recorded_since_first [OF assms(2)] roster_floor_def prune_floor_def PRUNE_SLACK_EPOCHS_def)
  have "conv_rows c (commit_log ?log2) = []"
  proof -
    let ?f = "roster_floor [dev] (recorded_since ?log1 c) (head_epoch ?log1 c)"
    have "?log2 = snd (delete_commits_below c ?f ?log1)"
      by (simp add: prune_commit_log_def Let_def assms(1) split: prod.split)
    moreover have "0 < ?f" using floor [of "head_epoch ?log1 c"] assms(5) by linarith
    moreover have "filter (\<lambda>r. ?f \<le> ml_epoch r) (conv_rows c (commit_log (st_log_db st))) = []"
      using assms(7) floor [of "head_epoch ?log1 c"] by (fastforce simp: filter_empty_conv)
    ultimately show ?thesis by (simp add: delete_commits_below_def Let_def conv_rows_delete record_commit_since_def)
  qed
  then show ?thesis using assms(3,4)
    by (simp add: commits_def head_epoch_def head_epoch_of_def max_epoch_def fetch_commits_def)
qed

theorem unauthenticated_report_resets_head_witness:
  "head_epoch (st_log_db demo_state) ''g'' = 1
   \<and> fst (commits demo_b64 True True ''g'' \<lparr>q_since = 100, q_user_id = Some ''u'', q_device_id = Some ''d''\<rparr> demo_state) = (200, CommitsReply 0 [])"
proof -
  have dev: "current_member_devices (st_db demo_state) ''g'' = [''d'']"
    by (simp add: current_member_devices_def demo_state_def demo_main_def main_db_new_def demo_device_def)
  show ?thesis
    using unauthenticated_report_resets_head [OF dev, of "''u''" 100 demo_b64]
    by (simp add: demo_state_def demo_ds_log_def demo_commit_row_def head_epoch_def head_epoch_of_def max_epoch_def conv_rows_def)
qed

end
