(* ===== verification/Delivery_Writes.thy ===== *)
theory Delivery_Writes
  imports Delivery_Log
begin

text \<open>The write endpoints of \<open>writes.rs\<close> (group info and welcomes, on the commit-log database), and the shape that all
  endpoints of the message and group domains share: gate, parse, apply, map the outcome. The contract of an
  endpoint (what a successful write required, and that a refused one wrote nothing) is the locale
  \<open>write_endpoint\<close>.\<close>

section \<open>Recipients\<close>

definition bad_request :: "string \<Rightarrow> response" where
  "bad_request msg = (400, ErrorBody msg)"

fun outcome_response :: "write_outcome \<Rightarrow> response" where
  "outcome_response Ok = (200, StatusOk)"
| "outcome_response OutForbidden = into_response Forbidden"

definition resolve_recipient :: "authed \<Rightarrow> string option \<Rightarrow> response + string" where
  "resolve_recipient authed body_user_id =
     (case authed of
        Some user \<Rightarrow> (case body_user_id of
            Some b \<Rightarrow> if b \<noteq> user then Inl (into_response Forbidden) else Inr user
          | None \<Rightarrow> Inr user)
      | None \<Rightarrow> (case body_user_id of
            Some b \<Rightarrow> if b \<noteq> [] then Inr b else Inl (bad_request ''user_id required when auth is disabled'')
          | None \<Rightarrow> Inl (bad_request ''user_id required when auth is disabled'')))"

section \<open>Group info (W4)\<close>

record group_info_body =
  gb_conversation_id :: string
  gb_epoch :: i64
  gb_group_info :: string
  gb_updated_by_device_id :: string

definition group_info :: "lib \<Rightarrow> ds_env \<Rightarrow> (bytes \<Rightarrow> group_info_body option) \<Rightarrow> i64 \<Rightarrow> request \<Rightarrow> app_state \<Rightarrow> response \<times> app_state" where
  "group_info L env from_slice now req st =
     (case gate L (e_b64 env) (st_require_auth st) now (st_db st) req of
        Inl rej \<Rightarrow> (into_response rej, st)
      | Inr authed \<Rightarrow>
          (case from_slice (req_body req) of
             None \<Rightarrow> (bad_request ''invalid body'', st)
           | Some parsed \<Rightarrow>
               if (case authed of None \<Rightarrow> False | Some user_id \<Rightarrow> \<not> is_member (st_db st) (gb_conversation_id parsed) user_id)
               then (into_response Forbidden, st)
               else (case b64_dec (e_b64 env) (gb_group_info parsed) of
                   None \<Rightarrow> (bad_request ''invalid group_info'', st)
                 | Some gi \<Rightarrow>
                     if e_fails env 0 then (app_error, st)
                     else ((200, StatusOk), st\<lparr>st_log_db := (st_log_db st)\<lparr>group_infos :=
                       upsert_group_info (e_now env) (gb_conversation_id parsed) (gb_epoch parsed) gi (gb_updated_by_device_id parsed)
                         (group_infos (st_log_db st))\<rparr>\<rparr>))))"

definition apply_group_info :: "ds_env \<Rightarrow> group_info_body \<Rightarrow> log_db \<Rightarrow> (db_error + unit) \<times> log_db" where
  "apply_group_info env body d =
     (case b64_dec (e_b64 env) (gb_group_info body) of
        None \<Rightarrow> (Inl BadBase64, d)
      | Some gi \<Rightarrow>
          if e_fails env 0 then (Inl StatementFailed, d)
          else (Inr (), d\<lparr>group_infos := upsert_group_info (e_now env) (gb_conversation_id body) (gb_epoch body) gi
                 (gb_updated_by_device_id body) (group_infos d)\<rparr>))"

section \<open>Welcomes (W5 to W8)\<close>

definition ack_welcomes :: "string \<Rightarrow> string list \<Rightarrow> mls_welcome list \<Rightarrow> nat \<times> mls_welcome list" where
  "ack_welcomes recipient welcome_ids rows =
     (if welcome_ids = [] then (0, rows)
      else let hit = (\<lambda>r. w_recipient_id r = recipient \<and> w_id r \<in> set welcome_ids)
           in (length (filter hit rows), sql_update hit (\<lambda>r. r\<lparr>w_delivered := True\<rparr>) rows))"

definition reset_welcomes :: "string \<Rightarrow> string option \<Rightarrow> mls_welcome list \<Rightarrow> nat \<times> mls_welcome list" where
  "reset_welcomes recipient device_id rows =
     (let hit = (\<lambda>r. w_recipient_id r = recipient
            \<and> (device_id = None \<or> (w_recipient_device_id r \<noteq> None \<and> w_recipient_device_id r = device_id)
               \<or> w_recipient_device_id r = None))
      in (length (filter hit rows), sql_update hit (\<lambda>r. r\<lparr>w_delivered := False\<rparr>) rows))"

definition purge_welcomes :: "string \<Rightarrow> mls_welcome list \<Rightarrow> nat \<times> mls_welcome list" where
  "purge_welcomes recipient rows =
     (length (filter (\<lambda>r. w_recipient_id r = recipient) rows), sql_delete (\<lambda>r. w_recipient_id r = recipient) rows)"

record ack_body =
  ab_welcome_ids :: "string list"
  ab_user_id :: "string option"

record reset_body =
  rb_device_id :: "string option"
  rb_user_id :: "string option"

record resubmit_body =
  rs_conversation_id :: string
  rs_recipient_id :: string
  rs_recipient_device_id :: string
  rs_welcome :: string

text \<open>The part the ack, reset and purge handlers share: resolve the recipient, run the update on the recipient's
  welcomes.\<close>

definition on_welcomes :: "bool \<Rightarrow> authed \<Rightarrow> string option \<Rightarrow> (string \<Rightarrow> mls_welcome list \<Rightarrow> nat \<times> mls_welcome list) \<Rightarrow> (nat \<Rightarrow> reply)
    \<Rightarrow> app_state \<Rightarrow> response \<times> app_state" where
  "on_welcomes fails authed body_user_id upd reply st =
     (case resolve_recipient authed body_user_id of
        Inl resp \<Rightarrow> (resp, st)
      | Inr recipient \<Rightarrow>
          if fails then (app_error, st)
          else let (n, rows) = upd recipient (welcomes (st_log_db st))
               in ((200, reply n), st\<lparr>st_log_db := (st_log_db st)\<lparr>welcomes := rows\<rparr>\<rparr>))"

definition welcomes_ack :: "lib \<Rightarrow> ds_env \<Rightarrow> (bytes \<Rightarrow> ack_body option) \<Rightarrow> i64 \<Rightarrow> request \<Rightarrow> app_state \<Rightarrow> response \<times> app_state" where
  "welcomes_ack L env from_slice now req st =
     (case gate L (e_b64 env) (st_require_auth st) now (st_db st) req of
        Inl rej \<Rightarrow> (into_response rej, st)
      | Inr authed \<Rightarrow>
          (case from_slice (req_body req) of
             None \<Rightarrow> (bad_request ''invalid body'', st)
           | Some parsed \<Rightarrow> on_welcomes (e_fails env 0) authed (ab_user_id parsed)
               (\<lambda>recipient. ack_welcomes recipient (ab_welcome_ids parsed)) UpdatedCount st))"

definition welcomes_reset :: "lib \<Rightarrow> ds_env \<Rightarrow> (bytes \<Rightarrow> reset_body option) \<Rightarrow> i64 \<Rightarrow> request \<Rightarrow> app_state \<Rightarrow> response \<times> app_state" where
  "welcomes_reset L env from_slice now req st =
     (case gate L (e_b64 env) (st_require_auth st) now (st_db st) req of
        Inl rej \<Rightarrow> (into_response rej, st)
      | Inr authed \<Rightarrow>
          (case from_slice (req_body req) of
             None \<Rightarrow> (bad_request ''invalid body'', st)
           | Some parsed \<Rightarrow> on_welcomes (e_fails env 0) authed (rb_user_id parsed)
               (\<lambda>recipient. reset_welcomes recipient (rb_device_id parsed)) UpdatedCount st))"

text \<open>\<open>PurgeBody\<close> has one field; an empty body stands for an absent user.\<close>

definition welcomes_purge :: "lib \<Rightarrow> ds_env \<Rightarrow> (bytes \<Rightarrow> string option option) \<Rightarrow> i64 \<Rightarrow> request \<Rightarrow> app_state \<Rightarrow> response \<times> app_state" where
  "welcomes_purge L env from_slice now req st =
     (case gate_or_session L (e_b64 env) (st_require_auth st) now (st_db st) (st_sessions st) req of
        (Inl rej, s) \<Rightarrow> (into_response rej, st\<lparr>st_sessions := s\<rparr>)
      | (Inr authed, s) \<Rightarrow>
          (case (if req_body req = [] then Some None else from_slice (req_body req)) of
             None \<Rightarrow> (bad_request ''invalid body'', st\<lparr>st_sessions := s\<rparr>)
           | Some user_id \<Rightarrow> on_welcomes (e_fails env 0) authed user_id purge_welcomes DeletedCount (st\<lparr>st_sessions := s\<rparr>)))"

definition welcomes_resubmit :: "lib \<Rightarrow> ds_env \<Rightarrow> (bytes \<Rightarrow> resubmit_body option) \<Rightarrow> i64 \<Rightarrow> request \<Rightarrow> app_state \<Rightarrow> response \<times> app_state" where
  "welcomes_resubmit L env from_slice now req st =
     (case gate L (e_b64 env) (st_require_auth st) now (st_db st) req of
        Inl rej \<Rightarrow> (into_response rej, st)
      | Inr authed \<Rightarrow>
          (case from_slice (req_body req) of
             None \<Rightarrow> (bad_request ''invalid body'', st)
           | Some parsed \<Rightarrow>
               if (case authed of None \<Rightarrow> False | Some user_id \<Rightarrow> \<not> is_member (st_db st) (rs_conversation_id parsed) user_id)
               then (into_response Forbidden, st)
               else (case b64_dec (e_b64 env) (rs_welcome parsed) of
                   None \<Rightarrow> (bad_request ''invalid welcome'', st)
                 | Some blob \<Rightarrow>
                     (case (if e_fails env 0 then Inl StatementFailed
                            else upsert_welcome (e_ulid env 0) (rs_conversation_id parsed) (rs_recipient_id parsed)
                                   (rs_recipient_device_id parsed) blob (welcomes (st_log_db st))) of
                        Inl err \<Rightarrow> (app_error, st)
                      | Inr rows \<Rightarrow> ((200, StatusOk), st\<lparr>st_log_db := (st_log_db st)\<lparr>welcomes := rows\<rparr>\<rparr>)))))"

section \<open>The common shape of the main-database endpoints\<close>

text \<open>An \<open>apply_*\<close> function decides and writes; a failed statement or transaction is an error and writes nothing.\<close>

type_synonym 'b apply_fn = "authed \<Rightarrow> 'b \<Rightarrow> main_db \<Rightarrow> db_error + write_outcome \<times> main_db"

definition run_endpoint :: "'b apply_fn \<Rightarrow> lib \<Rightarrow> b64 \<Rightarrow> (bytes \<Rightarrow> 'b option) \<Rightarrow> i64 \<Rightarrow> request \<Rightarrow> app_state \<Rightarrow> response \<times> app_state" where
  "run_endpoint apply_fn L E from_slice now req st =
     (case gate L E (st_require_auth st) now (st_db st) req of
        Inl rej \<Rightarrow> (into_response rej, st)
      | Inr authed \<Rightarrow>
          (case from_slice (req_body req) of
             None \<Rightarrow> (bad_request ''invalid body'', st)
           | Some parsed \<Rightarrow>
               (case apply_fn authed parsed (st_db st) of
                  Inl err \<Rightarrow> (app_error, st)
                | Inr (out, db) \<Rightarrow> (outcome_response out, st\<lparr>st_db := db\<rparr>))))"

text \<open>An endpoint is guarded for a request if an answer 200 means that the request was signed by a user with the
  permission, and any other answer means that nothing was written.\<close>

definition guarded :: "(lib \<Rightarrow> b64 \<Rightarrow> (bytes \<Rightarrow> 'b option) \<Rightarrow> i64 \<Rightarrow> request \<Rightarrow> app_state \<Rightarrow> response \<times> app_state)
    \<Rightarrow> (string \<Rightarrow> 'b \<Rightarrow> main_db \<Rightarrow> bool) \<Rightarrow> lib \<Rightarrow> b64 \<Rightarrow> (bytes \<Rightarrow> 'b option) \<Rightarrow> i64 \<Rightarrow> request \<Rightarrow> app_state \<Rightarrow> bool" where
  "guarded handler allowed L E from_slice now req st \<longleftrightarrow>
     (let (resp, st') = handler L E from_slice now req st in
      if fst resp = 200
      then \<exists>u body. verify_request L E (Some (st_db st)) (req_headers req) (req_method req) (req_path req) (req_body req) now = Inr u
         \<and> from_slice (req_body req) = Some body \<and> allowed u body (st_db st)
      else st' = st)"

locale write_endpoint =
  fixes apply_fn :: "'b apply_fn" and allowed :: "string \<Rightarrow> 'b \<Rightarrow> main_db \<Rightarrow> bool"
  assumes authorised: "apply_fn (Some u) body db = Inr (Ok, db') \<Longrightarrow> allowed u body db"
    and refused_unchanged: "apply_fn a body db = Inr (OutForbidden, db') \<Longrightarrow> db' = db"
begin

lemma endpoint_authorised:
  assumes "st_require_auth st" "run_endpoint apply_fn L E from_slice now req st = (resp, st')" "fst resp = 200"
  shows "\<exists>u body. verify_request L E (Some (st_db st)) (req_headers req) (req_method req) (req_path req) (req_body req) now = Inr u
    \<and> from_slice (req_body req) = Some body \<and> allowed u body (st_db st)"
proof -
  have neq: "fst (into_response rej) \<noteq> 200" for rej by (cases rej) simp_all
  obtain a where g: "gate L E True now (st_db st) req = Inr a"
    using assms neq by (cases "gate L E True now (st_db st) req") (auto simp: run_endpoint_def)
  then obtain u where u: "a = Some u"
      "verify_request L E (Some (st_db st)) (req_headers req) (req_method req) (req_path req) (req_body req) now = Inr u"
    by (auto simp: gate_authed)
  obtain body where b: "from_slice (req_body req) = Some body"
    using assms g by (cases "from_slice (req_body req)") (auto simp: run_endpoint_def bad_request_def)
  obtain out db where o: "apply_fn (Some u) body (st_db st) = Inr (out, db)"
    using assms g b u(1) by (cases "apply_fn (Some u) body (st_db st)") (auto simp: run_endpoint_def app_error_def)
  have "out = Ok" using assms g b u(1) o by (cases out) (auto simp: run_endpoint_def)
  with o have "allowed u body (st_db st)" using authorised by blast
  with u(2) b show ?thesis by blast
qed

lemma endpoint_refusal_writes_nothing:
  assumes "run_endpoint apply_fn L E from_slice now req st = (resp, st')" "fst resp \<noteq> 200"
  shows "st' = st"
proof (cases "gate L E (st_require_auth st) now (st_db st) req")
  case (Inr a)
  show ?thesis
  proof (cases "from_slice (req_body req)")
    case (Some body)
    show ?thesis
    proof (cases "apply_fn a body (st_db st)")
      case (Inr x)
      obtain out db where x: "x = (out, db)" by fastforce
      have out: "out = OutForbidden" using assms \<open>gate _ _ _ _ _ _ = _\<close> Some Inr x by (cases out) (auto simp: run_endpoint_def)
      then have "db = st_db st" using refused_unchanged Inr x by blast
      with assms \<open>gate _ _ _ _ _ _ = _\<close> Some Inr x out show ?thesis by (simp add: run_endpoint_def)
    qed (use assms \<open>gate _ _ _ _ _ _ = _\<close> Some in \<open>simp add: run_endpoint_def\<close>)
  qed (use assms Inr in \<open>simp add: run_endpoint_def\<close>)
qed (use assms in \<open>simp add: run_endpoint_def\<close>)

lemma endpoint_guarded: "st_require_auth st \<Longrightarrow> guarded (run_endpoint apply_fn) allowed L E from_slice now req st"
  using endpoint_authorised endpoint_refusal_writes_nothing unfolding guarded_def Let_def by (auto split: prod.split)

end

section \<open>Lemmas\<close>

lemma welcome_updates_scoped:
  "filter (\<lambda>r. w_recipient_id r \<noteq> u) (snd (ack_welcomes u ids rows)) = filter (\<lambda>r. w_recipient_id r \<noteq> u) rows"
  "filter (\<lambda>r. w_recipient_id r \<noteq> u) (snd (reset_welcomes u dev rows)) = filter (\<lambda>r. w_recipient_id r \<noteq> u) rows"
  "filter (\<lambda>r. w_recipient_id r \<noteq> u) (snd (purge_welcomes u rows)) = filter (\<lambda>r. w_recipient_id r \<noteq> u) rows"
  by (auto simp: ack_welcomes_def reset_welcomes_def purge_welcomes_def Let_def intro!: filter_sql_update filter_sql_delete)

text \<open>What a handler may do to the welcomes when \<open>u\<close> is authenticated.\<close>

definition only_own_welcomes :: "string \<Rightarrow> app_state \<Rightarrow> app_state \<Rightarrow> bool" where
  "only_own_welcomes u st st' \<longleftrightarrow> st_db st' = st_db st \<and> commit_log (st_log_db st') = commit_log (st_log_db st)
     \<and> group_infos (st_log_db st') = group_infos (st_log_db st) \<and> commit_since (st_log_db st') = commit_since (st_log_db st)
     \<and> filter (\<lambda>r. w_recipient_id r \<noteq> u) (welcomes (st_log_db st')) = filter (\<lambda>r. w_recipient_id r \<noteq> u) (welcomes (st_log_db st))"

lemma on_welcomes_scoped:
  assumes "\<And>rows. filter (\<lambda>r. w_recipient_id r \<noteq> u) (snd (upd u rows)) = filter (\<lambda>r. w_recipient_id r \<noteq> u) rows"
  shows "only_own_welcomes u st (snd (on_welcomes fails (Some u) b upd reply st))"
proof (cases "resolve_recipient (Some u) b")
  case (Inr rcp)
  then have "rcp = u" by (auto simp: resolve_recipient_def split: option.splits if_splits)
  with Inr assms [of "welcomes (st_log_db st)"] show ?thesis
    by (auto simp: on_welcomes_def only_own_welcomes_def split: prod.split)
qed (simp add: on_welcomes_def only_own_welcomes_def)

lemma only_own_welcomes_refl [simp]: "only_own_welcomes u st st"
  by (simp add: only_own_welcomes_def)

text \<open>Group-info epochs do not decrease.\<close>

definition group_info_grows :: "mls_group_info list \<Rightarrow> mls_group_info list \<Rightarrow> bool" where
  "group_info_grows rows rows' \<longleftrightarrow> (\<forall>r \<in> set rows. \<exists>r' \<in> set rows'. gi_conversation_id r' = gi_conversation_id r \<and> gi_epoch r \<le> gi_epoch r'
     \<and> (gi_epoch r' = gi_epoch r \<longrightarrow> gi_group_info r' = gi_group_info r))"

lemma group_info_grows_refl [simp]: "group_info_grows rows rows"
  by (auto simp: group_info_grows_def)

lemma group_info_grows_upsert: "group_info_grows rows (upsert_group_info now c e gi dev rows)"
  unfolding group_info_grows_def
proof (intro ballI)
  fix r assume r: "r \<in> set rows"
  let ?f = "\<lambda>r. if e > gi_epoch r then r\<lparr>gi_epoch := e, gi_group_info := gi, gi_updated_by_device_id := dev, gi_updated_at := now\<rparr> else r"
  let ?r = "if list_ex (\<lambda>r. gi_conversation_id r = c) rows \<and> gi_conversation_id r = c then ?f r else r"
  have "?r \<in> set (upsert_group_info now c e gi dev rows)"
    using r unfolding upsert_group_info_def sql_upsert_def sql_update_def by (auto intro!: image_eqI [of _ _ r])
  then show "\<exists>r' \<in> set (upsert_group_info now c e gi dev rows). gi_conversation_id r' = gi_conversation_id r \<and> gi_epoch r \<le> gi_epoch r'
      \<and> (gi_epoch r' = gi_epoch r \<longrightarrow> gi_group_info r' = gi_group_info r)"
    by (rule bexI [rotated]) auto
qed

lemma group_info_grows_submit: "submit_commit env body d = (res, d') \<Longrightarrow> group_info_grows (group_infos d) (group_infos d')"
  by (erule submit_commit_cases) (auto split: option.split simp: group_info_grows_upsert)

section \<open>Properties\<close>

text \<open>Welcomes are private to their recipient: with authentication on, the ack, reset and purge endpoints change only
  welcomes of the user the request authenticated as (by signature, or by session on the purge endpoint),
  and nothing else; a request that does not authenticate changes no table.\<close>

theorem welcome_endpoints_scoped:
  assumes "st_require_auth st"
  shows "(case gate L (e_b64 env) True now (st_db st) req of
       Inl rej \<Rightarrow> welcomes_ack L env ack now req st = (into_response rej, st) \<and> welcomes_reset L env reset now req st = (into_response rej, st)
     | Inr a \<Rightarrow> (\<exists>u. a = Some u \<and> only_own_welcomes u st (snd (welcomes_ack L env ack now req st))
           \<and> only_own_welcomes u st (snd (welcomes_reset L env reset now req st))))
    \<and> (case gate_or_session L (e_b64 env) True now (st_db st) (st_sessions st) req of
       (Inl rej, s) \<Rightarrow> welcomes_purge L env purge now req st = (into_response rej, st\<lparr>st_sessions := s\<rparr>)
     | (Inr a, s) \<Rightarrow> (\<exists>u. a = Some u \<and> only_own_welcomes u st (snd (welcomes_purge L env purge now req st))))"
proof -
  have some: "gate L E True now db req = Inr a \<Longrightarrow> \<exists>u. a = Some u" for E db a by (auto simp: gate_authed)
  have some': "gate_or_session L E True now db ss req = (Inr a, s) \<Longrightarrow> \<exists>u. a = Some u" for E db ss a s
    using some by (auto simp: gate_or_session_def split: if_splits sum.splits prod.splits)
  have purge: "only_own_welcomes u st (snd (on_welcomes fs (Some u) b purge_welcomes rp (st\<lparr>st_sessions := s\<rparr>)))" for u fs b rp s
    using on_welcomes_scoped [where upd = purge_welcomes and u = u and st = "st\<lparr>st_sessions := s\<rparr>" and fails = fs and b = b and reply = rp,
        OF welcome_updates_scoped(3)] by (simp add: only_own_welcomes_def)
  have own: "only_own_welcomes u st (snd (on_welcomes fs (Some u) b (\<lambda>rcp. ack_welcomes rcp ids) rp st))"
      "only_own_welcomes u st (snd (on_welcomes fs (Some u) b (\<lambda>rcp. reset_welcomes rcp dev) rp st))" for u fs b ids dev rp
    by (intro on_welcomes_scoped welcome_updates_scoped)+
  have ack: "\<exists>u. a = Some u \<and> only_own_welcomes u st (snd (welcomes_ack L env ack now req st))
      \<and> only_own_welcomes u st (snd (welcomes_reset L env reset now req st))"
    if "gate L (e_b64 env) True now (st_db st) req = Inr a" for a
    using some [OF that] that assms own
    by (auto simp: welcomes_ack_def welcomes_reset_def split: option.split)
  have prg: "\<exists>u. a = Some u \<and> only_own_welcomes u st (snd (welcomes_purge L env purge now req st))"
    if "gate_or_session L (e_b64 env) True now (st_db st) (st_sessions st) req = (Inr a, s)" for a s
    using some' [OF that] that assms purge
    by (auto simp: welcomes_purge_def only_own_welcomes_def split: option.split)
  show ?thesis using ack prg assms
    by (auto simp: welcomes_ack_def welcomes_reset_def welcomes_purge_def split: sum.split prod.split)
qed

theorem welcome_endpoints_scoped_witness:
  "\<exists>url req. ds_post demo_lib demo_b64 demo_client ''/v1/welcomes/ack'' [1] 1000 = Inr (url, req)
     \<and> only_own_welcomes ''u'' (demo_state\<lparr>st_require_auth := True\<rparr>)
         (snd (welcomes_ack demo_lib demo_env (\<lambda>_. Some \<lparr>ab_welcome_ids = [''w''], ab_user_id = None\<rparr>) 1000 req (demo_state\<lparr>st_require_auth := True\<rparr>)))"
proof -
  obtain url req where req: "ds_post demo_lib demo_b64 demo_client ''/v1/welcomes/ack'' [1] 1000 = Inr (url, req)"
    using demo_post by blast
  have "verify_request demo_lib demo_b64 (Some demo_main) (req_headers req) (req_method req) (req_path req) (req_body req) 1000 = Inr ''u''"
    by (rule client_request_verified [OF lib_ok_demo b64_ok_demo req demo_client_simps demo_main_simps]) simp_all
  then have gate: "gate demo_lib (e_b64 demo_env) True 1000 (st_db (demo_state\<lparr>st_require_auth := True\<rparr>)) req = Inr (Some ''u'')"
    by (simp add: gate_def demo_env_ok(3) demo_state_def)
  show ?thesis
    using welcome_endpoints_scoped [of "demo_state\<lparr>st_require_auth := True\<rparr>" demo_lib demo_env,
        where now = 1000 and req = req and ack = "\<lambda>_. Some \<lparr>ab_welcome_ids = [''w''], ab_user_id = None\<rparr>"] gate req by auto
qed

text \<open>Published group infos never go back: whatever a submission or the group-info endpoint does, every conversation that
  had a group info still has one, of the same or a later epoch, and at the same epoch the same one.\<close>

theorem group_info_monotone:
  "group_info_grows (group_infos d) (group_infos (snd (submit_commit env body d)))
   \<and> group_info_grows (group_infos (st_log_db st)) (group_infos (st_log_db (snd (group_info L env from_slice now req st))))
   \<and> group_info_grows (group_infos d) (group_infos (snd (apply_group_info env gbody d)))"
proof -
  obtain res d' where "submit_commit env body d = (res, d')" by fastforce
  then show ?thesis using group_info_grows_submit
    by (auto simp: group_info_def apply_group_info_def group_info_grows_upsert split: sum.split option.split)
qed

end
