(* ===== verification/Delivery_Messages.thy ===== *)
theory Delivery_Messages
  imports Delivery_Writes "HOL-Library.Char_ord" "HOL-Library.List_Lexorder"
begin

text \<open>The message domain of the delivery service (\<open>messages.rs\<close>): envelopes, edits, deletions, reactions, watermarks,
  envelope garbage collection and attachment rows. Text columns compare bytewise, as SQLite's default
  collation does. \<open>datetime('now', ...)\<close>, the clock, fresh ULIDs and whether the connection enforces foreign keys are
  arguments.\<close>

section \<open>Timestamps\<close>

text \<open>\<open>format!("{:0w}")\<close> of a non-negative number.\<close>

definition zero_pad :: "nat \<Rightarrow> int \<Rightarrow> string" where
  "zero_pad w i = (let s = show_int i in replicate (w - length s) CHR ''0'' @ s)"

definition civil_from_days :: "int \<Rightarrow> int \<times> int \<times> int" where
  "civil_from_days days =
     (let z = days + 719468;
          era = z div 146097;
          doe = z - era * 146097;
          yoe = (doe - doe div 1460 + doe div 36524 - doe div 146096) div 365;
          y = yoe + era * 400;
          doy = doe - (365 * yoe + yoe div 4 - yoe div 100);
          mp = (5 * doy + 2) div 153;
          d = doy - (153 * mp + 2) div 5 + 1;
          m = (if mp < 10 then mp + 3 else mp - 9)
      in (if m \<le> 2 then y + 1 else y, m, d))"

definition chrono_like_now :: "int \<Rightarrow> string" where
  "chrono_like_now secs =
     (let days = secs div 86400; rem = secs mod 86400;
          hh = rem div 3600; mm = (rem mod 3600) div 60; ss = rem mod 60;
          (y, m, d) = civil_from_days days
      in zero_pad 4 y @ ''-'' @ zero_pad 2 m @ ''-'' @ zero_pad 2 d @ ''T'' @ zero_pad 2 hh @ '':'' @ zero_pad 2 mm @ '':''
         @ zero_pad 2 ss @ ''+00:00'')"

section \<open>Queries\<close>

definition conversation_for_message :: "main_db \<Rightarrow> string \<Rightarrow> string option" where
  "conversation_for_message db message_id =
     map_option me_conversation_id (first_row (\<lambda>e. me_id e = message_id) (envelopes db))"

text \<open>The join of \<open>channels\<close> and \<open>group_member\<close>, first row.\<close>

definition channel_group_role :: "main_db \<Rightarrow> string \<Rightarrow> string \<Rightarrow> string option" where
  "channel_group_role db conversation_id user_id =
     (case concat (map (\<lambda>c. if ch_id c = conversation_id
              then map gm_role (filter (\<lambda>m. gm_group_id m = ch_group_id c \<and> gm_user_id m = user_id) (group_members db)) else [])
            (channels db)) of
        [] \<Rightarrow> None | role # _ \<Rightarrow> Some role)"

text \<open>\<open>INSERT INTO message_envelope\<close>: the id is the primary key, and one edit per message is a unique index.\<close>

definition insert_envelope :: "message_envelope \<Rightarrow> main_db \<Rightarrow> db_error + main_db" where
  "insert_envelope row db =
     (if list_ex (\<lambda>e. me_id e = me_id row) (envelopes db)
         \<or> me_type row = ''edit'' \<and> list_ex (\<lambda>e. me_type e = ''edit'' \<and> me_conversation_id e = me_conversation_id row
              \<and> me_target_message_id e = me_target_message_id row \<and> me_target_message_id e \<noteq> None) (envelopes db)
      then Inl StatementFailed
      else Inr (db\<lparr>envelopes := envelopes db @ [row]\<rparr>))"

definition delete_envelopes :: "(message_envelope \<Rightarrow> bool) \<Rightarrow> main_db \<Rightarrow> main_db" where
  "delete_envelopes P db = db\<lparr>envelopes := sql_delete P (envelopes db)\<rparr>"

section \<open>Sending\<close>

record send_body =
  sm_id :: string
  sm_conversation_id :: string
  sm_sender_id :: "string option"
  sm_ciphertext :: string
  sm_reply_to_id :: "string option"
  sm_sent_at :: string
  sm_sealed :: i64

definition unwrap_or_default :: "string option \<Rightarrow> string" where
  "unwrap_or_default s = (case s of None \<Rightarrow> [] | Some t \<Rightarrow> t)"

definition apply_send_message :: "send_body apply_fn" where
  "apply_send_message authed body db =
     (case (if sm_sealed body \<noteq> 0
            then Inr (case authed of
                Some u \<Rightarrow> (u, unwrap_or_default (sm_sender_id body))
              | None \<Rightarrow> (unwrap_or_default (sm_sender_id body), unwrap_or_default (sm_sender_id body)))
            else bind_res (resolve_actor authed (sm_sender_id body)) (\<lambda>s. Inr (s, s))) of
        Inl out \<Rightarrow> Inr (out, db)
      | Inr (member_check_user, stored_sender) \<Rightarrow>
          if authed \<noteq> None \<and> \<not> is_member db (sm_conversation_id body) member_check_user then Inr (OutForbidden, db)
          else bind_res (insert_envelope \<lparr>me_id = sm_id body, me_conversation_id = sm_conversation_id body, me_sender_id = stored_sender,
                   me_ciphertext = sm_ciphertext body, me_reply_to_id = sm_reply_to_id body, me_sent_at = sm_sent_at body,
                   me_type = ''message'', me_target_message_id = None, me_sealed = sm_sealed body\<rparr> db)
                 (\<lambda>db'. Inr (Ok, db')))"

section \<open>Editing\<close>

record edit_body =
  em_envelope_id :: string
  em_conversation_id :: string
  em_target_message_id :: string
  em_sender_id :: "string option"
  em_ciphertext :: string
  em_sent_at :: string

definition apply_edit_message :: "edit_body apply_fn" where
  "apply_edit_message authed body db =
     (case resolve_actor authed (em_sender_id body) of
        Inl out \<Rightarrow> Inr (out, db)
      | Inr sender \<Rightarrow>
          if authed \<noteq> None \<and> \<not> is_member db (em_conversation_id body) sender then Inr (OutForbidden, db)
          else let db1 = delete_envelopes (\<lambda>e. me_conversation_id e = em_conversation_id body
                     \<and> me_target_message_id e = Some (em_target_message_id body) \<and> me_type e = ''edit'') db
               in bind_res (insert_envelope \<lparr>me_id = em_envelope_id body, me_conversation_id = em_conversation_id body,
                      me_sender_id = sender, me_ciphertext = em_ciphertext body, me_reply_to_id = None, me_sent_at = em_sent_at body,
                      me_type = ''edit'', me_target_message_id = Some (em_target_message_id body), me_sealed = 0\<rparr> db1)
                    (\<lambda>db'. Inr (Ok, db')))"

section \<open>Deleting\<close>

record delete_body =
  dm_message_id :: string
  dm_conversation_id :: string
  dm_msg_sender_id :: "string option"
  dm_actor_id :: "string option"

definition remove_message :: "string \<Rightarrow> main_db \<Rightarrow> main_db" where
  "remove_message message_id db =
     delete_envelopes (\<lambda>e. me_target_message_id e = Some message_id \<and> me_type e = ''edit'')
       (delete_envelopes (\<lambda>e. me_id e = message_id) db)"

definition apply_delete_message :: "string \<Rightarrow> int \<Rightarrow> delete_body apply_fn" where
  "apply_delete_message ulid now_secs authed body db =
     (case resolve_actor authed (dm_actor_id body) of
        Inl out \<Rightarrow> Inr (out, db)
      | Inr actor \<Rightarrow>
          if dm_msg_sender_id body = Some actor
          then if authed \<noteq> None \<and> \<not> is_member db (dm_conversation_id body) actor then Inr (OutForbidden, db)
               else Inr (Ok, remove_message (dm_message_id body) db)
          else if authed \<noteq> None \<and> channel_group_role db (dm_conversation_id body) actor \<noteq> Some ''admin'' then Inr (OutForbidden, db)
          else bind_res (insert_envelope \<lparr>me_id = ulid, me_conversation_id = dm_conversation_id body, me_sender_id = actor,
                   me_ciphertext = [], me_reply_to_id = None, me_sent_at = chrono_like_now now_secs,
                   me_type = ''delete'', me_target_message_id = Some (dm_message_id body), me_sealed = 0\<rparr>
                   (remove_message (dm_message_id body) db))
                 (\<lambda>db'. Inr (Ok, db')))"

section \<open>Reactions\<close>

record reaction_body =
  rx_message_id :: string
  rx_emoji :: string
  rx_user_id :: "string option"

definition reaction_forbidden :: "authed \<Rightarrow> main_db \<Rightarrow> string \<Rightarrow> string \<Rightarrow> bool" where
  "reaction_forbidden authed db message_id user \<longleftrightarrow> authed \<noteq> None
     \<and> (case conversation_for_message db message_id of None \<Rightarrow> False | Some conv \<Rightarrow> \<not> is_member db conv user)"

definition apply_add_reaction :: "bool \<Rightarrow> string \<Rightarrow> int \<Rightarrow> reaction_body apply_fn" where
  "apply_add_reaction fk ulid now_secs authed body db =
     (case resolve_actor authed (rx_user_id body) of
        Inl out \<Rightarrow> Inr (out, db)
      | Inr user \<Rightarrow>
          if reaction_forbidden authed db (rx_message_id body) user then Inr (OutForbidden, db)
          else let same = (\<lambda>r. mr_id r = ulid \<or> mr_message_id r = rx_message_id body \<and> mr_user_id r = user \<and> mr_emoji r = rx_emoji body)
               in if fk \<and> \<not> has_user db user \<and> \<not> list_ex same (reactions db) then Inl StatementFailed
                  else Inr (Ok, db\<lparr>reactions := sql_insert_or_ignore same
                         \<lparr>mr_id = ulid, mr_message_id = rx_message_id body, mr_user_id = user, mr_emoji = rx_emoji body,
                          mr_created_at = chrono_like_now now_secs\<rparr> (reactions db)\<rparr>))"

definition apply_remove_reaction :: "reaction_body apply_fn" where
  "apply_remove_reaction authed body db =
     (case resolve_actor authed (rx_user_id body) of
        Inl out \<Rightarrow> Inr (out, db)
      | Inr user \<Rightarrow>
          if reaction_forbidden authed db (rx_message_id body) user then Inr (OutForbidden, db)
          else Inr (Ok, db\<lparr>reactions := sql_delete
                 (\<lambda>r. mr_message_id r = rx_message_id body \<and> mr_user_id r = user \<and> mr_emoji r = rx_emoji body) (reactions db)\<rparr>))"

section \<open>Watermarks and garbage collection\<close>

record watermark_body =
  wm_conversation_id :: string
  wm_user_id :: "string option"
  wm_device_id :: string
  wm_last_fetched_at :: string

definition apply_advance_watermark :: "watermark_body apply_fn" where
  "apply_advance_watermark authed body db =
     (case resolve_actor authed (wm_user_id body) of
        Inl out \<Rightarrow> Inr (out, db)
      | Inr user \<Rightarrow> Inr (Ok, db\<lparr>watermarks := sql_upsert
            (\<lambda>r. cw_conversation_id r = wm_conversation_id body \<and> cw_user_id r = user \<and> cw_device_id r = wm_device_id body)
            (\<lambda>r. r\<lparr>cw_last_fetched_at := max (cw_last_fetched_at r) (wm_last_fetched_at body)\<rparr>)
            \<lparr>cw_conversation_id = wm_conversation_id body, cw_user_id = user, cw_device_id = wm_device_id body,
             cw_last_fetched_at = wm_last_fetched_at body\<rparr> (watermarks db)\<rparr>))"

text \<open>The devices of the members of a conversation, as the two joins produce them.\<close>

definition gc_devices :: "bool \<Rightarrow> main_db \<Rightarrow> string \<Rightarrow> user_device list" where
  "gc_devices is_dm db c =
     (if is_dm
      then concat (map (\<lambda>m. if dcm_dm_channel_id m = c then filter (\<lambda>d. ud_user_id d = dcm_user_id m) (user_devices db) else [])
             (dm_channel_members db))
      else concat (map (\<lambda>m. concat (map (\<lambda>ch. if ch_id ch = c \<and> ch_group_id ch = gm_group_id m
                then filter (\<lambda>d. ud_user_id d = gm_user_id m) (user_devices db) else []) (channels db)))
             (group_members db)))"

text \<open>The left join: the watermark of a device, or NULL.\<close>

definition device_watermark :: "main_db \<Rightarrow> string \<Rightarrow> user_device \<Rightarrow> string option" where
  "device_watermark db c d = map_option cw_last_fetched_at
     (first_row (\<lambda>w. cw_conversation_id w = c \<and> cw_user_id w = ud_user_id d \<and> cw_device_id w = ud_device_id d) (watermarks db))"

text \<open>\<open>CASE WHEN COUNT(device_id) = COUNT(last_fetched_at) THEN MIN(last_fetched_at) ELSE NULL END\<close>; the minimum of no rows
  is NULL.\<close>

definition gc_watermark :: "bool \<Rightarrow> main_db \<Rightarrow> string \<Rightarrow> string option" where
  "gc_watermark is_dm db c =
     (let ds = gc_devices is_dm db c; ws = List.map_filter (device_watermark db c) ds
      in if length ds = length ws \<and> ws \<noteq> [] then Some (Min (set ws)) else None)"

record gc_body =
  gc_conversation_id :: string
  gc_is_dm :: bool
  gc_actor_id :: "string option"

text \<open>\<open>cutoff\<close> is \<open>datetime('now', '-30 days')\<close>; a comparison with NULL does not select the row.\<close>

definition collectable :: "string \<Rightarrow> bool \<Rightarrow> main_db \<Rightarrow> string \<Rightarrow> message_envelope \<Rightarrow> bool" where
  "collectable cutoff is_dm db c e \<longleftrightarrow> me_conversation_id e = c
     \<and> (me_sent_at e < cutoff \<or> (case gc_watermark is_dm db c of None \<Rightarrow> False | Some w \<Rightarrow> me_sent_at e < w))"

definition apply_envelope_gc :: "string \<Rightarrow> gc_body apply_fn" where
  "apply_envelope_gc cutoff authed body db =
     (case resolve_actor authed (gc_actor_id body) of
        Inl out \<Rightarrow> Inr (out, db)
      | Inr actor \<Rightarrow>
          if authed \<noteq> None \<and> \<not> is_member db (gc_conversation_id body) actor then Inr (OutForbidden, db)
          else Inr (Ok, delete_envelopes (collectable cutoff (gc_is_dm body) db (gc_conversation_id body)) db))"

section \<open>Attachments\<close>

record attachment_body =
  at_content_hash :: string
  at_r2_key :: string

definition apply_register_attachment :: "attachment_body apply_fn" where
  "apply_register_attachment authed body db = Inr (Ok, db\<lparr>attachments := sql_insert_or_ignore
     (\<lambda>r. ao_content_hash r = at_content_hash body)
     \<lparr>ao_content_hash = at_content_hash body, ao_r2_key = at_r2_key body\<rparr> (attachments db)\<rparr>)"

definition apply_delete_attachment :: "string apply_fn" where
  "apply_delete_attachment authed content_hash db =
     Inr (Ok, db\<lparr>attachments := sql_delete (\<lambda>r. ao_content_hash r = content_hash) (attachments db)\<rparr>)"

section \<open>Handlers\<close>

definition send_message where "send_message = run_endpoint apply_send_message"
definition edit_message where "edit_message = run_endpoint apply_edit_message"
definition delete_message where "delete_message ulid now_secs = run_endpoint (apply_delete_message ulid now_secs)"
definition add_reaction where "add_reaction fk ulid now_secs = run_endpoint (apply_add_reaction fk ulid now_secs)"
definition remove_reaction where "remove_reaction = run_endpoint apply_remove_reaction"
definition advance_watermark where "advance_watermark = run_endpoint apply_advance_watermark"
definition envelope_gc where "envelope_gc cutoff = run_endpoint (apply_envelope_gc cutoff)"
definition register_attachment where "register_attachment = run_endpoint apply_register_attachment"
definition delete_attachment where "delete_attachment = run_endpoint apply_delete_attachment"

section \<open>Authorisation\<close>

text \<open>Every endpoint satisfies the contract of \<open>write_endpoint\<close>, with what it checks as the permission.\<close>

named_theorems apply_defs \<open>definitions of the apply functions\<close>

lemmas message_apply_defs [apply_defs] = apply_send_message_def apply_edit_message_def apply_delete_message_def apply_add_reaction_def
  apply_remove_reaction_def apply_advance_watermark_def apply_envelope_gc_def apply_register_attachment_def apply_delete_attachment_def

lemma resolve_actor_Inl: "resolve_actor a b = Inl out \<Longrightarrow> out = OutForbidden"
  by (auto simp: resolve_actor_def split: option.splits if_splits)

lemma resolve_actor_Some [simp]: "resolve_actor (Some u) b = (if b = None \<or> b = Some u then Inr u else Inl OutForbidden)"
  by (auto simp: resolve_actor_def split: option.splits)

interpretation send: write_endpoint apply_send_message "\<lambda>u b db. is_member db (sm_conversation_id b) u"
  by unfold_locales
    (auto simp: apply_defs bind_res_eq_Inr split: if_splits sum.splits option.splits dest: resolve_actor_Inl)

interpretation edit: write_endpoint apply_edit_message "\<lambda>u b db. is_member db (em_conversation_id b) u"
  by unfold_locales
    (auto simp: apply_defs bind_res_eq_Inr Let_def split: if_splits sum.splits option.splits dest: resolve_actor_Inl)

interpretation delete: write_endpoint "apply_delete_message ulid now_secs"
    "\<lambda>u b db. if dm_msg_sender_id b = Some u then is_member db (dm_conversation_id b) u
       else channel_group_role db (dm_conversation_id b) u = Some ''admin''" for ulid now_secs
  by unfold_locales
    (auto simp: apply_defs bind_res_eq_Inr split: if_splits sum.splits option.splits dest: resolve_actor_Inl)

interpretation react: write_endpoint "apply_add_reaction fk ulid now_secs"
    "\<lambda>u b db. \<forall>c. conversation_for_message db (rx_message_id b) = Some c \<longrightarrow> is_member db c u" for fk ulid now_secs
  by unfold_locales
    (auto simp: apply_defs reaction_forbidden_def Let_def split: if_splits sum.splits option.splits dest: resolve_actor_Inl)

interpretation unreact: write_endpoint apply_remove_reaction
    "\<lambda>u b db. \<forall>c. conversation_for_message db (rx_message_id b) = Some c \<longrightarrow> is_member db c u"
  by unfold_locales
    (auto simp: apply_defs reaction_forbidden_def split: if_splits sum.splits option.splits dest: resolve_actor_Inl)

interpretation watermark: write_endpoint apply_advance_watermark "\<lambda>u b db. wm_user_id b = None \<or> wm_user_id b = Some u"
  by unfold_locales (auto simp: apply_defs split: if_splits sum.splits dest: resolve_actor_Inl)

interpretation gc: write_endpoint "apply_envelope_gc cutoff" "\<lambda>u b db. is_member db (gc_conversation_id b) u" for cutoff
  by unfold_locales (auto simp: apply_defs split: if_splits sum.splits dest: resolve_actor_Inl)

interpretation attach: write_endpoint apply_register_attachment "\<lambda>_ _ _. True"
  by unfold_locales (simp_all add: apply_defs)

interpretation detach: write_endpoint apply_delete_attachment "\<lambda>_ _ _. True"
  by unfold_locales (simp_all add: apply_defs)

section \<open>Garbage collection\<close>

lemma map_filter_length: "length (List.map_filter f xs) = length xs \<longleftrightarrow> (\<forall>x \<in> set xs. f x \<noteq> None)"
proof (induction xs)
  case (Cons x xs)
  have "length (List.map_filter f xs) \<le> length xs" by (induction xs) (simp_all add: List.map_filter_simps split: option.split)
  with Cons show ?case by (simp add: List.map_filter_simps split: option.split)
qed (simp add: List.map_filter_simps)

lemma set_map_filter_some: "set (List.map_filter f xs) = {y. \<exists>x \<in> set xs. f x = Some y}"
  by (induction xs) (auto simp: List.map_filter_simps split: option.splits)

lemma below_gc_watermark:
  "(case gc_watermark is_dm db c of None \<Rightarrow> False | Some w \<Rightarrow> s < w) \<longleftrightarrow>
     gc_devices is_dm db c \<noteq> [] \<and> (\<forall>d \<in> set (gc_devices is_dm db c). \<exists>w. device_watermark db c d = Some w \<and> s < w)"
proof -
  let ?ds = "gc_devices is_dm db c"
  let ?ws = "List.map_filter (device_watermark db c) ?ds"
  have all: "length ?ds = length ?ws \<longleftrightarrow> (\<forall>d \<in> set ?ds. device_watermark db c d \<noteq> None)"
    using map_filter_length [of "device_watermark db c" ?ds] by auto
  show ?thesis
  proof (cases "length ?ds = length ?ws \<and> ?ws \<noteq> []")
    case True
    then have "gc_watermark is_dm db c = Some (Min (set ?ws))" by (simp add: gc_watermark_def Let_def)
    moreover have "s < Min (set ?ws) \<longleftrightarrow> (\<forall>w \<in> set ?ws. s < w)" using True by simp
    moreover have "?ds \<noteq> []" using True by auto
    ultimately show ?thesis using True all unfolding set_map_filter_some by fastforce
  next
    case False
    then have none: "gc_watermark is_dm db c = None" by (auto simp: gc_watermark_def Let_def)
    show ?thesis
    proof (cases "length ?ds = length ?ws")
      case True
      with False have "?ds = []" by simp
      with none show ?thesis by simp
    next
      case neq: False
      with all none show ?thesis by fastforce
    qed
  qed
qed

section \<open>Concrete data for witnesses\<close>

definition demo_envelope :: "string \<Rightarrow> string \<Rightarrow> string \<Rightarrow> message_envelope" where
  "demo_envelope i c t = \<lparr>me_id = i, me_conversation_id = c, me_sender_id = ''sealed'', me_ciphertext = ''x'', me_reply_to_id = None,
     me_sent_at = t, me_type = ''message'', me_target_message_id = None, me_sealed = 1\<rparr>"

definition demo_chat :: main_db where
  "demo_chat = demo_main\<lparr>channels := [\<lparr>ch_id = ''ch'', ch_group_id = ''g'', ch_name = ''n'', ch_description = None, ch_channel_type = ''text''\<rparr>],
     watermarks := [\<lparr>cw_conversation_id = ''ch'', cw_user_id = ''u'', cw_device_id = ''d'', cw_last_fetched_at = ''5''\<rparr>],
     envelopes := [demo_envelope ''a'' ''ch'' ''4'', demo_envelope ''b'' ''ch'' ''6'', demo_envelope ''s'' ''other'' ''1'']\<rparr>"

lemma demo_signed:
  assumes "user_devices db = user_devices demo_main"
  shows "\<exists>req :: request. verify_request demo_lib demo_b64 (Some db) (req_headers req) (req_method req) (req_path req) (req_body req) 1000 = Inr ''u''"
proof -
  obtain url req where req: "ds_post demo_lib demo_b64 demo_client ''/v1'' [1] 1000 = Inr (url, req)" using demo_post by blast
  have "verify_request demo_lib demo_b64 (Some db) (req_headers req) (req_method req) (req_path req) (req_body req) 1000 = Inr ''u''"
    by (rule client_request_verified [OF lib_ok_demo b64_ok_demo req demo_client_simps, of demo_device])
      (use demo_main_simps in \<open>simp_all add: assms\<close>)
  then show ?thesis by blast
qed

section \<open>Properties\<close>

text \<open>C31. Messages are written by members only: with authentication on, a send, an edit or a garbage collection that
  answers 200 was signed by a member of the conversation it names, and a delete was signed by a member, or
  by an admin of the owning group when it names another author; a request that does not answer 200 changed
  nothing.\<close>

theorem message_endpoints_authorised:
  assumes "st_require_auth st"
  shows "guarded send_message (\<lambda>u b db. is_member db (sm_conversation_id b) u) L E send_slice now req st
    \<and> guarded edit_message (\<lambda>u b db. is_member db (em_conversation_id b) u) L E edit_slice now req st
    \<and> guarded (delete_message ulid secs) (\<lambda>u b db. if dm_msg_sender_id b = Some u then is_member db (dm_conversation_id b) u
        else channel_group_role db (dm_conversation_id b) u = Some ''admin'') L E delete_slice now req st
    \<and> guarded (envelope_gc cutoff) (\<lambda>u b db. is_member db (gc_conversation_id b) u) L E gc_slice now req st"
  unfolding send_message_def edit_message_def delete_message_def envelope_gc_def
  by (intro conjI send.endpoint_guarded edit.endpoint_guarded delete.endpoint_guarded gc.endpoint_guarded assms)

theorem message_endpoints_authorised_witness:
  "\<exists>req st'. envelope_gc ''2'' demo_lib demo_b64 (\<lambda>_. Some \<lparr>gc_conversation_id = ''ch'', gc_is_dm = False, gc_actor_id = None\<rparr>) 1000 req
       (demo_state\<lparr>st_require_auth := True, st_db := demo_chat\<rparr>) = ((200, StatusOk), st')
     \<and> is_member demo_chat ''ch'' ''u''"
proof -
  let ?st = "demo_state\<lparr>st_require_auth := True, st_db := demo_chat\<rparr>"
  let ?slice = "\<lambda>_ :: bytes. Some \<lparr>gc_conversation_id = ''ch'', gc_is_dm = False, gc_actor_id = None\<rparr>"
  obtain req :: request where req: "verify_request demo_lib demo_b64 (Some demo_chat) (req_headers req) (req_method req) (req_path req) (req_body req) 1000 = Inr ''u''"
    using demo_signed [of demo_chat] by (auto simp: demo_chat_def)
  have "is_member demo_chat ''ch'' ''u''" by (simp add: is_member_def demo_chat_def demo_main_def)
  with req have gc: "\<exists>st'. envelope_gc ''2'' demo_lib demo_b64 ?slice 1000 req ?st = ((200, StatusOk), st')"
    by (simp add: envelope_gc_def run_endpoint_def gate_def demo_state_def apply_envelope_gc_def)
  have auth: "st_require_auth ?st" by simp
  show ?thesis using message_endpoints_authorised [OF auth, where L = demo_lib and E = demo_b64 and now = 1000 and req = req
      and gc_slice = ?slice and cutoff = "''2''"] gc req unfolding guarded_def by auto
qed

text \<open>C32. What garbage collection removes: an envelope survives exactly if it belongs to another conversation, or it is not older
  than the cutoff and some device of a member (revoked devices included) has not reported a watermark after it, or there is no
  such device. In particular an envelope within its lifetime that some member device has not fetched is kept.\<close>

theorem gc_keeps_unfetched:
  assumes "apply_envelope_gc cutoff a body db = Inr (Ok, db')"
  shows "e \<in> set (envelopes db') \<longleftrightarrow> e \<in> set (envelopes db) \<and> (me_conversation_id e \<noteq> gc_conversation_id body
      \<or> \<not> me_sent_at e < cutoff
        \<and> (gc_devices (gc_is_dm body) db (gc_conversation_id body) = []
           \<or> (\<exists>d \<in> set (gc_devices (gc_is_dm body) db (gc_conversation_id body)).
                \<not> (\<exists>w. device_watermark db (gc_conversation_id body) d = Some w \<and> me_sent_at e < w))))"
proof -
  have "db' = delete_envelopes (collectable cutoff (gc_is_dm body) db (gc_conversation_id body)) db"
    using assms by (auto simp: apply_envelope_gc_def split: sum.splits if_splits dest: resolve_actor_Inl)
  then have "e \<in> set (envelopes db') \<longleftrightarrow> e \<in> set (envelopes db) \<and> \<not> collectable cutoff (gc_is_dm body) db (gc_conversation_id body) e"
    by (simp add: delete_envelopes_def set_sql_delete)
  then show ?thesis unfolding collectable_def below_gc_watermark by blast
qed

theorem gc_keeps_unfetched_witness:
  "\<exists>db'. apply_envelope_gc ''2'' (Some ''u'') \<lparr>gc_conversation_id = ''ch'', gc_is_dm = False, gc_actor_id = None\<rparr> demo_chat = Inr (Ok, db')
     \<and> demo_envelope ''a'' ''ch'' ''4'' \<notin> set (envelopes db') \<and> demo_envelope ''b'' ''ch'' ''6'' \<in> set (envelopes db')
     \<and> demo_envelope ''s'' ''other'' ''1'' \<in> set (envelopes db')"
proof -
  let ?body = "\<lparr>gc_conversation_id = ''ch'', gc_is_dm = False, gc_actor_id = None\<rparr>"
  have "is_member demo_chat ''ch'' ''u''" by (simp add: is_member_def demo_chat_def demo_main_def)
  then obtain db' where db': "apply_envelope_gc ''2'' (Some ''u'') ?body demo_chat = Inr (Ok, db')"
    by (simp add: apply_envelope_gc_def)
  have ds: "gc_devices False demo_chat ''ch'' = [demo_device]"
    by (simp add: gc_devices_def demo_chat_def demo_main_def demo_device_def)
  have w: "device_watermark demo_chat ''ch'' demo_device = Some ''5''"
    by (simp add: device_watermark_def demo_chat_def demo_device_def first_row_def)
  have cmp: "''4'' < ''5''" "\<not> ''6'' < ''5''" "\<not> ''6'' < ''2''" by (simp_all add: less_char_def)
  show ?thesis using db' gc_keeps_unfetched [OF db'] ds w cmp
    by (simp add: demo_chat_def demo_envelope_def)
qed

text \<open>Deleting is not confined to a conversation: a user who is a member of any conversation \<open>c\<close> can, by naming \<open>c\<close> and
  claiming authorship, remove every envelope with a given id, in whichever conversation it is; no
  membership of the envelope's own conversation is asked for.\<close>

theorem delete_crosses_conversations:
  assumes "is_member db (dm_conversation_id body) u" "dm_msg_sender_id body = Some u" "dm_actor_id body = None"
  shows "\<exists>db'. apply_delete_message ulid secs (Some u) body db = Inr (Ok, db')
    \<and> (\<forall>e \<in> set (envelopes db). me_id e = dm_message_id body \<longrightarrow> e \<notin> set (envelopes db'))"
  using assms by (auto simp: apply_delete_message_def remove_message_def delete_envelopes_def set_sql_delete)

theorem delete_crosses_conversations_witness:
  "\<not> is_member demo_chat ''other'' ''u'' \<and> demo_envelope ''s'' ''other'' ''1'' \<in> set (envelopes demo_chat)
   \<and> (\<exists>db'. apply_delete_message ''t'' 0 (Some ''u'')
          \<lparr>dm_message_id = ''s'', dm_conversation_id = ''ch'', dm_msg_sender_id = Some ''u'', dm_actor_id = None\<rparr> demo_chat = Inr (Ok, db')
        \<and> demo_envelope ''s'' ''other'' ''1'' \<notin> set (envelopes db'))"
proof -
  have "is_member demo_chat ''ch'' ''u''" "\<not> is_member demo_chat ''other'' ''u''"
    by (simp_all add: is_member_def demo_chat_def demo_main_def main_db_new_def)
  then show ?thesis
    using delete_crosses_conversations [of demo_chat
        "\<lparr>dm_message_id = ''s'', dm_conversation_id = ''ch'', dm_msg_sender_id = Some ''u'', dm_actor_id = None\<rparr>" "''u''" "''t''" 0]
    by (auto simp: demo_chat_def demo_envelope_def)
qed

end
