(* ===== verification/Delivery_Groups.thy ===== *)
theory Delivery_Groups
  imports Delivery_Messages
begin

text \<open>The group domain of the delivery service (\<open>groups.rs\<close>): groups, channels, membership, invites and join
  requests. Whether the connection enforces foreign keys is the argument \<open>fk\<close>: the local databases of the
  service switch enforcement off and the remote ones leave it to the server. With it an insert needs
  its parent rows and deleting a group deletes what belongs to it. \<open>datetime('now')\<close> is the argument \<open>now\<close>.\<close>

section \<open>Queries\<close>

definition group_role :: "main_db \<Rightarrow> string \<Rightarrow> string \<Rightarrow> string option" where
  "group_role db group_id user_id =
     map_option gm_role (first_row (\<lambda>m. gm_group_id m = group_id \<and> gm_user_id m = user_id) (group_members db))"

definition is_admin :: "main_db \<Rightarrow> string \<Rightarrow> string \<Rightarrow> bool" where
  "is_admin db group_id user_id \<longleftrightarrow> group_role db group_id user_id = Some ''admin''"

definition channel_group_id :: "main_db \<Rightarrow> string \<Rightarrow> string option" where
  "channel_group_id db channel_id = map_option ch_group_id (first_row (\<lambda>c. ch_id c = channel_id) (channels db))"

section \<open>Statements\<close>

definition has_group :: "main_db \<Rightarrow> string \<Rightarrow> bool" where
  "has_group db group_id \<longleftrightarrow> list_ex (\<lambda>g. g_id g = group_id) (groups db)"

definition insert_member :: "bool \<Rightarrow> group_member \<Rightarrow> main_db \<Rightarrow> db_error + main_db" where
  "insert_member fk row db =
     (if list_ex (\<lambda>m. gm_group_id m = gm_group_id row \<and> gm_user_id m = gm_user_id row) (group_members db)
         \<or> fk \<and> \<not> (has_group db (gm_group_id row) \<and> has_user db (gm_user_id row))
      then Inl StatementFailed else Inr (db\<lparr>group_members := group_members db @ [row]\<rparr>))"

definition insert_channel :: "bool \<Rightarrow> channel_row \<Rightarrow> main_db \<Rightarrow> db_error + main_db" where
  "insert_channel fk row db =
     (if list_ex (\<lambda>c. ch_id c = ch_id row) (channels db) \<or> fk \<and> \<not> has_group db (ch_group_id row)
      then Inl StatementFailed else Inr (db\<lparr>channels := channels db @ [row]\<rparr>))"

text \<open>\<open>DELETE FROM groups WHERE id = ?1\<close>, with its cascades.\<close>

definition delete_group_row :: "bool \<Rightarrow> string \<Rightarrow> main_db \<Rightarrow> main_db" where
  "delete_group_row fk group_id db =
     (let db1 = db\<lparr>groups := sql_delete (\<lambda>g. g_id g = group_id) (groups db)\<rparr>
      in if fk \<and> has_group db group_id
         then db1\<lparr>group_members := sql_delete (\<lambda>m. gm_group_id m = group_id) (group_members db),
                  channels := sql_delete (\<lambda>c. ch_group_id c = group_id) (channels db),
                  group_invites := sql_delete (\<lambda>i. iv_group_id i = group_id) (group_invites db),
                  group_join_requests := sql_delete (\<lambda>r. jr_group_id r = group_id) (group_join_requests db)\<rparr>
         else db1)"

text \<open>\<open>add_member_rows\<close>: join as a plain member unless already one, and seed a watermark for every pair of a channel of
  the group and a device of the user.\<close>

definition seed_watermarks :: "string \<Rightarrow> string \<Rightarrow> string \<Rightarrow> main_db \<Rightarrow> main_db" where
  "seed_watermarks now group_id user_id db = db\<lparr>watermarks := fold
     (\<lambda>(c, d). sql_insert_or_ignore (\<lambda>w. cw_conversation_id w = ch_id c \<and> cw_user_id w = user_id \<and> cw_device_id w = ud_device_id d)
        \<lparr>cw_conversation_id = ch_id c, cw_user_id = user_id, cw_device_id = ud_device_id d, cw_last_fetched_at = now\<rparr>)
     (List.product (filter (\<lambda>c. ch_group_id c = group_id) (channels db)) (filter (\<lambda>d. ud_user_id d = user_id) (user_devices db)))
     (watermarks db)\<rparr>"

definition add_member_rows :: "bool \<Rightarrow> string \<Rightarrow> string \<Rightarrow> string \<Rightarrow> main_db \<Rightarrow> db_error + main_db" where
  "add_member_rows fk now group_id user_id db =
     (if list_ex (\<lambda>m. gm_group_id m = group_id \<and> gm_user_id m = user_id) (group_members db)
      then Inr (seed_watermarks now group_id user_id db)
      else bind_res (insert_member fk \<lparr>gm_group_id = group_id, gm_user_id = user_id, gm_role = ''member''\<rparr> db)
             (\<lambda>db1. Inr (seed_watermarks now group_id user_id db1)))"

section \<open>Groups\<close>

record create_group_body =
  cg_id :: string
  cg_name :: string
  cg_description :: "string option"
  cg_owner_id :: "string option"
  cg_default_text_channel_id :: "string option"
  cg_default_voice_channel_id :: "string option"
  cg_created_at :: string

definition insert_default_channel :: "bool \<Rightarrow> string \<Rightarrow> string \<Rightarrow> string \<Rightarrow> string option \<Rightarrow> main_db \<Rightarrow> db_error + main_db" where
  "insert_default_channel fk group_id name kind channel_id db =
     (case channel_id of
        None \<Rightarrow> Inr db
      | Some c \<Rightarrow> insert_channel fk \<lparr>ch_id = c, ch_group_id = group_id, ch_name = name, ch_description = None, ch_channel_type = kind\<rparr> db)"

definition apply_create_group :: "bool \<Rightarrow> create_group_body apply_fn" where
  "apply_create_group fk authed body db =
     (case resolve_actor authed (cg_owner_id body) of
        Inl out \<Rightarrow> Inr (out, db)
      | Inr owner \<Rightarrow>
          if has_group db (cg_id body) then Inl StatementFailed
          else bind_res (insert_member fk \<lparr>gm_group_id = cg_id body, gm_user_id = owner, gm_role = ''admin''\<rparr>
                 (db\<lparr>groups := groups db @ [\<lparr>g_id = cg_id body, g_name = cg_name body, g_description = cg_description body,
                    g_icon_url = None, g_owner_id = owner, g_created_at = cg_created_at body\<rparr>]\<rparr>)) (\<lambda>db1.
               bind_res (insert_default_channel fk (cg_id body) ''General'' ''text'' (cg_default_text_channel_id body) db1) (\<lambda>db2.
               bind_res (insert_default_channel fk (cg_id body) ''Voice Chat'' ''voice'' (cg_default_voice_channel_id body) db2) (\<lambda>db3.
                 Inr (Ok, db3)))))"

record update_group_body =
  ug_group_id :: string
  ug_requester_id :: "string option"
  ug_name :: "string option"
  ug_description :: "string option"
  ug_icon_url :: "string option"

definition set_if :: "'a option \<Rightarrow> ('a \<Rightarrow> 'r \<Rightarrow> 'r) \<Rightarrow> ('r \<Rightarrow> bool) \<Rightarrow> 'r list \<Rightarrow> 'r list" where
  "set_if v f P rows = (case v of None \<Rightarrow> rows | Some x \<Rightarrow> sql_update P (f x) rows)"

definition apply_update_group :: "update_group_body apply_fn" where
  "apply_update_group authed body db =
     (case resolve_actor authed (ug_requester_id body) of
        Inl out \<Rightarrow> Inr (out, db)
      | Inr requester \<Rightarrow>
          if authed \<noteq> None \<and> \<not> is_admin db (ug_group_id body) requester then Inr (OutForbidden, db)
          else let P = (\<lambda>g. g_id g = ug_group_id body)
               in Inr (Ok, db\<lparr>groups :=
                    set_if (ug_icon_url body) (\<lambda>u g. g\<lparr>g_icon_url := Some u\<rparr>) P
                      (set_if (ug_description body) (\<lambda>d g. g\<lparr>g_description := Some d\<rparr>) P
                        (set_if (ug_name body) (\<lambda>n g. g\<lparr>g_name := n\<rparr>) P (groups db)))\<rparr>))"

record group_request_body =
  gq_group_id :: string
  gq_requester_id :: "string option"

definition apply_delete_group :: "bool \<Rightarrow> group_request_body apply_fn" where
  "apply_delete_group fk authed body db =
     (case resolve_actor authed (gq_requester_id body) of
        Inl out \<Rightarrow> Inr (out, db)
      | Inr requester \<Rightarrow>
          if authed \<noteq> None \<and> \<not> is_admin db (gq_group_id body) requester then Inr (OutForbidden, db)
          else Inr (Ok, delete_group_row fk (gq_group_id body) db))"

text \<open>\<open>LeaveGroupBody\<close> has the same two fields, the group and the leaver.\<close>

definition apply_leave_group :: "bool \<Rightarrow> group_request_body apply_fn" where
  "apply_leave_group fk authed body db =
     (case resolve_actor authed (gq_requester_id body) of
        Inl out \<Rightarrow> Inr (out, db)
      | Inr user \<Rightarrow>
          if authed \<noteq> None \<and> group_role db (gq_group_id body) user = None then Inr (OutForbidden, db)
          else let db1 = db\<lparr>group_members := sql_delete (\<lambda>m. gm_group_id m = gq_group_id body \<and> gm_user_id m = user) (group_members db)\<rparr>
               in if length (filter (\<lambda>m. gm_group_id m = gq_group_id body) (group_members db1)) = 0
                  then Inr (Ok, delete_group_row fk (gq_group_id body) db1)
                  else Inr (Ok, db1))"

section \<open>Channels\<close>

record create_channel_body =
  cc_id :: string
  cc_group_id :: string
  cc_name :: string
  cc_description :: "string option"
  cc_channel_type :: string
  cc_creator_id :: "string option"

definition apply_create_channel :: "bool \<Rightarrow> create_channel_body apply_fn" where
  "apply_create_channel fk authed body db =
     (case resolve_actor authed (cc_creator_id body) of
        Inl out \<Rightarrow> Inr (out, db)
      | Inr creator \<Rightarrow>
          if authed \<noteq> None \<and> group_role db (cc_group_id body) creator = None then Inr (OutForbidden, db)
          else bind_res (insert_channel fk \<lparr>ch_id = cc_id body, ch_group_id = cc_group_id body, ch_name = cc_name body,
                   ch_description = cc_description body, ch_channel_type = cc_channel_type body\<rparr> db)
                 (\<lambda>db'. Inr (Ok, db')))"

record update_channel_body =
  uc_channel_id :: string
  uc_requester_id :: "string option"
  uc_name :: "string option"
  uc_description :: "string option"

definition apply_update_channel :: "update_channel_body apply_fn" where
  "apply_update_channel authed body db =
     (case resolve_actor authed (uc_requester_id body) of
        Inl out \<Rightarrow> Inr (out, db)
      | Inr requester \<Rightarrow>
          (case channel_group_id db (uc_channel_id body) of
             None \<Rightarrow> Inr (OutForbidden, db)
           | Some group_id \<Rightarrow>
               if authed \<noteq> None \<and> \<not> is_admin db group_id requester then Inr (OutForbidden, db)
               else let P = (\<lambda>c. ch_id c = uc_channel_id body)
                    in Inr (Ok, db\<lparr>channels :=
                         set_if (uc_description body) (\<lambda>d c. c\<lparr>ch_description := Some d\<rparr>) P
                           (set_if (uc_name body) (\<lambda>n c. c\<lparr>ch_name := n\<rparr>) P (channels db))\<rparr>)))"

record delete_channel_body =
  dc_channel_id :: string
  dc_requester_id :: "string option"

definition apply_delete_channel :: "delete_channel_body apply_fn" where
  "apply_delete_channel authed body db =
     (case resolve_actor authed (dc_requester_id body) of
        Inl out \<Rightarrow> Inr (out, db)
      | Inr requester \<Rightarrow>
          (case channel_group_id db (dc_channel_id body) of
             None \<Rightarrow> Inr (OutForbidden, db)
           | Some group_id \<Rightarrow>
               if authed \<noteq> None \<and> \<not> is_admin db group_id requester then Inr (OutForbidden, db)
               else Inr (Ok, db\<lparr>envelopes := sql_delete (\<lambda>e. me_conversation_id e = dc_channel_id body) (envelopes db),
                      watermarks := sql_delete (\<lambda>w. cw_conversation_id w = dc_channel_id body) (watermarks db),
                      channels := sql_delete (\<lambda>c. ch_id c = dc_channel_id body) (channels db)\<rparr>)))"

section \<open>Members\<close>

record remove_member_body =
  rm_group_id :: string
  rm_user_id :: string
  rm_requester_id :: "string option"

definition apply_remove_member :: "remove_member_body apply_fn" where
  "apply_remove_member authed body db =
     (case resolve_actor authed (rm_requester_id body) of
        Inl out \<Rightarrow> Inr (out, db)
      | Inr requester \<Rightarrow>
          if authed \<noteq> None \<and> requester \<noteq> rm_user_id body \<and> \<not> is_admin db (rm_group_id body) requester then Inr (OutForbidden, db)
          else Inr (Ok, db\<lparr>group_members :=
                 sql_delete (\<lambda>m. gm_group_id m = rm_group_id body \<and> gm_user_id m = rm_user_id body) (group_members db)\<rparr>))"

record member_role_body =
  sr_group_id :: string
  sr_member_id :: string
  sr_role :: string
  sr_requester_id :: "string option"

definition apply_set_member_role :: "member_role_body apply_fn" where
  "apply_set_member_role authed body db =
     (if sr_role body \<noteq> ''admin'' \<and> sr_role body \<noteq> ''member'' then Inr (OutForbidden, db)
      else (case resolve_actor authed (sr_requester_id body) of
        Inl out \<Rightarrow> Inr (out, db)
      | Inr requester \<Rightarrow>
          if authed \<noteq> None \<and> \<not> is_admin db (sr_group_id body) requester then Inr (OutForbidden, db)
          else if group_role db (sr_group_id body) (sr_member_id body) = None then Inr (OutForbidden, db)
          else Inr (Ok, db\<lparr>group_members := sql_update (\<lambda>m. gm_group_id m = sr_group_id body \<and> gm_user_id m = sr_member_id body)
                 (\<lambda>m. m\<lparr>gm_role := sr_role body\<rparr>) (group_members db)\<rparr>)))"

section \<open>Invites\<close>

record create_invite_body =
  ci_id :: string
  ci_group_id :: string
  ci_inviter_id :: "string option"
  ci_invitee_id :: string

definition apply_create_invite :: "bool \<Rightarrow> create_invite_body apply_fn" where
  "apply_create_invite fk authed body db =
     (case resolve_actor authed (ci_inviter_id body) of
        Inl out \<Rightarrow> Inr (out, db)
      | Inr inviter \<Rightarrow>
          if authed \<noteq> None \<and> \<not> is_admin db (ci_group_id body) inviter then Inr (OutForbidden, db)
          else if list_ex (\<lambda>i. iv_id i = ci_id body) (group_invites db)
              \<or> fk \<and> \<not> (has_group db (ci_group_id body) \<and> has_user db inviter \<and> has_user db (ci_invitee_id body))
          then Inl StatementFailed
          else Inr (Ok, db\<lparr>group_invites := group_invites db @ [\<lparr>iv_id = ci_id body, iv_group_id = ci_group_id body,
                 iv_inviter_id = inviter, iv_invitee_id = ci_invitee_id body\<rparr>]\<rparr>))"

record invite_body =
  ib_invite_id :: string
  ib_user_id :: "string option"

definition apply_accept_invite :: "bool \<Rightarrow> string \<Rightarrow> invite_body apply_fn" where
  "apply_accept_invite fk now authed body db =
     (case resolve_actor authed (ib_user_id body) of
        Inl out \<Rightarrow> Inr (out, db)
      | Inr user \<Rightarrow>
          (case first_row (\<lambda>i. iv_id i = ib_invite_id body \<and> iv_invitee_id i = user) (group_invites db) of
             None \<Rightarrow> Inr (OutForbidden, db)
           | Some row \<Rightarrow>
               bind_res (add_member_rows fk now (iv_group_id row) user db) (\<lambda>db1.
                 Inr (Ok, db1\<lparr>group_invites := sql_delete (\<lambda>i. iv_id i = ib_invite_id body) (group_invites db1)\<rparr>))))"

definition apply_decline_invite :: "invite_body apply_fn" where
  "apply_decline_invite authed body db =
     (case resolve_actor authed (ib_user_id body) of
        Inl out \<Rightarrow> Inr (out, db)
      | Inr user \<Rightarrow> Inr (Ok, db\<lparr>group_invites :=
          sql_delete (\<lambda>i. iv_id i = ib_invite_id body \<and> iv_invitee_id i = user) (group_invites db)\<rparr>))"

section \<open>Join requests\<close>

record create_join_body =
  cj_id :: string
  cj_group_id :: string
  cj_requester_id :: "string option"

definition apply_create_join_request :: "bool \<Rightarrow> string \<Rightarrow> create_join_body apply_fn" where
  "apply_create_join_request fk now authed body db =
     (case resolve_actor authed (cj_requester_id body) of
        Inl out \<Rightarrow> Inr (out, db)
      | Inr requester \<Rightarrow>
          let same = (\<lambda>r. jr_group_id r = cj_group_id body \<and> jr_requester_id r = requester)
          in if list_ex (\<lambda>r. jr_id r = cj_id body \<and> \<not> same r) (group_join_requests db)
                \<or> fk \<and> \<not> (has_group db (cj_group_id body) \<and> has_user db requester)
             then Inl StatementFailed
             else Inr (Ok, db\<lparr>group_join_requests := sql_upsert same
                    (\<lambda>r. r\<lparr>jr_id := cj_id body, jr_status := ''pending'', jr_created_at := now\<rparr>)
                    \<lparr>jr_id = cj_id body, jr_group_id = cj_group_id body, jr_requester_id = requester, jr_created_at = now,
                     jr_reviewed_by = None, jr_reviewed_at = None, jr_status = ''pending''\<rparr> (group_join_requests db)\<rparr>))"

record review_body =
  rv_request_id :: string
  rv_approver_id :: "string option"
  rv_reviewed_at :: string

definition pending_request :: "main_db \<Rightarrow> string \<Rightarrow> group_join_request option" where
  "pending_request db request_id = first_row (\<lambda>r. jr_id r = request_id \<and> jr_status r = ''pending'') (group_join_requests db)"

definition review :: "string \<Rightarrow> string \<Rightarrow> review_body \<Rightarrow> main_db \<Rightarrow> main_db" where
  "review status approver body db = db\<lparr>group_join_requests := sql_update (\<lambda>r. jr_id r = rv_request_id body)
     (\<lambda>r. r\<lparr>jr_status := status, jr_reviewed_by := Some approver, jr_reviewed_at := Some (rv_reviewed_at body)\<rparr>) (group_join_requests db)\<rparr>"

definition apply_approve_join_request :: "bool \<Rightarrow> string \<Rightarrow> review_body apply_fn" where
  "apply_approve_join_request fk now authed body db =
     (case resolve_actor authed (rv_approver_id body) of
        Inl out \<Rightarrow> Inr (out, db)
      | Inr approver \<Rightarrow>
          (case pending_request db (rv_request_id body) of
             None \<Rightarrow> Inr (OutForbidden, db)
           | Some row \<Rightarrow>
               if authed \<noteq> None \<and> \<not> is_admin db (jr_group_id row) approver then Inr (OutForbidden, db)
               else bind_res (add_member_rows fk now (jr_group_id row) (jr_requester_id row) db) (\<lambda>db1.
                 if fk \<and> \<not> has_user db approver then Inl StatementFailed
                 else Inr (Ok, review ''approved'' approver body db1))))"

definition apply_reject_join_request :: "bool \<Rightarrow> review_body apply_fn" where
  "apply_reject_join_request fk authed body db =
     (case resolve_actor authed (rv_approver_id body) of
        Inl out \<Rightarrow> Inr (out, db)
      | Inr approver \<Rightarrow>
          (case pending_request db (rv_request_id body) of
             None \<Rightarrow> Inr (OutForbidden, db)
           | Some row \<Rightarrow>
               if authed \<noteq> None \<and> \<not> is_admin db (jr_group_id row) approver then Inr (OutForbidden, db)
               else if fk \<and> \<not> has_user db approver then Inl StatementFailed
               else Inr (Ok, review ''rejected'' approver body db)))"

section \<open>Handlers\<close>

definition create_group where "create_group fk = run_endpoint (apply_create_group fk)"
definition update_group where "update_group = run_endpoint apply_update_group"
definition delete_group where "delete_group fk = run_endpoint (apply_delete_group fk)"
definition leave_group where "leave_group fk = run_endpoint (apply_leave_group fk)"
definition create_channel where "create_channel fk = run_endpoint (apply_create_channel fk)"
definition update_channel where "update_channel = run_endpoint apply_update_channel"
definition delete_channel where "delete_channel = run_endpoint apply_delete_channel"
definition remove_member where "remove_member = run_endpoint apply_remove_member"
definition set_member_role where "set_member_role = run_endpoint apply_set_member_role"
definition create_invite where "create_invite fk = run_endpoint (apply_create_invite fk)"
definition accept_invite where "accept_invite fk now_text = run_endpoint (apply_accept_invite fk now_text)"
definition decline_invite where "decline_invite = run_endpoint apply_decline_invite"
definition create_join_request where "create_join_request fk now_text = run_endpoint (apply_create_join_request fk now_text)"
definition approve_join_request where "approve_join_request fk now_text = run_endpoint (apply_approve_join_request fk now_text)"
definition reject_join_request where "reject_join_request fk = run_endpoint (apply_reject_join_request fk)"

section \<open>Authorisation\<close>

lemmas group_apply_defs [apply_defs] = apply_create_group_def apply_update_group_def apply_delete_group_def apply_leave_group_def
  apply_create_channel_def apply_update_channel_def apply_delete_channel_def apply_remove_member_def apply_set_member_role_def
  apply_create_invite_def apply_accept_invite_def apply_decline_invite_def apply_create_join_request_def
  apply_approve_join_request_def apply_reject_join_request_def

lemmas endpoint_splits = if_splits sum.splits option.splits

interpretation g_create: write_endpoint "apply_create_group fk" "\<lambda>u b db. cg_owner_id b = None \<or> cg_owner_id b = Some u" for fk
  by unfold_locales (auto simp: apply_create_group_def bind_res_eq_Inr split: endpoint_splits dest: resolve_actor_Inl)

interpretation g_update: write_endpoint apply_update_group "\<lambda>u b db. is_admin db (ug_group_id b) u"
  by unfold_locales (auto simp: apply_update_group_def Let_def split: endpoint_splits dest: resolve_actor_Inl)

interpretation g_delete: write_endpoint "apply_delete_group fk" "\<lambda>u b db. is_admin db (gq_group_id b) u" for fk
  by unfold_locales (auto simp: apply_delete_group_def split: endpoint_splits dest: resolve_actor_Inl)

interpretation g_leave: write_endpoint "apply_leave_group fk" "\<lambda>u b db. group_role db (gq_group_id b) u \<noteq> None" for fk
  by unfold_locales (auto simp: apply_leave_group_def Let_def split: endpoint_splits dest: resolve_actor_Inl)

interpretation ch_create: write_endpoint "apply_create_channel fk" "\<lambda>u b db. group_role db (cc_group_id b) u \<noteq> None" for fk
  by unfold_locales (auto simp: apply_create_channel_def bind_res_eq_Inr split: endpoint_splits dest: resolve_actor_Inl)

interpretation ch_update: write_endpoint apply_update_channel
    "\<lambda>u b db. \<exists>g. channel_group_id db (uc_channel_id b) = Some g \<and> is_admin db g u"
  by unfold_locales (auto simp: apply_update_channel_def Let_def split: endpoint_splits dest: resolve_actor_Inl)

interpretation ch_delete: write_endpoint apply_delete_channel
    "\<lambda>u b db. \<exists>g. channel_group_id db (dc_channel_id b) = Some g \<and> is_admin db g u"
  by unfold_locales (auto simp: apply_delete_channel_def split: endpoint_splits dest: resolve_actor_Inl)

interpretation m_remove: write_endpoint apply_remove_member "\<lambda>u b db. u = rm_user_id b \<or> is_admin db (rm_group_id b) u"
  by unfold_locales (auto simp: apply_remove_member_def split: endpoint_splits dest: resolve_actor_Inl)

interpretation m_role: write_endpoint apply_set_member_role
    "\<lambda>u b db. is_admin db (sr_group_id b) u \<and> group_role db (sr_group_id b) (sr_member_id b) \<noteq> None \<and> sr_role b \<in> {''admin'', ''member''}"
  by unfold_locales (auto simp: apply_set_member_role_def split: endpoint_splits dest: resolve_actor_Inl)

interpretation i_create: write_endpoint "apply_create_invite fk" "\<lambda>u b db. is_admin db (ci_group_id b) u" for fk
  by unfold_locales (auto simp: apply_create_invite_def split: endpoint_splits dest: resolve_actor_Inl)

interpretation i_accept: write_endpoint "apply_accept_invite fk now"
    "\<lambda>u b db. \<exists>i \<in> set (group_invites db). iv_id i = ib_invite_id b \<and> iv_invitee_id i = u" for fk now
  by unfold_locales (auto simp: apply_accept_invite_def bind_res_eq_Inr split: endpoint_splits dest: resolve_actor_Inl first_row_Some)

interpretation i_decline: write_endpoint apply_decline_invite "\<lambda>u b db. ib_user_id b = None \<or> ib_user_id b = Some u"
  by unfold_locales (auto simp: apply_decline_invite_def split: endpoint_splits dest: resolve_actor_Inl)

interpretation j_create: write_endpoint "apply_create_join_request fk now" "\<lambda>u b db. cj_requester_id b = None \<or> cj_requester_id b = Some u" for fk now
  by unfold_locales (auto simp: apply_create_join_request_def Let_def split: endpoint_splits dest: resolve_actor_Inl)

interpretation j_approve: write_endpoint "apply_approve_join_request fk now"
    "\<lambda>u b db. \<exists>r. pending_request db (rv_request_id b) = Some r \<and> is_admin db (jr_group_id r) u" for fk now
  by unfold_locales (auto simp: apply_approve_join_request_def bind_res_eq_Inr split: endpoint_splits dest: resolve_actor_Inl)

interpretation j_reject: write_endpoint "apply_reject_join_request fk"
    "\<lambda>u b db. \<exists>r. pending_request db (rv_request_id b) = Some r \<and> is_admin db (jr_group_id r) u" for fk
  by unfold_locales (auto simp: apply_reject_join_request_def split: endpoint_splits dest: resolve_actor_Inl)

section \<open>Keys stay unique\<close>

named_theorems key_intros \<open>statements keep the keys of a table distinct\<close>

lemma distinct_key_delete [key_intros]: "distinct (map k rows) \<Longrightarrow> distinct (map k (sql_delete P rows))"
  by (simp add: sql_delete_def distinct_map_filter)

lemma distinct_key_append [key_intros]:
  "distinct (map k rows) \<Longrightarrow> \<not> list_ex (\<lambda>r. k r = k row) rows \<Longrightarrow> distinct (map k (rows @ [row]))"
  by (auto simp: list_ex_iff)

lemma map_key_update: "(\<And>r. P r \<Longrightarrow> k (f r) = k r) \<Longrightarrow> map k (sql_update P f rows) = map k rows"
  by (simp add: sql_update_def)

lemma distinct_key_update [key_intros]:
  "distinct (map k rows) \<Longrightarrow> (\<And>r. P r \<Longrightarrow> k (f r) = k r) \<Longrightarrow> distinct (map k (sql_update P f rows))"
  by (simp only: map_key_update)

lemma distinct_key_ignore [key_intros]:
  "distinct (map k rows) \<Longrightarrow> (\<And>r. k r = k row \<Longrightarrow> same r) \<Longrightarrow> distinct (map k (sql_insert_or_ignore same row rows))"
  by (auto simp: sql_insert_or_ignore_def list_ex_iff)

lemma distinct_key_upsert [key_intros]:
  assumes "distinct (map k rows)" "\<And>r. k r = k row \<Longrightarrow> same r" "\<And>r. same r \<Longrightarrow> k (f r) = k r"
  shows "distinct (map k (sql_upsert same f row rows))"
  using assms by (auto simp: sql_upsert_def map_key_update list_ex_iff)

lemma distinct_key_set_if [key_intros]:
  "distinct (map k rows) \<Longrightarrow> (\<And>x r. k (f x r) = k r) \<Longrightarrow> distinct (map k (set_if v f P rows))"
  by (simp add: set_if_def map_key_update split: option.split)

section \<open>All writes of the two domains\<close>

text \<open>One constructor per route of the message and group domains (\<open>lib.rs\<close>), and what the writes take from outside.\<close>

datatype write_op =
    SendMessage send_body
  | EditMessage edit_body
  | DeleteMessage delete_body
  | AddReaction reaction_body
  | RemoveReaction reaction_body
  | AdvanceWatermark watermark_body
  | EnvelopeGc gc_body
  | RegisterAttachment attachment_body
  | DeleteAttachment string
  | CreateGroup create_group_body
  | UpdateGroup update_group_body
  | DeleteGroup group_request_body
  | LeaveGroup group_request_body
  | CreateChannel create_channel_body
  | UpdateChannel update_channel_body
  | DeleteChannel delete_channel_body
  | RemoveMember remove_member_body
  | SetMemberRole member_role_body
  | CreateInvite create_invite_body
  | AcceptInvite invite_body
  | DeclineInvite invite_body
  | CreateJoinRequest create_join_body
  | ApproveJoinRequest review_body
  | RejectJoinRequest review_body

record write_env =
  we_fk :: bool
  we_now :: string
  we_secs :: int
  we_ulid :: string
  we_cutoff :: string

fun apply_op :: "write_env \<Rightarrow> write_op apply_fn" where
  "apply_op e a (SendMessage b) db = apply_send_message a b db"
| "apply_op e a (EditMessage b) db = apply_edit_message a b db"
| "apply_op e a (DeleteMessage b) db = apply_delete_message (we_ulid e) (we_secs e) a b db"
| "apply_op e a (AddReaction b) db = apply_add_reaction (we_fk e) (we_ulid e) (we_secs e) a b db"
| "apply_op e a (RemoveReaction b) db = apply_remove_reaction a b db"
| "apply_op e a (AdvanceWatermark b) db = apply_advance_watermark a b db"
| "apply_op e a (EnvelopeGc b) db = apply_envelope_gc (we_cutoff e) a b db"
| "apply_op e a (RegisterAttachment b) db = apply_register_attachment a b db"
| "apply_op e a (DeleteAttachment h) db = apply_delete_attachment a h db"
| "apply_op e a (CreateGroup b) db = apply_create_group (we_fk e) a b db"
| "apply_op e a (UpdateGroup b) db = apply_update_group a b db"
| "apply_op e a (DeleteGroup b) db = apply_delete_group (we_fk e) a b db"
| "apply_op e a (LeaveGroup b) db = apply_leave_group (we_fk e) a b db"
| "apply_op e a (CreateChannel b) db = apply_create_channel (we_fk e) a b db"
| "apply_op e a (UpdateChannel b) db = apply_update_channel a b db"
| "apply_op e a (DeleteChannel b) db = apply_delete_channel a b db"
| "apply_op e a (RemoveMember b) db = apply_remove_member a b db"
| "apply_op e a (SetMemberRole b) db = apply_set_member_role a b db"
| "apply_op e a (CreateInvite b) db = apply_create_invite (we_fk e) a b db"
| "apply_op e a (AcceptInvite b) db = apply_accept_invite (we_fk e) (we_now e) a b db"
| "apply_op e a (DeclineInvite b) db = apply_decline_invite a b db"
| "apply_op e a (CreateJoinRequest b) db = apply_create_join_request (we_fk e) (we_now e) a b db"
| "apply_op e a (ApproveJoinRequest b) db = apply_approve_join_request (we_fk e) (we_now e) a b db"
| "apply_op e a (RejectJoinRequest b) db = apply_reject_join_request (we_fk e) a b db"

text \<open>Databases that these writes and the other domains (users, devices, direct messages) can produce.\<close>

inductive db_reach :: "main_db \<Rightarrow> bool" where
  db_empty: "db_reach main_db_new"
| db_write: "db_reach db \<Longrightarrow> apply_op e a op db = Inr (out, db') \<Longrightarrow> db_reach db'"
| db_other: "db_reach db \<Longrightarrow> db_reach (db\<lparr>users := us, user_devices := ds, dm_channel_members := ms\<rparr>)"

definition envelope_inv :: "message_envelope list \<Rightarrow> bool" where
  "envelope_inv es \<longleftrightarrow> distinct (map me_id es)
     \<and> distinct (map (\<lambda>e. (me_conversation_id e, me_target_message_id e)) (filter (\<lambda>e. me_type e = ''edit'' \<and> me_target_message_id e \<noteq> None) es))"

definition member_inv :: "group_member list \<Rightarrow> bool" where
  "member_inv ms \<longleftrightarrow> distinct (map (\<lambda>m. (gm_group_id m, gm_user_id m)) ms) \<and> (\<forall>m \<in> set ms. gm_role m \<in> {''admin'', ''member''})"

text \<open>Envelope ids are unique and a message has at most one pending edit; a user is in a group once, as admin or
  member; and every other key of the schema is unique.\<close>

definition db_inv :: "main_db \<Rightarrow> bool" where
  "db_inv db \<longleftrightarrow> envelope_inv (envelopes db) \<and> member_inv (group_members db)
     \<and> distinct (map (\<lambda>w. (cw_conversation_id w, cw_user_id w, cw_device_id w)) (watermarks db))
     \<and> distinct (map g_id (groups db)) \<and> distinct (map ch_id (channels db)) \<and> distinct (map iv_id (group_invites db))
     \<and> distinct (map (\<lambda>r. (jr_group_id r, jr_requester_id r)) (group_join_requests db))
     \<and> distinct (map (\<lambda>r. (mr_message_id r, mr_user_id r, mr_emoji r)) (reactions db))
     \<and> distinct (map ao_content_hash (attachments db))"

lemma envelope_inv_delete:
  assumes "envelope_inv es"
  shows "envelope_inv (sql_delete P es)"
proof -
  have eq: "filter Q (sql_delete P es) = sql_delete P (filter Q es)" for Q by (simp add: sql_delete_def conj_commute)
  show ?thesis using assms unfolding envelope_inv_def eq by (blast intro: distinct_key_delete)
qed

lemma insert_envelope_inv:
  assumes "insert_envelope row db = Inr db'" "envelope_inv (envelopes db)"
  shows "db' = db\<lparr>envelopes := envelopes db @ [row]\<rparr> \<and> envelope_inv (envelopes db @ [row])"
  using assms by (auto simp: insert_envelope_def envelope_inv_def list_ex_iff split: if_splits)

lemma member_inv_delete: "member_inv ms \<Longrightarrow> member_inv (sql_delete P ms)"
  by (auto simp: member_inv_def sql_delete_def distinct_map_filter)

lemma insert_member_inv:
  assumes "insert_member fk row db = Inr db'" "member_inv (group_members db)" "gm_role row \<in> {''admin'', ''member''}"
  shows "db' = db\<lparr>group_members := group_members db @ [row]\<rparr> \<and> member_inv (group_members db @ [row])"
  using assms by (auto simp: insert_member_def member_inv_def list_ex_iff split: if_splits)

lemma member_inv_role:
  "member_inv ms \<Longrightarrow> role \<in> {''admin'', ''member''} \<Longrightarrow> member_inv (sql_update P (\<lambda>m. m\<lparr>gm_role := role\<rparr>) ms)"
  by (auto simp: member_inv_def map_key_update elim!: set_sql_updateE)

lemma distinct_seed:
  "distinct (map (\<lambda>w. (cw_conversation_id w, cw_user_id w, cw_device_id w)) ws) \<Longrightarrow>
   distinct (map (\<lambda>w. (cw_conversation_id w, cw_user_id w, cw_device_id w)) (fold
     (\<lambda>(c, d). sql_insert_or_ignore (\<lambda>w. cw_conversation_id w = ch_id c \<and> cw_user_id w = user_id \<and> cw_device_id w = ud_device_id d)
        \<lparr>cw_conversation_id = ch_id c, cw_user_id = user_id, cw_device_id = ud_device_id d, cw_last_fetched_at = now\<rparr>) ps ws))"
proof (induction ps arbitrary: ws)
  case (Cons p ps)
  obtain c d where p: "p = (c, d)" by fastforce
  show ?case unfolding p fold.simps comp_apply prod.case
    by (rule Cons.IH, rule distinct_key_ignore [OF Cons.prems]) simp
qed simp

lemma db_inv_seed: "db_inv db \<Longrightarrow> db_inv (seed_watermarks now g u db)"
  using distinct_seed [of "watermarks db"] by (simp add: db_inv_def seed_watermarks_def)

lemma add_member_rows_inv:
  assumes "add_member_rows fk now g u db = Inr db'" "db_inv db"
  shows "db_inv db'"
proof (cases "list_ex (\<lambda>m. gm_group_id m = g \<and> gm_user_id m = u) (group_members db)")
  case True
  with assms db_inv_seed show ?thesis by (auto simp: add_member_rows_def)
next
  case False
  then obtain db1 where db1: "insert_member fk \<lparr>gm_group_id = g, gm_user_id = u, gm_role = ''member''\<rparr> db = Inr db1"
      "db' = seed_watermarks now g u db1"
    using assms(1) by (auto simp: add_member_rows_def bind_res_eq_Inr)
  then have "db_inv db1" using insert_member_inv [OF db1(1)] assms(2) by (auto simp: db_inv_def)
  with db1(2) db_inv_seed show ?thesis by simp
qed

lemma delete_group_row_inv: "db_inv db \<Longrightarrow> db_inv (delete_group_row fk g db)"
  by (auto simp: db_inv_def delete_group_row_def Let_def member_inv_delete intro: key_intros)

lemma insert_channel_inv: "insert_channel fk row db = Inr db' \<Longrightarrow> db_inv db \<Longrightarrow> db_inv db'"
  using distinct_key_append [of ch_id "channels db" row] by (auto simp: insert_channel_def db_inv_def split: if_splits)

lemma insert_default_channel_inv: "insert_default_channel fk g n k c db = Inr db' \<Longrightarrow> db_inv db \<Longrightarrow> db_inv db'"
  by (auto simp: insert_default_channel_def insert_channel_inv split: option.splits)

lemma insert_envelope_db_inv: "insert_envelope row db = Inr db' \<Longrightarrow> db_inv db \<Longrightarrow> db_inv db'"
  using insert_envelope_inv [of row db db'] by (auto simp: db_inv_def)

lemma delete_envelopes_inv: "db_inv db \<Longrightarrow> db_inv (delete_envelopes P db)"
  by (simp add: db_inv_def delete_envelopes_def envelope_inv_delete)

lemma remove_message_inv: "db_inv db \<Longrightarrow> db_inv (remove_message i db)"
  by (simp add: remove_message_def delete_envelopes_inv)

lemma message_ops_inv:
  assumes "db_inv db"
  shows "apply_send_message a b1 db = Inr (out, db') \<Longrightarrow> db_inv db'"
    and "apply_edit_message a b2 db = Inr (out, db') \<Longrightarrow> db_inv db'"
    and "apply_delete_message ulid secs a b3 db = Inr (out, db') \<Longrightarrow> db_inv db'"
    and "apply_envelope_gc cutoff a b4 db = Inr (out, db') \<Longrightarrow> db_inv db'"
  using assms delete_envelopes_inv remove_message_inv
  by (auto simp: apply_defs bind_res_eq_Inr Let_def split: endpoint_splits prod.splits intro: insert_envelope_db_inv)

lemma reaction_ops_inv:
  assumes "db_inv db"
  shows "apply_add_reaction fk ulid secs a b1 db = Inr (out, db') \<Longrightarrow> db_inv db'"
    and "apply_remove_reaction a b2 db = Inr (out, db') \<Longrightarrow> db_inv db'"
    and "apply_advance_watermark a b3 db = Inr (out, db') \<Longrightarrow> db_inv db'"
    and "apply_register_attachment a b4 db = Inr (out, db') \<Longrightarrow> db_inv db'"
    and "apply_delete_attachment a b5 db = Inr (out, db') \<Longrightarrow> db_inv db'"
  using assms
  by (auto simp: apply_defs db_inv_def Let_def split: endpoint_splits intro!: key_intros)

lemma group_ops_inv:
  assumes "db_inv db"
  shows "apply_update_group a b2 db = Inr (out, db') \<Longrightarrow> db_inv db'"
    and "apply_delete_group fk a b3 db = Inr (out, db') \<Longrightarrow> db_inv db'"
    and "apply_create_channel fk a b5 db = Inr (out, db') \<Longrightarrow> db_inv db'"
    and "apply_update_channel a b6 db = Inr (out, db') \<Longrightarrow> db_inv db'"
    and "apply_delete_channel a b7 db = Inr (out, db') \<Longrightarrow> db_inv db'"
proof -
  show "apply_update_group a b2 db = Inr (out, db') \<Longrightarrow> db_inv db'"
    using assms by (auto simp: apply_update_group_def db_inv_def Let_def split: endpoint_splits intro!: key_intros)
  show "apply_delete_group fk a b3 db = Inr (out, db') \<Longrightarrow> db_inv db'"
    using assms delete_group_row_inv by (auto simp: apply_delete_group_def split: endpoint_splits)
  show "apply_create_channel fk a b5 db = Inr (out, db') \<Longrightarrow> db_inv db'"
    using assms by (auto simp: apply_create_channel_def bind_res_eq_Inr split: endpoint_splits intro: insert_channel_inv)
  show "apply_update_channel a b6 db = Inr (out, db') \<Longrightarrow> db_inv db'"
    using assms by (auto simp: apply_update_channel_def db_inv_def Let_def split: endpoint_splits intro!: key_intros)
  show "apply_delete_channel a b7 db = Inr (out, db') \<Longrightarrow> db_inv db'"
    using assms by (auto simp: apply_delete_channel_def db_inv_def envelope_inv_delete split: endpoint_splits intro!: key_intros)
qed

lemma leave_group_inv: "db_inv db \<Longrightarrow> apply_leave_group fk a b db = Inr (out, db') \<Longrightarrow> db_inv db'"
proof -
  assume inv: "db_inv db" and app: "apply_leave_group fk a b db = Inr (out, db')"
  have "db_inv (db\<lparr>group_members := sql_delete P (group_members db)\<rparr>)" for P
    using inv by (simp add: db_inv_def member_inv_delete)
  with app inv delete_group_row_inv show "db_inv db'"
    by (auto simp: apply_leave_group_def Let_def split: endpoint_splits)
qed

lemma create_group_inv:
  assumes "db_inv db" "apply_create_group fk a b db = Inr (out, db')"
  shows "db_inv db'"
proof (cases "resolve_actor a (cg_owner_id b)")
  case (Inr owner)
  let ?g = "\<lparr>g_id = cg_id b, g_name = cg_name b, g_description = cg_description b,
      g_icon_url = None, g_owner_id = owner, g_created_at = cg_created_at b\<rparr>"
  let ?db0 = "db\<lparr>groups := groups db @ [?g]\<rparr>"
  have fresh: "\<not> has_group db (cg_id b)" using assms(2) Inr by (auto simp: apply_create_group_def)
  then obtain db1 db2 db3 where
      1: "insert_member fk \<lparr>gm_group_id = cg_id b, gm_user_id = owner, gm_role = ''admin''\<rparr> ?db0 = Inr db1"
    and 2: "insert_default_channel fk (cg_id b) ''General'' ''text'' (cg_default_text_channel_id b) db1 = Inr db2"
    and 3: "insert_default_channel fk (cg_id b) ''Voice Chat'' ''voice'' (cg_default_voice_channel_id b) db2 = Inr db3"
    and "db' = db3"
    using assms(2) Inr by (auto simp: apply_create_group_def bind_res_eq_Inr)
  have "distinct (map g_id (groups db @ [?g]))"
    using assms(1) fresh by (intro distinct_key_append) (auto simp: db_inv_def has_group_def)
  then have "db_inv ?db0" using assms(1) by (simp add: db_inv_def)
  then have "db_inv db1" using insert_member_inv [OF 1] by (auto simp: db_inv_def)
  then show ?thesis using insert_default_channel_inv [OF 2] insert_default_channel_inv [OF 3] \<open>db' = db3\<close> by simp
qed (use assms in \<open>simp add: apply_create_group_def\<close>)

lemma member_ops_inv:
  assumes "db_inv db"
  shows "apply_remove_member a b1 db = Inr (out, db') \<Longrightarrow> db_inv db'"
    and "apply_set_member_role a b2 db = Inr (out, db') \<Longrightarrow> db_inv db'"
proof -
  show "apply_remove_member a b1 db = Inr (out, db') \<Longrightarrow> db_inv db'"
    using assms by (auto simp: apply_remove_member_def db_inv_def member_inv_delete split: endpoint_splits)
  show "apply_set_member_role a b2 db = Inr (out, db') \<Longrightarrow> db_inv db'"
    using assms member_inv_role [of "group_members db" "sr_role b2"]
    by (auto simp: apply_set_member_role_def db_inv_def split: endpoint_splits)
qed

lemma invite_ops_inv:
  assumes "db_inv db"
  shows "apply_create_invite fk a b1 db = Inr (out, db') \<Longrightarrow> db_inv db'"
    and "apply_accept_invite fk now a b2 db = Inr (out, db') \<Longrightarrow> db_inv db'"
    and "apply_decline_invite a b3 db = Inr (out, db') \<Longrightarrow> db_inv db'"
proof -
  show "apply_create_invite fk a b1 db = Inr (out, db') \<Longrightarrow> db_inv db'"
    using assms by (auto simp: apply_create_invite_def db_inv_def list_ex_iff split: endpoint_splits) blast+
  have del: "db_inv x \<Longrightarrow> db_inv (x\<lparr>group_invites := sql_delete P (group_invites x)\<rparr>)" for x P
    by (simp add: db_inv_def distinct_key_delete)
  show "apply_accept_invite fk now a b2 db = Inr (out, db') \<Longrightarrow> db_inv db'"
    using assms del by (auto simp: apply_accept_invite_def bind_res_eq_Inr split: endpoint_splits dest: add_member_rows_inv)
  show "apply_decline_invite a b3 db = Inr (out, db') \<Longrightarrow> db_inv db'"
    using assms del by (auto simp: apply_decline_invite_def split: endpoint_splits)
qed

lemma review_inv: "db_inv db \<Longrightarrow> db_inv (review status u b db)"
  by (auto simp: db_inv_def review_def intro!: key_intros)

lemma join_ops_inv:
  assumes "db_inv db"
  shows "apply_create_join_request fk now a b1 db = Inr (out, db') \<Longrightarrow> db_inv db'"
    and "apply_approve_join_request fk now a b2 db = Inr (out, db') \<Longrightarrow> db_inv db'"
    and "apply_reject_join_request fk a b3 db = Inr (out, db') \<Longrightarrow> db_inv db'"
proof -
  show "apply_create_join_request fk now a b1 db = Inr (out, db') \<Longrightarrow> db_inv db'"
    using assms by (auto simp: apply_create_join_request_def db_inv_def Let_def split: endpoint_splits intro!: key_intros)
  show "apply_approve_join_request fk now a b2 db = Inr (out, db') \<Longrightarrow> db_inv db'"
    using assms by (auto simp: apply_approve_join_request_def bind_res_eq_Inr split: endpoint_splits dest: add_member_rows_inv intro: review_inv)
  show "apply_reject_join_request fk a b3 db = Inr (out, db') \<Longrightarrow> db_inv db'"
    using assms by (auto simp: apply_reject_join_request_def split: endpoint_splits intro: review_inv)
qed

lemmas all_ops_inv = message_ops_inv reaction_ops_inv group_ops_inv leave_group_inv create_group_inv member_ops_inv invite_ops_inv join_ops_inv

lemma apply_op_inv: "apply_op e a op db = Inr (out, db') \<Longrightarrow> db_inv db \<Longrightarrow> db_inv db'"
  by (cases op) (simp_all, (blast intro: all_ops_inv)+)

lemma db_reach_inv: "db_reach db \<Longrightarrow> db_inv db"
proof (induction rule: db_reach.induct)
  case db_empty
  show ?case by (simp add: db_inv_def main_db_new_def envelope_inv_def member_inv_def)
next
  case (db_write db e a op out db')
  then show ?case using apply_op_inv by blast
qed (simp add: db_inv_def)

section \<open>Where memberships come from\<close>

lemma insert_envelope_members: "insert_envelope row db = Inr db' \<Longrightarrow> group_members db' = group_members db"
  by (auto simp: insert_envelope_def split: if_splits)

lemma statement_members [simp]:
  "group_members (delete_envelopes P db) = group_members db"
  "group_members (remove_message i db) = group_members db"
  "group_members (seed_watermarks now g u db) = group_members db"
  "group_members (review status u b db) = group_members db"
  by (simp_all add: delete_envelopes_def remove_message_def seed_watermarks_def review_def)

lemma insert_channel_members: "insert_channel fk row db = Inr db' \<Longrightarrow> group_members db' = group_members db"
  by (auto simp: insert_channel_def split: if_splits)

lemma insert_default_channel_members: "insert_default_channel fk g n k c db = Inr db' \<Longrightarrow> group_members db' = group_members db"
  by (auto simp: insert_default_channel_def insert_channel_members split: option.splits)

lemma insert_member_members: "insert_member fk row db = Inr db' \<Longrightarrow> group_members db' = group_members db @ [row]"
  by (auto simp: insert_member_def split: if_splits)

lemma add_member_rows_members:
  "add_member_rows fk now g u db = Inr db' \<Longrightarrow>
   set (group_members db') \<subseteq> insert \<lparr>gm_group_id = g, gm_user_id = u, gm_role = ''member''\<rparr> (set (group_members db))"
  by (auto simp: add_member_rows_def bind_res_eq_Inr split: if_splits dest: insert_member_members)

lemma delete_group_row_members: "set (group_members (delete_group_row fk g db)) \<subseteq> set (group_members db)"
  by (auto simp: delete_group_row_def Let_def set_sql_delete)

lemma message_ops_members:
  "apply_send_message a b1 db = Inr (out, db') \<Longrightarrow> group_members db' = group_members db"
  "apply_edit_message a b2 db = Inr (out, db') \<Longrightarrow> group_members db' = group_members db"
  "apply_delete_message ulid secs a b3 db = Inr (out, db') \<Longrightarrow> group_members db' = group_members db"
  "apply_envelope_gc cutoff a b4 db = Inr (out, db') \<Longrightarrow> group_members db' = group_members db"
  "apply_add_reaction fk ulid secs a b5 db = Inr (out, db') \<Longrightarrow> group_members db' = group_members db"
  "apply_remove_reaction a b6 db = Inr (out, db') \<Longrightarrow> group_members db' = group_members db"
  "apply_advance_watermark a b7 db = Inr (out, db') \<Longrightarrow> group_members db' = group_members db"
  "apply_register_attachment a b8 db = Inr (out, db') \<Longrightarrow> group_members db' = group_members db"
  "apply_delete_attachment a b9 db = Inr (out, db') \<Longrightarrow> group_members db' = group_members db"
  by (auto simp: apply_defs bind_res_eq_Inr Let_def split: endpoint_splits prod.splits dest: insert_envelope_members)

lemma group_ops_members:
  "apply_update_group a b1 db = Inr (out, db') \<Longrightarrow> group_members db' = group_members db"
  "apply_create_channel fk a b2 db = Inr (out, db') \<Longrightarrow> group_members db' = group_members db"
  "apply_update_channel a b3 db = Inr (out, db') \<Longrightarrow> group_members db' = group_members db"
  "apply_delete_channel a b4 db = Inr (out, db') \<Longrightarrow> group_members db' = group_members db"
  "apply_create_invite fk a b5 db = Inr (out, db') \<Longrightarrow> group_members db' = group_members db"
  "apply_decline_invite a b6 db = Inr (out, db') \<Longrightarrow> group_members db' = group_members db"
  "apply_create_join_request fk now a b7 db = Inr (out, db') \<Longrightarrow> group_members db' = group_members db"
  "apply_reject_join_request fk a b8 db = Inr (out, db') \<Longrightarrow> group_members db' = group_members db"
  by (auto simp: apply_defs bind_res_eq_Inr Let_def split: endpoint_splits dest: insert_channel_members)

lemma leaving_ops_members:
  "apply_delete_group fk a b1 db = Inr (out, db') \<Longrightarrow> set (group_members db') \<subseteq> set (group_members db)"
  "apply_remove_member a b2 db = Inr (out, db') \<Longrightarrow> set (group_members db') \<subseteq> set (group_members db)"
  by (auto simp: apply_defs set_sql_delete split: endpoint_splits dest: subsetD [OF delete_group_row_members])

lemma leave_group_members:
  assumes "apply_leave_group fk a b db = Inr (out, db')"
  shows "set (group_members db') \<subseteq> set (group_members db)"
proof -
  let ?db1 = "\<lambda>u. db\<lparr>group_members := sql_delete (\<lambda>m. gm_group_id m = gq_group_id b \<and> gm_user_id m = u) (group_members db)\<rparr>"
  have "db' = db \<or> (\<exists>u. db' = ?db1 u) \<or> (\<exists>u. db' = delete_group_row fk (gq_group_id b) (?db1 u))"
    using assms by (auto simp: apply_leave_group_def Let_def split: endpoint_splits)
  moreover have "set (group_members (delete_group_row fk (gq_group_id b) (?db1 u))) \<subseteq> set (group_members db)" for u
    using delete_group_row_members [of fk "gq_group_id b" "?db1 u"] by (auto simp: set_sql_delete)
  ultimately show ?thesis by (auto simp: set_sql_delete)
qed

lemma create_group_members:
  "apply_create_group fk a b db = Inr (Ok, db') \<Longrightarrow> \<exists>owner. resolve_actor a (cg_owner_id b) = Inr owner \<and> \<not> has_group db (cg_id b)
     \<and> group_members db' = group_members db @ [\<lparr>gm_group_id = cg_id b, gm_user_id = owner, gm_role = ''admin''\<rparr>]"
  by (auto simp: apply_create_group_def bind_res_eq_Inr split: endpoint_splits
      dest!: insert_member_members insert_default_channel_members dest: resolve_actor_Inl)

text \<open>How a row \<open>m\<close> of the member table can be written by a request of \<open>u\<close>.\<close>

definition membership_granted :: "string \<Rightarrow> write_op \<Rightarrow> main_db \<Rightarrow> group_member \<Rightarrow> bool" where
  "membership_granted u op db m \<longleftrightarrow> (case op of
       CreateGroup b \<Rightarrow> \<not> has_group db (cg_id b) \<and> m = \<lparr>gm_group_id = cg_id b, gm_user_id = u, gm_role = ''admin''\<rparr>
     | AcceptInvite b \<Rightarrow> \<exists>i \<in> set (group_invites db). iv_id i = ib_invite_id b \<and> iv_invitee_id i = u
         \<and> m = \<lparr>gm_group_id = iv_group_id i, gm_user_id = u, gm_role = ''member''\<rparr>
     | ApproveJoinRequest b \<Rightarrow> \<exists>r. pending_request db (rv_request_id b) = Some r \<and> is_admin db (jr_group_id r) u
         \<and> m = \<lparr>gm_group_id = jr_group_id r, gm_user_id = jr_requester_id r, gm_role = ''member''\<rparr>
     | SetMemberRole b \<Rightarrow> is_admin db (sr_group_id b) u \<and> group_role db (sr_group_id b) (sr_member_id b) \<noteq> None
         \<and> m = \<lparr>gm_group_id = sr_group_id b, gm_user_id = sr_member_id b, gm_role = sr_role b\<rparr>
     | _ \<Rightarrow> False)"

lemma granting_ops_members:
  assumes "m \<in> set (group_members db')" "m \<notin> set (group_members db)"
  shows "apply_accept_invite fk now (Some u) b1 db = Inr (Ok, db') \<Longrightarrow> membership_granted u (AcceptInvite b1) db m"
    and "apply_approve_join_request fk now (Some u) b2 db = Inr (Ok, db') \<Longrightarrow> membership_granted u (ApproveJoinRequest b2) db m"
    and "apply_set_member_role (Some u) b3 db = Inr (Ok, db') \<Longrightarrow> membership_granted u (SetMemberRole b3) db m"
    and "apply_create_group fk (Some u) b4 db = Inr (Ok, db') \<Longrightarrow> membership_granted u (CreateGroup b4) db m"
proof -
  show "apply_accept_invite fk now (Some u) b1 db = Inr (Ok, db') \<Longrightarrow> membership_granted u (AcceptInvite b1) db m"
    using assms by (auto simp: apply_accept_invite_def membership_granted_def bind_res_eq_Inr split: endpoint_splits
        dest!: add_member_rows_members resolve_actor_authed first_row_Some)
  show "apply_approve_join_request fk now (Some u) b2 db = Inr (Ok, db') \<Longrightarrow> membership_granted u (ApproveJoinRequest b2) db m"
    using assms by (auto simp: apply_approve_join_request_def membership_granted_def bind_res_eq_Inr split: endpoint_splits
        dest!: add_member_rows_members resolve_actor_authed)
  show "apply_set_member_role (Some u) b3 db = Inr (Ok, db') \<Longrightarrow> membership_granted u (SetMemberRole b3) db m"
    using assms by (auto simp: apply_set_member_role_def membership_granted_def split: endpoint_splits
        dest!: resolve_actor_authed elim!: set_sql_updateE)
  show "apply_create_group fk (Some u) b4 db = Inr (Ok, db') \<Longrightarrow> membership_granted u (CreateGroup b4) db m"
    using assms by (auto simp: membership_granted_def dest!: create_group_members resolve_actor_authed)
qed

lemma apply_op_members:
  assumes "apply_op e (Some u) op db = Inr (Ok, db')" "m \<in> set (group_members db')" "m \<notin> set (group_members db)"
  shows "membership_granted u op db m"
  using assms(1) granting_ops_members [OF assms(2,3)] assms(2,3)
  by (cases op) (auto dest: message_ops_members group_ops_members leaving_ops_members leave_group_members)

lemma apply_op_refused: "apply_op e a op db = Inr (OutForbidden, db') \<Longrightarrow> db' = db"
  by (cases op) (simp_all add: send.refused_unchanged edit.refused_unchanged delete.refused_unchanged react.refused_unchanged
      unreact.refused_unchanged watermark.refused_unchanged gc.refused_unchanged attach.refused_unchanged detach.refused_unchanged
      g_create.refused_unchanged g_update.refused_unchanged g_delete.refused_unchanged g_leave.refused_unchanged
      ch_create.refused_unchanged ch_update.refused_unchanged ch_delete.refused_unchanged m_remove.refused_unchanged
      m_role.refused_unchanged i_create.refused_unchanged i_accept.refused_unchanged i_decline.refused_unchanged
      j_create.refused_unchanged j_approve.refused_unchanged j_reject.refused_unchanged)

subsection \<open>Where invites come from\<close>

lemma statement_invites [simp]:
  "group_invites (delete_envelopes P db) = group_invites db"
  "group_invites (remove_message i db) = group_invites db"
  "group_invites (seed_watermarks now g u db) = group_invites db"
  "group_invites (review status u b db) = group_invites db"
  by (simp_all add: delete_envelopes_def remove_message_def seed_watermarks_def review_def)

lemma insert_invites:
  "insert_envelope r1 db = Inr db' \<Longrightarrow> group_invites db' = group_invites db"
  "insert_channel fk r2 db = Inr db' \<Longrightarrow> group_invites db' = group_invites db"
  "insert_member fk r3 db = Inr db' \<Longrightarrow> group_invites db' = group_invites db"
  by (auto simp: insert_envelope_def insert_channel_def insert_member_def split: if_splits)

lemma insert_default_channel_invites: "insert_default_channel fk g n k c db = Inr db' \<Longrightarrow> group_invites db' = group_invites db"
  by (auto simp: insert_default_channel_def insert_invites split: option.splits)

lemma add_member_rows_invites: "add_member_rows fk now g u db = Inr db' \<Longrightarrow> group_invites db' = group_invites db"
  by (auto simp: add_member_rows_def bind_res_eq_Inr split: if_splits dest: insert_invites)

lemma delete_group_row_invites: "i \<in> set (group_invites (delete_group_row fk g db)) \<Longrightarrow> i \<in> set (group_invites db)"
  by (auto simp: delete_group_row_def Let_def set_sql_delete split: if_splits)

lemma message_ops_invites:
  "apply_send_message a b1 db = Inr (out, db') \<Longrightarrow> group_invites db' = group_invites db"
  "apply_edit_message a b2 db = Inr (out, db') \<Longrightarrow> group_invites db' = group_invites db"
  "apply_delete_message ulid secs a b3 db = Inr (out, db') \<Longrightarrow> group_invites db' = group_invites db"
  "apply_envelope_gc cutoff a b4 db = Inr (out, db') \<Longrightarrow> group_invites db' = group_invites db"
  "apply_add_reaction fk ulid secs a b5 db = Inr (out, db') \<Longrightarrow> group_invites db' = group_invites db"
  "apply_remove_reaction a b6 db = Inr (out, db') \<Longrightarrow> group_invites db' = group_invites db"
  "apply_advance_watermark a b7 db = Inr (out, db') \<Longrightarrow> group_invites db' = group_invites db"
  "apply_register_attachment a b8 db = Inr (out, db') \<Longrightarrow> group_invites db' = group_invites db"
  "apply_delete_attachment a b9 db = Inr (out, db') \<Longrightarrow> group_invites db' = group_invites db"
  by (auto simp: apply_defs bind_res_eq_Inr Let_def split: endpoint_splits prod.splits dest: insert_invites)

lemma group_ops_invites:
  "apply_update_group a b1 db = Inr (out, db') \<Longrightarrow> group_invites db' = group_invites db"
  "apply_create_channel fk a b2 db = Inr (out, db') \<Longrightarrow> group_invites db' = group_invites db"
  "apply_update_channel a b3 db = Inr (out, db') \<Longrightarrow> group_invites db' = group_invites db"
  "apply_delete_channel a b4 db = Inr (out, db') \<Longrightarrow> group_invites db' = group_invites db"
  "apply_remove_member a b5 db = Inr (out, db') \<Longrightarrow> group_invites db' = group_invites db"
  "apply_set_member_role a b6 db = Inr (out, db') \<Longrightarrow> group_invites db' = group_invites db"
  "apply_create_join_request fk now a b7 db = Inr (out, db') \<Longrightarrow> group_invites db' = group_invites db"
  "apply_reject_join_request fk a b8 db = Inr (out, db') \<Longrightarrow> group_invites db' = group_invites db"
  "apply_approve_join_request fk now a b9 db = Inr (out, db') \<Longrightarrow> group_invites db' = group_invites db"
  by (auto simp: apply_defs bind_res_eq_Inr Let_def split: endpoint_splits dest: insert_invites add_member_rows_invites)

lemma create_group_invites: "apply_create_group fk a b db = Inr (out, db') \<Longrightarrow> group_invites db' = group_invites db"
  by (auto simp: apply_create_group_def bind_res_eq_Inr split: endpoint_splits
      dest!: insert_invites insert_default_channel_invites)

lemma invite_ops_invites:
  assumes "i \<in> set (group_invites db')"
  shows "apply_accept_invite fk now a b1 db = Inr (out, db') \<Longrightarrow> i \<in> set (group_invites db)"
    and "apply_decline_invite a b2 db = Inr (out, db') \<Longrightarrow> i \<in> set (group_invites db)"
    and "apply_delete_group fk a b3 db = Inr (out, db') \<Longrightarrow> i \<in> set (group_invites db)"
    and "apply_leave_group fk a b4 db = Inr (out, db') \<Longrightarrow> i \<in> set (group_invites db)"
  using assms
  by (auto simp: apply_accept_invite_def apply_decline_invite_def apply_delete_group_def apply_leave_group_def
      bind_res_eq_Inr set_sql_delete Let_def split: endpoint_splits dest!: add_member_rows_invites delete_group_row_invites)

lemma create_invite_invites:
  assumes "apply_create_invite fk (Some u) b db = Inr (out, db')" "i \<in> set (group_invites db')" "i \<notin> set (group_invites db)"
  shows "iv_group_id i = ci_group_id b \<and> iv_inviter_id i = u \<and> is_admin db (ci_group_id b) u"
  using assms by (auto simp: apply_create_invite_def split: endpoint_splits dest!: resolve_actor_authed dest: resolve_actor_Inl)

lemma apply_op_invites:
  assumes "apply_op e (Some u) op db = Inr (out, db')" "i \<in> set (group_invites db')" "i \<notin> set (group_invites db)"
  shows "iv_inviter_id i = u \<and> is_admin db (iv_group_id i) u"
  using assms
  by (cases op) (auto dest: message_ops_invites group_ops_invites create_group_invites invite_ops_invites create_invite_invites)

subsection \<open>Runs without an admin\<close>

text \<open>Any sequence of authenticated writes in which no request comes from a user who is an admin of the group \<open>g\<close> when
  it is handled, and none creates a group with this id.\<close>

inductive outsider_run :: "string \<Rightarrow> main_db \<Rightarrow> main_db \<Rightarrow> bool" for g where
  outsider_start: "outsider_run g db db"
| outsider_step: "outsider_run g db db1 \<Longrightarrow> apply_op e (Some u) op db1 = Inr (out, db2) \<Longrightarrow> \<not> is_admin db1 g u
    \<Longrightarrow> (\<And>b. op = CreateGroup b \<Longrightarrow> cg_id b \<noteq> g) \<Longrightarrow> outsider_run g db db2"

lemma outsider_invites:
  assumes "outsider_run g db db'" "i \<in> set (group_invites db')" "iv_group_id i = g"
  shows "i \<in> set (group_invites db)"
  using assms
proof (induction rule: outsider_run.induct)
  case (outsider_step db db1 e u op out db2)
  then show ?case using apply_op_invites by blast
qed

lemma outsider_members:
  assumes "outsider_run g db db'" "m \<in> set (group_members db')" "gm_group_id m = g"
  shows "m \<in> set (group_members db) \<or> gm_role m = ''member''
    \<and> (\<exists>i \<in> set (group_invites db). iv_group_id i = g \<and> iv_invitee_id i = gm_user_id m)"
  using assms
proof (induction rule: outsider_run.induct)
  case (outsider_step db db1 e u op out db2)
  show ?case
  proof (cases "m \<in> set (group_members db1)")
    case False
    with outsider_step.hyps(2) outsider_step.prems(1) have "out = Ok" using apply_op_refused by (cases out) blast+
    then have granted: "membership_granted u op db1 m" using apply_op_members outsider_step.hyps(2) outsider_step.prems(1) False by blast
    show ?thesis
    proof (cases op)
      case (AcceptInvite b)
      then show ?thesis using granted outsider_step.prems(2) outsider_invites [OF outsider_step.hyps(1)]
        by (fastforce simp: membership_granted_def)
    qed (use granted outsider_step.hyps(3,4) outsider_step.prems(2) in \<open>auto simp: membership_granted_def\<close>)
  qed (use outsider_step in blast)
qed simp

section \<open>Properties\<close>

definition demo_group_body :: create_group_body where
  "demo_group_body = \<lparr>cg_id = ''g'', cg_name = ''team'', cg_description = None, cg_owner_id = None,
     cg_default_text_channel_id = Some ''ch'', cg_default_voice_channel_id = None, cg_created_at = ''0''\<rparr>"

definition demo_write_env :: write_env where
  "demo_write_env = \<lparr>we_fk = False, we_now = ''1'', we_secs = 0, we_ulid = ''x'', we_cutoff = ''0''\<rparr>"



text \<open>C5. Membership cannot be taken: whatever requests users send who are not admins of a group at the time (and without
  creating a group of that id), every member row of the group is one that was there before, or a plain member's row for a
  user whom an invite that was there before invites. In particular nobody becomes an admin.\<close>

theorem membership_needs_admin_or_invite:
  assumes "outsider_run g db db'" "m \<in> set (group_members db')" "gm_group_id m = g"
  shows "m \<in> set (group_members db) \<or> gm_role m = ''member''
    \<and> (\<exists>i \<in> set (group_invites db). iv_group_id i = g \<and> iv_invitee_id i = gm_user_id m)"
  using assms by (rule outsider_members)

theorem membership_needs_admin_or_invite_witness:
  "let db = demo_chat\<lparr>group_invites := [\<lparr>iv_id = ''i'', iv_group_id = ''g'', iv_inviter_id = ''u'', iv_invitee_id = ''v''\<rparr>]\<rparr>;
       m = \<lparr>gm_group_id = ''g'', gm_user_id = ''v'', gm_role = ''member''\<rparr>
   in \<exists>db'. outsider_run ''g'' db db' \<and> m \<in> set (group_members db') \<and> m \<notin> set (group_members db)
     \<and> (\<exists>i \<in> set (group_invites db). iv_invitee_id i = ''v'')"
proof -
  let ?db = "demo_chat\<lparr>group_invites := [\<lparr>iv_id = ''i'', iv_group_id = ''g'', iv_inviter_id = ''u'', iv_invitee_id = ''v''\<rparr>]\<rparr>"
  let ?m = "\<lparr>gm_group_id = ''g'', gm_user_id = ''v'', gm_role = ''member''\<rparr>"
  let ?op = "AcceptInvite \<lparr>ib_invite_id = ''i'', ib_user_id = None\<rparr>"
  have "\<exists>db'. apply_op demo_write_env (Some ''v'') ?op ?db = Inr (Ok, db') \<and> ?m \<in> set (group_members db')"
    by (simp add: apply_accept_invite_def resolve_actor_def first_row_def add_member_rows_def insert_member_def demo_chat_def
        demo_main_def demo_write_env_def bind_res_def)
  then obtain db' where db': "apply_op demo_write_env (Some ''v'') ?op ?db = Inr (Ok, db')" "?m \<in> set (group_members db')" by blast
  have "\<not> is_admin ?db ''g'' ''v''" by (simp add: is_admin_def group_role_def demo_chat_def demo_main_def first_row_def)
  then have run: "outsider_run ''g'' ?db db'" using outsider_step [OF outsider_start db'(1)] by simp
  have "?m \<notin> set (group_members ?db)" by (simp add: demo_chat_def demo_main_def)
  then show ?thesis using membership_needs_admin_or_invite [OF run db'(2)] run db'(2) by (auto simp: Let_def)
qed



end
