(* ===== verification/Delivery_Profile.thy ===== *)
theory Delivery_Profile
  imports Delivery_Groups
begin

text \<open>The profile domain of the delivery service (\<open>profile.rs\<close>): profiles, preferences, blocks and direct-message channels.
  As in the group domain, \<open>fk\<close> says whether the connection enforces foreign keys and \<open>now\<close> is \<open>datetime('now')\<close>.\<close>

section \<open>Profiles and preferences\<close>

definition is_blocked_either_way :: "main_db \<Rightarrow> string \<Rightarrow> string \<Rightarrow> bool" where
  "is_blocked_either_way db user_a user_b \<longleftrightarrow>
     list_ex (\<lambda>b. ub_blocker_id b = user_a \<and> ub_blocked_id b = user_b \<or> ub_blocker_id b = user_b \<and> ub_blocked_id b = user_a) (blocks db)"

record update_profile_body =
  uf_user_id :: string
  uf_username :: "string option"
  uf_preferred_name :: "string option"
  uf_phone :: "string option"
  uf_avatar_url :: "string option"

text \<open>\<open>COALESCE(?, column)\<close> for a nullable column.\<close>

definition coalesce :: "'a option \<Rightarrow> 'a option \<Rightarrow> 'a option" where
  "coalesce new old = (case new of None \<Rightarrow> old | Some x \<Rightarrow> Some x)"

text \<open>User names are unique, so taking another user's name fails.\<close>

definition apply_update_profile :: "update_profile_body apply_fn" where
  "apply_update_profile authed body db =
     (case resolve_actor authed (Some (uf_user_id body)) of
        Inl out \<Rightarrow> Inr (out, db)
      | Inr user \<Rightarrow>
          if has_user db user
             \<and> (case uf_username body of None \<Rightarrow> False
                | Some n \<Rightarrow> list_ex (\<lambda>u. u_username u = n \<and> u_id u \<noteq> user) (users db))
          then Inl StatementFailed
          else Inr (Ok, db\<lparr>users := sql_update (\<lambda>u. u_id u = user)
                 (\<lambda>u. u\<lparr>u_username := (case uf_username body of None \<Rightarrow> u_username u | Some n \<Rightarrow> n),
                        u_preferred_name := coalesce (uf_preferred_name body) (u_preferred_name u),
                        u_phone := coalesce (uf_phone body) (u_phone u),
                        u_avatar_url := coalesce (uf_avatar_url body) (u_avatar_url u)\<rparr>) (users db)\<rparr>))"

record save_preferences_body =
  sp_user_id :: string
  sp_preferences :: string

definition apply_save_preferences :: "bool \<Rightarrow> save_preferences_body apply_fn" where
  "apply_save_preferences fk authed body db =
     (case resolve_actor authed (Some (sp_user_id body)) of
        Inl out \<Rightarrow> Inr (out, db)
      | Inr user \<Rightarrow>
          if fk \<and> \<not> has_user db user then Inl StatementFailed
          else Inr (Ok, db\<lparr>preferences := sql_upsert (\<lambda>p. up_user_id p = user)
                 (\<lambda>p. p\<lparr>up_preferences := sp_preferences body\<rparr>)
                 \<lparr>up_user_id = user, up_preferences = sp_preferences body\<rparr> (preferences db)\<rparr>))"

section \<open>Blocks\<close>

record block_body =
  bb_blocker_id :: string
  bb_blocked_id :: string

definition apply_block_user :: "bool \<Rightarrow> block_body apply_fn" where
  "apply_block_user fk authed body db =
     (case resolve_actor authed (Some (bb_blocker_id body)) of
        Inl out \<Rightarrow> Inr (out, db)
      | Inr blocker \<Rightarrow>
          if blocker = bb_blocked_id body then Inr (OutForbidden, db)
          else let same = (\<lambda>b. ub_blocker_id b = blocker \<and> ub_blocked_id b = bb_blocked_id body)
               in if fk \<and> \<not> (has_user db blocker \<and> has_user db (bb_blocked_id body)) \<and> \<not> list_ex same (blocks db)
                  then Inl StatementFailed
                  else Inr (Ok, db\<lparr>
                    blocks := sql_insert_or_ignore same \<lparr>ub_blocker_id = blocker, ub_blocked_id = bb_blocked_id body\<rparr> (blocks db),
                    dm_channel_members := sql_update
                      (\<lambda>m. dcm_user_id m = blocker
                        \<and> list_ex (\<lambda>k. dcm_user_id k = bb_blocked_id body \<and> dcm_dm_channel_id k = dcm_dm_channel_id m) (dm_channel_members db))
                      (\<lambda>m. m\<lparr>dcm_accepted_at := None\<rparr>) (dm_channel_members db)\<rparr>))"

definition apply_unblock_user :: "block_body apply_fn" where
  "apply_unblock_user authed body db =
     (case resolve_actor authed (Some (bb_blocker_id body)) of
        Inl out \<Rightarrow> Inr (out, db)
      | Inr blocker \<Rightarrow> Inr (Ok, db\<lparr>blocks :=
          sql_delete (\<lambda>b. ub_blocker_id b = blocker \<and> ub_blocked_id b = bb_blocked_id body) (blocks db)\<rparr>))"

section \<open>Direct messages\<close>

definition has_dm :: "main_db \<Rightarrow> string \<Rightarrow> bool" where
  "has_dm db dm_channel_id \<longleftrightarrow> list_ex (\<lambda>c. dc_id c = dm_channel_id) (dm_channels db)"

text \<open>A watermark for every device of a member; the key is the conversation, the user and the device.\<close>

definition seed_dm_watermarks :: "string \<Rightarrow> string \<Rightarrow> string \<Rightarrow> main_db \<Rightarrow> main_db" where
  "seed_dm_watermarks now dm user_id db = db\<lparr>watermarks := fold
     (\<lambda>d. sql_insert_or_ignore (\<lambda>w. cw_conversation_id w = dm \<and> cw_user_id w = user_id \<and> cw_device_id w = ud_device_id d)
        \<lparr>cw_conversation_id = dm, cw_user_id = user_id, cw_device_id = ud_device_id d, cw_last_fetched_at = now\<rparr>)
     (filter (\<lambda>d. ud_user_id d = user_id) (user_devices db)) (watermarks db)\<rparr>"

text \<open>\<open>INSERT\<close> and \<open>INSERT OR IGNORE\<close> of a member row.\<close>

definition insert_dm_member :: "bool \<Rightarrow> bool \<Rightarrow> dm_channel_member \<Rightarrow> main_db \<Rightarrow> db_error + main_db" where
  "insert_dm_member fk or_ignore row db =
     (if list_ex (\<lambda>m. dcm_dm_channel_id m = dcm_dm_channel_id row \<and> dcm_user_id m = dcm_user_id row) (dm_channel_members db)
      then (if or_ignore then Inr db else Inl StatementFailed)
      else if fk \<and> \<not> (has_dm db (dcm_dm_channel_id row) \<and> has_user db (dcm_user_id row)) then Inl StatementFailed
      else Inr (db\<lparr>dm_channel_members := dm_channel_members db @ [row]\<rparr>))"

record create_dm_body =
  cd_id :: string
  cd_creator_id :: string
  cd_member_ids :: "string list"
  cd_created_at :: string

text \<open>The other participants, without the creator and without duplicates, in order.\<close>

fun dm_others :: "string \<Rightarrow> string list \<Rightarrow> string list \<Rightarrow> string list" where
  "dm_others creator [] others = others"
| "dm_others creator (m # ms) others =
     dm_others creator ms (if m \<noteq> creator \<and> m \<notin> set others then others @ [m] else others)"

fun insert_dm_others :: "bool \<Rightarrow> create_dm_body \<Rightarrow> string \<Rightarrow> string list \<Rightarrow> main_db \<Rightarrow> db_error + main_db" where
  "insert_dm_others fk body creator [] db = Inr db"
| "insert_dm_others fk body creator (m # ms) db =
     bind_res (insert_dm_member fk True \<lparr>dcm_dm_channel_id = cd_id body, dcm_user_id = m, dcm_added_by = creator,
         dcm_added_at = cd_created_at body, dcm_accepted_at = None\<rparr> db)
       (insert_dm_others fk body creator ms)"

definition apply_create_dm :: "bool \<Rightarrow> string \<Rightarrow> create_dm_body apply_fn" where
  "apply_create_dm fk now authed body db =
     (case resolve_actor authed (Some (cd_creator_id body)) of
        Inl out \<Rightarrow> Inr (out, db)
      | Inr creator \<Rightarrow>
          let others = dm_others creator (cd_member_ids body) [] in
          if authed \<noteq> None \<and> list_ex (is_blocked_either_way db creator) others then Inr (OutForbidden, db)
          else if has_dm db (cd_id body) then Inl StatementFailed
          else bind_res (insert_dm_member fk False \<lparr>dcm_dm_channel_id = cd_id body, dcm_user_id = creator, dcm_added_by = creator,
                   dcm_added_at = cd_created_at body, dcm_accepted_at = Some (cd_created_at body)\<rparr>
                 (db\<lparr>dm_channels := dm_channels db @ [\<lparr>dc_id = cd_id body, dc_created_by = creator, dc_created_at = cd_created_at body\<rparr>]\<rparr>)) (\<lambda>db1.
               bind_res (insert_dm_others fk body creator others db1) (\<lambda>db2.
                 Inr (Ok, fold (seed_dm_watermarks now (cd_id body)) (creator # others) db2))))"

record accept_dm_body =
  ad_dm_channel_id :: string
  ad_user_id :: string
  ad_accepted_at :: string

definition apply_accept_dm :: "accept_dm_body apply_fn" where
  "apply_accept_dm authed body db =
     (case resolve_actor authed (Some (ad_user_id body)) of
        Inl out \<Rightarrow> Inr (out, db)
      | Inr user \<Rightarrow> Inr (Ok, db\<lparr>dm_channel_members := sql_update
          (\<lambda>m. dcm_dm_channel_id m = ad_dm_channel_id body \<and> dcm_user_id m = user \<and> dcm_accepted_at m = None)
          (\<lambda>m. m\<lparr>dcm_accepted_at := Some (ad_accepted_at body)\<rparr>) (dm_channel_members db)\<rparr>))"

definition is_dm_member :: "main_db \<Rightarrow> string \<Rightarrow> string \<Rightarrow> bool" where
  "is_dm_member db dm_channel_id user_id \<longleftrightarrow>
     list_ex (\<lambda>m. dcm_dm_channel_id m = dm_channel_id \<and> dcm_user_id m = user_id) (dm_channel_members db)"

record add_dm_member_body =
  am_dm_channel_id :: string
  am_user_id :: string
  am_added_by :: string
  am_added_at :: string

definition apply_add_dm_member :: "bool \<Rightarrow> string \<Rightarrow> add_dm_member_body apply_fn" where
  "apply_add_dm_member fk now authed body db =
     (case resolve_actor authed (Some (am_added_by body)) of
        Inl out \<Rightarrow> Inr (out, db)
      | Inr actor \<Rightarrow>
          if authed \<noteq> None \<and> \<not> is_dm_member db (am_dm_channel_id body) actor then Inr (OutForbidden, db)
          else bind_res (insert_dm_member fk True \<lparr>dcm_dm_channel_id = am_dm_channel_id body, dcm_user_id = am_user_id body,
                   dcm_added_by = actor, dcm_added_at = am_added_at body, dcm_accepted_at = None\<rparr> db) (\<lambda>db1.
                 Inr (Ok, seed_dm_watermarks now (am_dm_channel_id body) (am_user_id body) db1)))"

record remove_dm_member_body =
  rd_dm_channel_id :: string
  rd_user_id :: string
  rd_requester_id :: string

definition apply_remove_dm_member :: "remove_dm_member_body apply_fn" where
  "apply_remove_dm_member authed body db =
     (case resolve_actor authed (Some (rd_requester_id body)) of
        Inl out \<Rightarrow> Inr (out, db)
      | Inr actor \<Rightarrow>
          if authed \<noteq> None \<and> actor \<noteq> rd_user_id body
             \<and> (case first_row (\<lambda>c. dc_id c = rd_dm_channel_id body) (dm_channels db) of
                  None \<Rightarrow> True | Some c \<Rightarrow> actor \<noteq> dc_created_by c)
          then Inr (OutForbidden, db)
          else Inr (Ok, db\<lparr>dm_channel_members := sql_delete
                 (\<lambda>m. dcm_dm_channel_id m = rd_dm_channel_id body \<and> dcm_user_id m = rd_user_id body) (dm_channel_members db)\<rparr>))"

record leave_dm_body =
  ld_dm_channel_id :: string
  ld_user_id :: string

text \<open>The cascade of deleting the channel has no members left to remove.\<close>

definition apply_leave_dm :: "leave_dm_body apply_fn" where
  "apply_leave_dm authed body db =
     (case resolve_actor authed (Some (ld_user_id body)) of
        Inl out \<Rightarrow> Inr (out, db)
      | Inr user \<Rightarrow>
          let db1 = db\<lparr>dm_channel_members := sql_delete
                (\<lambda>m. dcm_dm_channel_id m = ld_dm_channel_id body \<and> dcm_user_id m = user) (dm_channel_members db)\<rparr>
          in if length (filter (\<lambda>m. dcm_dm_channel_id m = ld_dm_channel_id body) (dm_channel_members db1)) = 0
             then Inr (Ok, db1\<lparr>envelopes := sql_delete (\<lambda>e. me_conversation_id e = ld_dm_channel_id body) (envelopes db1),
                    dm_channels := sql_delete (\<lambda>c. dc_id c = ld_dm_channel_id body) (dm_channels db1)\<rparr>)
             else Inr (Ok, db1))"

section \<open>Handlers\<close>

definition update_profile where "update_profile = run_endpoint apply_update_profile"
definition save_preferences where "save_preferences fk = run_endpoint (apply_save_preferences fk)"
definition block_user where "block_user fk = run_endpoint (apply_block_user fk)"
definition unblock_user where "unblock_user = run_endpoint apply_unblock_user"
definition create_dm where "create_dm fk now_text = run_endpoint (apply_create_dm fk now_text)"
definition accept_dm where "accept_dm = run_endpoint apply_accept_dm"
definition add_dm_member where "add_dm_member fk now_text = run_endpoint (apply_add_dm_member fk now_text)"
definition remove_dm_member where "remove_dm_member = run_endpoint apply_remove_dm_member"
definition leave_dm where "leave_dm = run_endpoint apply_leave_dm"

section \<open>Authorisation\<close>

lemmas profile_apply_defs [apply_defs] = apply_update_profile_def apply_save_preferences_def apply_block_user_def apply_unblock_user_def
  apply_create_dm_def apply_accept_dm_def apply_add_dm_member_def apply_remove_dm_member_def apply_leave_dm_def

interpretation p_update: write_endpoint apply_update_profile "\<lambda>u b db. uf_user_id b = u"
  by unfold_locales (auto simp: apply_update_profile_def split: endpoint_splits dest: resolve_actor_Inl)

interpretation p_preferences: write_endpoint "apply_save_preferences fk" "\<lambda>u b db. sp_user_id b = u" for fk
  by unfold_locales (auto simp: apply_save_preferences_def split: endpoint_splits dest: resolve_actor_Inl)

interpretation b_add: write_endpoint "apply_block_user fk" "\<lambda>u b db. bb_blocker_id b = u \<and> bb_blocked_id b \<noteq> u" for fk
  by unfold_locales (auto simp: apply_block_user_def Let_def split: endpoint_splits dest: resolve_actor_Inl)

interpretation b_remove: write_endpoint apply_unblock_user "\<lambda>u b db. bb_blocker_id b = u"
  by unfold_locales (auto simp: apply_unblock_user_def split: endpoint_splits dest: resolve_actor_Inl)

lemma set_dm_others: "set (dm_others creator ms acc) = set acc \<union> (set ms - {creator})"
  by (induction creator ms acc rule: dm_others.induct) auto

lemma distinct_dm_others: "distinct acc \<Longrightarrow> distinct (dm_others creator ms acc)"
  by (induction creator ms acc rule: dm_others.induct) auto

interpretation d_create: write_endpoint "apply_create_dm fk now"
    "\<lambda>u b db. cd_creator_id b = u \<and> (\<forall>v \<in> set (cd_member_ids b) - {u}. \<not> is_blocked_either_way db u v)" for fk now
  by unfold_locales
    (auto simp: apply_create_dm_def Let_def bind_res_eq_Inr list_ex_iff set_dm_others split: endpoint_splits dest: resolve_actor_Inl)

interpretation d_accept: write_endpoint apply_accept_dm "\<lambda>u b db. ad_user_id b = u"
  by unfold_locales (auto simp: apply_accept_dm_def split: endpoint_splits dest: resolve_actor_Inl)

interpretation d_add: write_endpoint "apply_add_dm_member fk now"
    "\<lambda>u b db. am_added_by b = u \<and> is_dm_member db (am_dm_channel_id b) u" for fk now
  by unfold_locales (auto simp: apply_add_dm_member_def bind_res_eq_Inr split: endpoint_splits dest: resolve_actor_Inl)

interpretation d_remove: write_endpoint apply_remove_dm_member
    "\<lambda>u b db. rd_requester_id b = u \<and> (u = rd_user_id b \<or> (\<exists>c \<in> set (dm_channels db). dc_id c = rd_dm_channel_id b \<and> dc_created_by c = u))"
  by unfold_locales (auto simp: apply_remove_dm_member_def split: endpoint_splits dest: resolve_actor_Inl first_row_Some)

interpretation d_leave: write_endpoint apply_leave_dm "\<lambda>u b db. ld_user_id b = u"
  by unfold_locales (auto simp: apply_leave_dm_def Let_def split: endpoint_splits dest: resolve_actor_Inl)

section \<open>Properties\<close>

text \<open>Profiles, preferences, blocks and direct messages: with authentication on, a request that answers 200 was signed by the user whose
  profile, preferences, block list or membership it writes; a direct-message channel is created by its creator with nobody
  blocked by or blocking the creator, a member is added by a member and removed by itself or the creator of the
  channel; a request that does not answer 200 changed nothing.\<close>

theorem profile_endpoints_authorised:
  assumes "st_require_auth st"
  shows "guarded update_profile (\<lambda>u b db. uf_user_id b = u) L E up now req st
    \<and> guarded (save_preferences fk) (\<lambda>u b db. sp_user_id b = u) L E sp now req st
    \<and> guarded (block_user fk) (\<lambda>u b db. bb_blocker_id b = u \<and> bb_blocked_id b \<noteq> u) L E bu now req st
    \<and> guarded unblock_user (\<lambda>u b db. bb_blocker_id b = u) L E ub now req st
    \<and> guarded (create_dm fk t) (\<lambda>u b db. cd_creator_id b = u \<and> (\<forall>v \<in> set (cd_member_ids b) - {u}. \<not> is_blocked_either_way db u v)) L E cd now req st
    \<and> guarded accept_dm (\<lambda>u b db. ad_user_id b = u) L E ad now req st
    \<and> guarded (add_dm_member fk t) (\<lambda>u b db. am_added_by b = u \<and> is_dm_member db (am_dm_channel_id b) u) L E am now req st
    \<and> guarded remove_dm_member (\<lambda>u b db. rd_requester_id b = u \<and> (u = rd_user_id b
        \<or> (\<exists>c \<in> set (dm_channels db). dc_id c = rd_dm_channel_id b \<and> dc_created_by c = u))) L E rd now req st
    \<and> guarded leave_dm (\<lambda>u b db. ld_user_id b = u) L E ld now req st"
  unfolding update_profile_def save_preferences_def block_user_def unblock_user_def create_dm_def accept_dm_def add_dm_member_def
    remove_dm_member_def leave_dm_def
  by (intro conjI p_update.endpoint_guarded p_preferences.endpoint_guarded b_add.endpoint_guarded b_remove.endpoint_guarded
      d_create.endpoint_guarded d_accept.endpoint_guarded d_add.endpoint_guarded d_remove.endpoint_guarded d_leave.endpoint_guarded assms)

theorem profile_endpoints_authorised_witness:
  "\<exists>req st'. create_dm False ''1'' demo_lib demo_b64 (\<lambda>_. Some \<lparr>cd_id = ''dm'', cd_creator_id = ''u'', cd_member_ids = [''v''], cd_created_at = ''0''\<rparr>)
       1000 req (demo_state\<lparr>st_require_auth := True, st_db := demo_chat\<rparr>) = ((200, StatusOk), st')
     \<and> \<not> is_blocked_either_way demo_chat ''u'' ''v''"
proof -
  let ?st = "demo_state\<lparr>st_require_auth := True, st_db := demo_chat\<rparr>"
  let ?slice = "\<lambda>_ :: bytes. Some \<lparr>cd_id = ''dm'', cd_creator_id = ''u'', cd_member_ids = [''v''], cd_created_at = ''0''\<rparr>"
  obtain req :: request where req: "verify_request demo_lib demo_b64 (Some demo_chat) (req_headers req) (req_method req) (req_path req) (req_body req) 1000 = Inr ''u''"
    using demo_signed [of demo_chat] by (auto simp: demo_chat_def)
  have "\<exists>x. apply_create_dm False ''1'' (Some ''u'') \<lparr>cd_id = ''dm'', cd_creator_id = ''u'', cd_member_ids = [''v''], cd_created_at = ''0''\<rparr> demo_chat = Inr (Ok, x)"
    by (simp add: apply_create_dm_def Let_def has_dm_def insert_dm_member_def is_blocked_either_way_def demo_chat_def demo_main_def
        main_db_new_def bind_res_def)
  with req have ok: "\<exists>st'. create_dm False ''1'' demo_lib demo_b64 ?slice 1000 req ?st = ((200, StatusOk), st')"
    by (auto simp: create_dm_def run_endpoint_def gate_def demo_state_def)
  have auth: "st_require_auth ?st" by simp
  show ?thesis using profile_endpoints_authorised [OF auth, where L = demo_lib and E = demo_b64 and now = 1000 and req = req
      and cd = ?slice and fk = False and t = "''1''"] ok req unfolding guarded_def by auto
qed

text \<open>Leaving is not confined to direct messages or to members: any user who signs a leave request for a conversation with
  no direct-message members, such as a channel of a group the user is not in, deletes every envelope of that conversation and
  no other.\<close>

theorem leave_dm_wipes_conversation:
  assumes "\<forall>m \<in> set (dm_channel_members db). dcm_dm_channel_id m \<noteq> c"
  shows "\<exists>db'. apply_leave_dm (Some u) \<lparr>ld_dm_channel_id = c, ld_user_id = u\<rparr> db = Inr (Ok, db')
    \<and> envelopes db' = filter (\<lambda>e. me_conversation_id e \<noteq> c) (envelopes db)"
  using assms by (auto simp: apply_leave_dm_def Let_def sql_delete_def filter_empty_conv)

theorem leave_dm_wipes_conversation_witness:
  "\<not> is_member demo_chat ''ch'' ''stranger''
   \<and> (\<exists>db'. apply_leave_dm (Some ''stranger'') \<lparr>ld_dm_channel_id = ''ch'', ld_user_id = ''stranger''\<rparr> demo_chat = Inr (Ok, db')
        \<and> envelopes db' = [demo_envelope ''s'' ''other'' ''1''])"
proof -
  have none: "\<forall>m \<in> set (dm_channel_members demo_chat). dcm_dm_channel_id m \<noteq> ''ch''"
    by (simp add: demo_chat_def demo_main_def main_db_new_def)
  have "\<not> is_member demo_chat ''ch'' ''stranger''" by (simp add: is_member_def demo_chat_def demo_main_def main_db_new_def)
  moreover have "filter (\<lambda>e. me_conversation_id e \<noteq> ''ch'') (envelopes demo_chat) = [demo_envelope ''s'' ''other'' ''1'']"
    by (simp add: demo_chat_def demo_envelope_def)
  ultimately show ?thesis using leave_dm_wipes_conversation [OF none, of "''stranger''"] by auto
qed

end
