(* ===== verification/Delivery_Devices.thy ===== *)
theory Delivery_Devices
  imports Delivery_Profile
begin

text \<open>The device domain of the delivery service (\<open>devices.rs\<close>): publishing, replenishing and claiming MLS key packages, re-signed
  device certificates and push tokens. Publishing runs outside a transaction, so an error keeps the packages inserted
  before it. Rows with equal creation times are claimed in insertion order.\<close>

section \<open>Key packages\<close>

record key_package_entry =
  ke_ref_hash :: string
  ke_key_package :: string

text \<open>\<open>INSERT OR IGNORE INTO mls_key_package\<close>.\<close>

definition insert_key_package :: "bool \<Rightarrow> string \<Rightarrow> string \<Rightarrow> string \<Rightarrow> string \<Rightarrow> bytes \<Rightarrow> main_db \<Rightarrow> db_error + main_db" where
  "insert_key_package fk now actor device_id ref_hash kp db =
     (if list_ex (\<lambda>p. kp_ref_hash p = ref_hash) (key_packages db) then Inr db
      else if fk \<and> \<not> has_user db actor then Inl StatementFailed
      else Inr (db\<lparr>key_packages := key_packages db @ [\<lparr>kp_ref_hash = ref_hash, kp_user_id = actor, kp_key_package = kp, kp_claimed = False,
             kp_created_at = now, kp_device_id = Some device_id\<rparr>]\<rparr>))"

record publish_body =
  pk_device_id :: string
  pk_packages :: "key_package_entry list"
  pk_user_id :: "string option"

fun publish_loop :: "b64 \<Rightarrow> bool \<Rightarrow> string \<Rightarrow> string \<Rightarrow> string \<Rightarrow> key_package_entry list \<Rightarrow> main_db \<Rightarrow> (db_error + write_outcome) \<times> main_db" where
  "publish_loop E fk now actor device_id [] db = (Inr Ok, db)"
| "publish_loop E fk now actor device_id (p # ps) db =
     (case decode_b64 E (ke_key_package p) of
        Inl err \<Rightarrow> (Inl err, db)
      | Inr kp \<Rightarrow>
          (case insert_key_package fk now actor device_id (ke_ref_hash p) kp db of
             Inl err \<Rightarrow> (Inl err, db)
           | Inr db' \<Rightarrow> publish_loop E fk now actor device_id ps db'))"

definition apply_publish_key_packages :: "b64 \<Rightarrow> bool \<Rightarrow> string \<Rightarrow> authed \<Rightarrow> publish_body \<Rightarrow> main_db \<Rightarrow> (db_error + write_outcome) \<times> main_db" where
  "apply_publish_key_packages E fk now authed body db =
     (case resolve_actor authed (pk_user_id body) of
        Inl out \<Rightarrow> (Inr out, db)
      | Inr actor \<Rightarrow> publish_loop E fk now actor (pk_device_id body) (pk_packages body) db)"

text \<open>\<open>ReplenishKeyPackagesBody\<close> has the fields of \<open>PublishKeyPackagesBody\<close>.\<close>

definition stale_package :: "string \<Rightarrow> string \<Rightarrow> mls_key_package \<Rightarrow> bool" where
  "stale_package actor device_id p \<longleftrightarrow> kp_user_id p = actor \<and> \<not> kp_claimed p \<and> (kp_device_id p = Some device_id \<or> kp_device_id p = None)"

fun insert_pool :: "bool \<Rightarrow> string \<Rightarrow> string \<Rightarrow> string \<Rightarrow> (string \<times> bytes) list \<Rightarrow> main_db \<Rightarrow> db_error + main_db" where
  "insert_pool fk now actor device_id [] db = Inr db"
| "insert_pool fk now actor device_id ((ref_hash, kp) # ps) db =
     bind_res (insert_key_package fk now actor device_id ref_hash kp db) (insert_pool fk now actor device_id ps)"

definition apply_replenish_key_packages :: "b64 \<Rightarrow> bool \<Rightarrow> string \<Rightarrow> publish_body apply_fn" where
  "apply_replenish_key_packages E fk now authed body db =
     (case resolve_actor authed (pk_user_id body) of
        Inl out \<Rightarrow> Inr (out, db)
      | Inr actor \<Rightarrow>
          bind_res (map_res (\<lambda>p. bind_res (decode_b64 E (ke_key_package p)) (\<lambda>kp. Inr (ke_ref_hash p, kp))) (pk_packages body)) (\<lambda>decoded.
          bind_res (insert_pool fk now actor (pk_device_id body) decoded
              (db\<lparr>key_packages := sql_delete (stale_package actor (pk_device_id body)) (key_packages db)\<rparr>)) (\<lambda>db'.
            Inr (Ok, db'))))"

record claim_body =
  cl_target_user_id :: string
  cl_target_device_id :: "string option"

datatype claim_outcome = Claimed string bytes | NoKeyPackage

definition claimable :: "claim_body \<Rightarrow> mls_key_package \<Rightarrow> bool" where
  "claimable body p \<longleftrightarrow> kp_user_id p = cl_target_user_id body \<and> \<not> kp_claimed p
     \<and> (case cl_target_device_id body of None \<Rightarrow> True | Some d \<Rightarrow> kp_device_id p = Some d)"

text \<open>\<open>UPDATE ... SET claimed = 1 WHERE ref_hash = (SELECT ... ORDER BY created_at ASC LIMIT 1) RETURNING ...\<close>\<close>

definition apply_claim_key_package :: "claim_body \<Rightarrow> main_db \<Rightarrow> claim_outcome \<times> main_db" where
  "apply_claim_key_package body db =
     (case sort_key kp_created_at (filter (claimable body) (key_packages db)) of
        [] \<Rightarrow> (NoKeyPackage, db)
      | p # _ \<Rightarrow> (Claimed (kp_ref_hash p) (kp_key_package p),
                 db\<lparr>key_packages := sql_update (\<lambda>q. kp_ref_hash q = kp_ref_hash p) (\<lambda>q. q\<lparr>kp_claimed := True\<rparr>) (key_packages db)\<rparr>))"

fun claim_outcome_response :: "b64 \<Rightarrow> claim_outcome \<Rightarrow> response" where
  "claim_outcome_response E (Claimed ref_hash kp) = (200, KeyPackageReply ref_hash (b64_enc E kp))"
| "claim_outcome_response E NoKeyPackage = (404, ErrorBody ''no_key_package'')"

section \<open>Certificates and push tokens\<close>

record resigned_cert =
  rc_device_id :: string
  rc_device_cert :: string
  rc_cert_issued_at :: string
  rc_cert_identity_version :: i64

record resign_body =
  rg_certs :: "resigned_cert list"
  rg_user_id :: "string option"

fun resign_loop :: "b64 \<Rightarrow> string \<Rightarrow> resigned_cert list \<Rightarrow> user_device list \<Rightarrow> db_error + user_device list" where
  "resign_loop E actor [] ds = Inr ds"
| "resign_loop E actor (c # cs) ds =
     bind_res (decode_b64 E (rc_device_cert c)) (\<lambda>cert.
       resign_loop E actor cs (sql_update (\<lambda>d. ud_device_id d = rc_device_id c \<and> ud_user_id d = actor)
         (\<lambda>d. d\<lparr>ud_device_cert := Some cert, ud_cert_issued_at := Some (rc_cert_issued_at c),
                ud_cert_identity_version := Some (rc_cert_identity_version c)\<rparr>) ds))"

definition apply_resign_device_certs :: "b64 \<Rightarrow> resign_body apply_fn" where
  "apply_resign_device_certs E authed body db =
     (case resolve_actor authed (rg_user_id body) of
        Inl out \<Rightarrow> Inr (out, db)
      | Inr actor \<Rightarrow> bind_res (resign_loop E actor (rg_certs body) (user_devices db)) (\<lambda>ds. Inr (Ok, db\<lparr>user_devices := ds\<rparr>)))"

record push_token_body =
  pb_token :: string
  pb_platform :: string
  pb_updated_at :: string
  pb_user_id :: "string option"

definition apply_register_push_token :: "push_token_body apply_fn" where
  "apply_register_push_token authed body db =
     (case resolve_actor authed (pb_user_id body) of
        Inl out \<Rightarrow> Inr (out, db)
      | Inr actor \<Rightarrow> Inr (Ok, db\<lparr>push_tokens := sql_upsert (\<lambda>t. pt_token t = pb_token body)
            (\<lambda>t. t\<lparr>pt_user_id := actor, pt_platform := pb_platform body, pt_updated_at := pb_updated_at body\<rparr>)
            \<lparr>pt_token = pb_token body, pt_user_id = actor, pt_platform = pb_platform body, pt_updated_at = pb_updated_at body\<rparr>
            (push_tokens db)\<rparr>))"

section \<open>Handlers\<close>

definition publish_key_packages :: "bool \<Rightarrow> string \<Rightarrow> lib \<Rightarrow> b64 \<Rightarrow> (bytes \<Rightarrow> publish_body option) \<Rightarrow> i64 \<Rightarrow> request \<Rightarrow> app_state \<Rightarrow> response \<times> app_state" where
  "publish_key_packages fk now_text L E from_slice now req st =
     (case gate L E (st_require_auth st) now (st_db st) req of
        Inl rej \<Rightarrow> (into_response rej, st)
      | Inr authed \<Rightarrow>
          (case from_slice (req_body req) of
             None \<Rightarrow> (bad_request ''invalid body'', st)
           | Some parsed \<Rightarrow>
               (case apply_publish_key_packages E fk now_text authed parsed (st_db st) of
                  (Inl err, db) \<Rightarrow> (app_error, st\<lparr>st_db := db\<rparr>)
                | (Inr out, db) \<Rightarrow> (outcome_response out, st\<lparr>st_db := db\<rparr>))))"

definition claim_key_package :: "lib \<Rightarrow> b64 \<Rightarrow> (bytes \<Rightarrow> claim_body option) \<Rightarrow> i64 \<Rightarrow> request \<Rightarrow> app_state \<Rightarrow> response \<times> app_state" where
  "claim_key_package L E from_slice now req st =
     (case gate L E (st_require_auth st) now (st_db st) req of
        Inl rej \<Rightarrow> (into_response rej, st)
      | Inr _ \<Rightarrow>
          (case from_slice (req_body req) of
             None \<Rightarrow> (bad_request ''invalid body'', st)
           | Some parsed \<Rightarrow>
               (case apply_claim_key_package parsed (st_db st) of
                  (out, db) \<Rightarrow> (claim_outcome_response E out, st\<lparr>st_db := db\<rparr>))))"

definition replenish_key_packages where "replenish_key_packages fk now_text E = run_endpoint (apply_replenish_key_packages E fk now_text)"
definition resign_device_certs where "resign_device_certs E = run_endpoint (apply_resign_device_certs E)"
definition register_push_token where "register_push_token = run_endpoint apply_register_push_token"

section \<open>Authorisation\<close>

lemmas device_apply_defs [apply_defs] = apply_replenish_key_packages_def apply_resign_device_certs_def apply_register_push_token_def

interpretation k_replenish: write_endpoint "apply_replenish_key_packages E fk now" "\<lambda>u b db. pk_user_id b = None \<or> pk_user_id b = Some u" for E fk now
  by unfold_locales (auto simp: apply_replenish_key_packages_def bind_res_eq_Inr split: endpoint_splits dest: resolve_actor_Inl)

interpretation k_resign: write_endpoint "apply_resign_device_certs E" "\<lambda>u b db. rg_user_id b = None \<or> rg_user_id b = Some u" for E
  by unfold_locales (auto simp: apply_resign_device_certs_def bind_res_eq_Inr split: endpoint_splits dest: resolve_actor_Inl)

interpretation k_push: write_endpoint apply_register_push_token "\<lambda>u b db. pb_user_id b = None \<or> pb_user_id b = Some u"
  by unfold_locales (auto simp: apply_register_push_token_def split: endpoint_splits dest: resolve_actor_Inl)

section \<open>Key packages are handed out once\<close>

text \<open>Runs of the key-package endpoints with the references handed out so far, in order. Other handlers may run in between as long as
  they leave the packages alone.\<close>

inductive kp_run :: "main_db \<Rightarrow> string list \<Rightarrow> bool" where
  kp_start: "key_packages db = [] \<Longrightarrow> kp_run db []"
| kp_publish: "kp_run db rs \<Longrightarrow> apply_publish_key_packages E fk now a body db = (res, db') \<Longrightarrow> kp_run db' rs"
| kp_replenish: "kp_run db rs \<Longrightarrow> apply_replenish_key_packages E fk now a body db = Inr (out, db') \<Longrightarrow> kp_run db' rs"
| kp_claim: "kp_run db rs \<Longrightarrow> apply_claim_key_package body db = (Claimed r kp, db') \<Longrightarrow> kp_run db' (rs @ [r])"
| kp_other: "kp_run db rs \<Longrightarrow> key_packages db' = key_packages db \<Longrightarrow> kp_run db' rs"

definition kp_inv :: "mls_key_package list \<Rightarrow> string list \<Rightarrow> bool" where
  "kp_inv ps rs \<longleftrightarrow> distinct (map kp_ref_hash ps) \<and> distinct rs \<and> (\<forall>r \<in> set rs. \<exists>p \<in> set ps. kp_ref_hash p = r \<and> kp_claimed p)"

lemma insert_key_package_inv:
  "insert_key_package fk now a d r kp db = Inr db' \<Longrightarrow> kp_inv (key_packages db) rs \<Longrightarrow> kp_inv (key_packages db') rs"
  by (auto simp: insert_key_package_def kp_inv_def list_ex_iff split: if_splits)

lemma publish_loop_inv:
  "publish_loop E fk now a d ps db = (res, db') \<Longrightarrow> kp_inv (key_packages db) rs \<Longrightarrow> kp_inv (key_packages db') rs"
  by (induction E fk now a d ps db rule: publish_loop.induct) (auto split: sum.splits dest: insert_key_package_inv)

lemma insert_pool_inv:
  "insert_pool fk now a d ps db = Inr db' \<Longrightarrow> kp_inv (key_packages db) rs \<Longrightarrow> kp_inv (key_packages db') rs"
  by (induction fk now a d ps db rule: insert_pool.induct) (auto simp: bind_res_eq_Inr dest: insert_key_package_inv)

lemma kp_inv_delete: "kp_inv ps rs \<Longrightarrow> kp_inv (sql_delete (stale_package a d) ps) rs"
  by (fastforce simp: kp_inv_def stale_package_def set_sql_delete intro: distinct_key_delete)

lemma replenish_inv:
  assumes "apply_replenish_key_packages E fk now a body db = Inr (out, db')" "kp_inv (key_packages db) rs"
  shows "kp_inv (key_packages db') rs"
proof (cases "resolve_actor a (pk_user_id body)")
  case (Inr actor)
  let ?db = "db\<lparr>key_packages := sql_delete (stale_package actor (pk_device_id body)) (key_packages db)\<rparr>"
  obtain decoded where "insert_pool fk now actor (pk_device_id body) decoded ?db = Inr db'"
    using assms(1) Inr by (auto simp: apply_replenish_key_packages_def bind_res_eq_Inr)
  then show ?thesis using insert_pool_inv [of fk now actor _ _ ?db db' rs] kp_inv_delete [OF assms(2)] by simp
qed (use assms in \<open>auto simp: apply_replenish_key_packages_def\<close>)

lemma claim_Claimed:
  assumes "apply_claim_key_package body db = (Claimed r kp, db')"
  obtains p where "p \<in> set (key_packages db)" "claimable body p" "kp_ref_hash p = r" "kp_key_package p = kp"
    "\<And>q. q \<in> set (key_packages db) \<Longrightarrow> claimable body q \<Longrightarrow> kp_created_at p \<le> kp_created_at q"
    "key_packages db' = sql_update (\<lambda>q. kp_ref_hash q = r) (\<lambda>q. q\<lparr>kp_claimed := True\<rparr>) (key_packages db)"
proof -
  obtain p ps where p: "sort_key kp_created_at (filter (claimable body) (key_packages db)) = p # ps"
      "kp_ref_hash p = r" "kp_key_package p = kp"
      "db' = db\<lparr>key_packages := sql_update (\<lambda>q. kp_ref_hash q = kp_ref_hash p) (\<lambda>q. q\<lparr>kp_claimed := True\<rparr>) (key_packages db)\<rparr>"
    using assms by (auto simp: apply_claim_key_package_def split: list.splits)
  have set: "set (p # ps) = set (filter (claimable body) (key_packages db))" unfolding p(1) [symmetric] by simp
  have "sorted (map kp_created_at (p # ps))" unfolding p(1) [symmetric] by simp
  then have "q \<in> set (p # ps) \<Longrightarrow> kp_created_at p \<le> kp_created_at q" for q by auto
  moreover have "p \<in> set (key_packages db)" "claimable body p" using set by auto
  moreover have "q \<in> set (key_packages db) \<Longrightarrow> claimable body q \<Longrightarrow> q \<in> set (p # ps)" for q unfolding set by simp
  ultimately show ?thesis using p that [of p] by simp
qed

lemma claim_inv:
  assumes "apply_claim_key_package body db = (Claimed r kp, db')" "kp_inv (key_packages db) rs"
  shows "kp_inv (key_packages db') (rs @ [r]) \<and> r \<notin> set rs"
proof -
  obtain p where p: "p \<in> set (key_packages db)" "claimable body p" "kp_ref_hash p = r"
      "key_packages db' = sql_update (\<lambda>q. kp_ref_hash q = r) (\<lambda>q. q\<lparr>kp_claimed := True\<rparr>) (key_packages db)"
    using claim_Claimed [OF assms(1)] by metis
  have unclaimed: "r \<notin> set rs"
  proof
    assume "r \<in> set rs"
    then obtain q where "q \<in> set (key_packages db)" "kp_ref_hash q = r" "kp_claimed q" using assms(2) by (auto simp: kp_inv_def)
    then have "q = p" using p(1,3) assms(2) by (auto simp: kp_inv_def distinct_map dest: inj_onD)
    then show False using p(2) \<open>kp_claimed q\<close> by (simp add: claimable_def)
  qed
  moreover have "distinct (map kp_ref_hash (key_packages db'))"
    using assms(2) unfolding p(4) by (intro distinct_key_update) (simp_all add: kp_inv_def)
  moreover have "\<exists>q \<in> set (key_packages db'). kp_ref_hash q = x \<and> kp_claimed q" if x: "x \<in> set (rs @ [r])" for x
  proof (cases "x = r")
    case True
    then show ?thesis using p by (auto simp: sql_update_def intro!: bexI [of _ "p\<lparr>kp_claimed := True\<rparr>"])
  next
    case False
    then obtain q where "q \<in> set (key_packages db)" "kp_ref_hash q = x" "kp_claimed q" using x assms(2) by (auto simp: kp_inv_def)
    then show ?thesis using False p(4) by (auto simp: sql_update_def intro!: bexI [of _ q] image_eqI [of _ _ q])
  qed
  ultimately show ?thesis using assms(2) by (auto simp: kp_inv_def)
qed

lemma kp_run_inv: "kp_run db rs \<Longrightarrow> kp_inv (key_packages db) rs"
proof (induction rule: kp_run.induct)
  case (kp_publish db rs E fk now a body res db')
  then show ?case using publish_loop_inv by (auto simp: apply_publish_key_packages_def split: sum.splits)
next
  case (kp_replenish db rs E fk now a body out db')
  then show ?case using replenish_inv by blast
next
  case (kp_claim db rs body r kp db')
  then show ?case using claim_inv by blast
qed (simp_all add: kp_inv_def)

section \<open>Properties\<close>

definition demo_pool :: main_db where
  "demo_pool = snd (apply_publish_key_packages demo_b64 False ''1'' (Some ''u'')
     \<lparr>pk_device_id = ''d'', pk_packages = [\<lparr>ke_ref_hash = ''h'', ke_key_package = ''k''\<rparr>], pk_user_id = None\<rparr> demo_main)"

text \<open>A key package is handed out once: in any run of publishing, replenishing and claiming, no reference is claimed twice.
  A claim succeeds exactly if the target has an unclaimed package (of the device, if one is named) and then returns the
  oldest; otherwise it changes nothing.\<close>

theorem key_packages_single_use:
  assumes "kp_run db rs"
  shows "distinct rs \<and> (case apply_claim_key_package body db of
      (Claimed r kp, db') \<Rightarrow> r \<notin> set rs \<and> (\<exists>p \<in> set (key_packages db). claimable body p \<and> kp_ref_hash p = r \<and> kp_key_package p = kp
        \<and> (\<forall>q \<in> set (key_packages db). claimable body q \<longrightarrow> kp_created_at p \<le> kp_created_at q))
    | (NoKeyPackage, db') \<Rightarrow> db' = db \<and> \<not> (\<exists>p \<in> set (key_packages db). claimable body p))"
proof -
  have inv: "kp_inv (key_packages db) rs" using kp_run_inv [OF assms] .
  then have "distinct rs" by (simp add: kp_inv_def)
  moreover obtain out db' where claim: "apply_claim_key_package body db = (out, db')" by fastforce
  ultimately show ?thesis
  proof (cases out)
    case (Claimed r kp)
    with claim claim_inv inv have "r \<notin> set rs" by blast
    moreover obtain p where "p \<in> set (key_packages db)" "claimable body p" "kp_ref_hash p = r" "kp_key_package p = kp"
      "\<And>q. q \<in> set (key_packages db) \<Longrightarrow> claimable body q \<Longrightarrow> kp_created_at p \<le> kp_created_at q"
      using claim_Claimed claim Claimed by metis
    ultimately show ?thesis using claim Claimed \<open>distinct rs\<close> by auto
  next
    case NoKeyPackage
    then have "sort_key kp_created_at (filter (claimable body) (key_packages db)) = []" "db' = db"
      using claim by (auto simp: apply_claim_key_package_def split: list.splits)
    then have "filter (claimable body) (key_packages db) = []" by (metis length_sort length_0_conv)
    then show ?thesis using claim NoKeyPackage \<open>distinct rs\<close> \<open>db' = db\<close> by (simp add: filter_empty_conv)
  qed
qed

theorem key_packages_single_use_witness:
  "\<exists>db kp. kp_run db [''h''] \<and> apply_claim_key_package \<lparr>cl_target_user_id = ''u'', cl_target_device_id = Some ''d''\<rparr> demo_pool = (Claimed ''h'' kp, db)
     \<and> apply_claim_key_package \<lparr>cl_target_user_id = ''u'', cl_target_device_id = None\<rparr> db = (NoKeyPackage, db)"
proof -
  let ?body = "\<lparr>cl_target_user_id = ''u'', cl_target_device_id = Some ''d''\<rparr>"
  have pool: "kp_run demo_pool []" unfolding demo_pool_def
    by (rule kp_publish [OF kp_start prod.collapse [symmetric]]) (simp add: demo_main_def main_db_new_def)
  have "\<exists>kp db. apply_claim_key_package ?body demo_pool = (Claimed ''h'' kp, db)
      \<and> \<not> (\<exists>p \<in> set (key_packages db). claimable \<lparr>cl_target_user_id = ''u'', cl_target_device_id = None\<rparr> p)"
    by (simp add: demo_pool_def apply_publish_key_packages_def decode_b64_def demo_b64_def insert_key_package_def demo_main_def
        main_db_new_def apply_claim_key_package_def claimable_def sql_update_def)
  then obtain kp db where claim: "apply_claim_key_package ?body demo_pool = (Claimed ''h'' kp, db)"
      "\<not> (\<exists>p \<in> set (key_packages db). claimable \<lparr>cl_target_user_id = ''u'', cl_target_device_id = None\<rparr> p)" by blast
  have run: "kp_run db [''h'']" using kp_claim [OF pool claim(1)] by simp
  show ?thesis using key_packages_single_use [OF run, of "\<lparr>cl_target_user_id = ''u'', cl_target_device_id = None\<rparr>"] run claim
    by (auto split: prod.splits claim_outcome.splits)
qed

end
