(* ===== verification/Delivery_Account.thy ===== *)
theory Delivery_Account
  imports Delivery_Devices
begin

text \<open>The account domain of the delivery service (\<open>account.rs\<close>): rotation of the account key with its compare-and-swap on the
  account-key log, security events, enrollment decisions, revoking and logging out devices, and the wipes that follow an identity
  reset or an account deletion. Where a query without \<open>ORDER BY\<close> takes one row of several, the argument \<open>pick\<close> says which.\<close>

section \<open>Rotating the account key\<close>

record rotate_identity_body =
  ri_based_on_version :: i64
  ri_account_id_pub :: string
  ri_salt :: string
  ri_nonce :: string
  ri_wrapped_key :: string
  ri_user_id :: "string option"

datatype rotate_outcome = RotApplied i64 | RotForbidden | RotConflict i64

fun rotate_outcome_response :: "rotate_outcome \<Rightarrow> response" where
  "rotate_outcome_response (RotApplied new_version) = (200, IdentityReply new_version)"
| "rotate_outcome_response RotForbidden = into_response Forbidden"
| "rotate_outcome_response (RotConflict head_version) = (409, VersionConflict head_version)"

text \<open>\<open>SELECT COALESCE(MAX(identity_version), 0)\<close>.\<close>

definition current_key_log_head :: "main_db \<Rightarrow> string \<Rightarrow> i64" where
  "current_key_log_head db user_id =
     (case map ak_identity_version (filter (\<lambda>r. ak_user_id r = user_id) (key_log db)) of [] \<Rightarrow> 0 | v # vs \<Rightarrow> fold max vs v)"

definition append_key_log :: "string \<Rightarrow> bytes \<Rightarrow> i64 \<Rightarrow> main_db \<Rightarrow> main_db" where
  "append_key_log user_id pub version db = db\<lparr>
     key_log := key_log db @ [\<lparr>ak_seq = key_log_seq db, ak_user_id = user_id, ak_account_id_pub = pub, ak_identity_version = version\<rparr>],
     key_log_seq := key_log_seq db + 1\<rparr>"

definition has_key_version :: "main_db \<Rightarrow> string \<Rightarrow> i64 \<Rightarrow> bool" where
  "has_key_version db user_id version \<longleftrightarrow> list_ex (\<lambda>r. ak_user_id r = user_id \<and> ak_identity_version r = version) (key_log db)"

text \<open>\<open>INSERT INTO account_recovery ... ON CONFLICT(user_id) DO UPDATE\<close>.\<close>

definition upsert_recovery :: "bool \<Rightarrow> account_recovery \<Rightarrow> main_db \<Rightarrow> db_error + main_db" where
  "upsert_recovery fk row db =
     (if \<not> list_ex (\<lambda>r. ar_user_id r = ar_user_id row) (recoveries db) \<and> fk \<and> \<not> has_user db (ar_user_id row) then Inl StatementFailed
      else Inr (db\<lparr>recoveries := sql_upsert (\<lambda>r. ar_user_id r = ar_user_id row) (\<lambda>_. row) row (recoveries db)\<rparr>))"

text \<open>The conditional insert, the bump of the user's row and the new recovery blob are one transaction.\<close>

definition apply_rotate_identity :: "b64 \<Rightarrow> bool \<Rightarrow> authed \<Rightarrow> rotate_identity_body \<Rightarrow> main_db \<Rightarrow> db_error + rotate_outcome \<times> main_db" where
  "apply_rotate_identity E fk authed body db =
     (case resolve_actor authed (ri_user_id body) of
        Inl _ \<Rightarrow> Inr (RotForbidden, db)
      | Inr actor \<Rightarrow>
          bind_res (decode_b64 E (ri_account_id_pub body)) (\<lambda>pub_bytes.
          bind_res (decode_b64 E (ri_salt body)) (\<lambda>salt.
          bind_res (decode_b64 E (ri_nonce body)) (\<lambda>nonce.
          bind_res (decode_b64 E (ri_wrapped_key body)) (\<lambda>wrapped.
            let new_version = wrap_i64 (ri_based_on_version body + 1) in
            if ri_based_on_version body \<noteq> current_key_log_head db actor \<or> has_key_version db actor new_version
            then Inr (RotConflict (current_key_log_head db actor), db)
            else let db = append_key_log actor pub_bytes new_version db;
                     db = db\<lparr>users := sql_update (\<lambda>u. u_id u = actor)
                       (\<lambda>u. u\<lparr>u_account_id_pub := Some pub_bytes, u_identity_version := new_version\<rparr>) (users db)\<rparr>
                 in bind_res (upsert_recovery fk \<lparr>ar_user_id = actor, ar_identity_version = new_version, ar_salt = salt, ar_nonce = nonce,
                        ar_wrapped_key = wrapped\<rparr> db) (\<lambda>db. Inr (RotApplied new_version, db)))))))"

section \<open>Security events\<close>

record security_event_body =
  se_kind :: string
  se_device_id :: "string option"
  se_metadata :: "string option"
  se_user_id :: "string option"

definition apply_record_security_event :: "bool \<Rightarrow> string \<Rightarrow> security_event_body apply_fn" where
  "apply_record_security_event fk ulid authed body db =
     (case resolve_actor authed (se_user_id body) of
        Inl out \<Rightarrow> Inr (out, db)
      | Inr actor \<Rightarrow>
          if list_ex (\<lambda>e. ev_id e = ulid) (security_events db) \<or> fk \<and> \<not> has_user db actor then Inl StatementFailed
          else Inr (Ok, db\<lparr>security_events := security_events db @ [\<lparr>ev_id = ulid, ev_user_id = actor, ev_kind = se_kind body,
                 ev_device_id = se_device_id body, ev_metadata = se_metadata body\<rparr>]\<rparr>))"

section \<open>Enrollment decisions\<close>

record approve_enrollment_body =
  ae_request_id :: string
  ae_wrapped_account_key :: string
  ae_approved_by_device_id :: string
  ae_user_id :: "string option"

text \<open>An update that hits no row is refused.\<close>

definition update_enrollment :: "string \<Rightarrow> string \<Rightarrow> (device_enrollment_request \<Rightarrow> device_enrollment_request) \<Rightarrow> main_db \<Rightarrow> write_outcome \<times> main_db" where
  "update_enrollment request_id actor f db =
     (let hit = (\<lambda>r. er_id r = request_id \<and> er_user_id r = actor)
      in if \<not> list_ex hit (enrollments db) then (OutForbidden, db)
         else (Ok, db\<lparr>enrollments := sql_update hit f (enrollments db)\<rparr>))"

definition apply_approve_enrollment :: "b64 \<Rightarrow> approve_enrollment_body apply_fn" where
  "apply_approve_enrollment E authed body db =
     (case resolve_actor authed (ae_user_id body) of
        Inl out \<Rightarrow> Inr (out, db)
      | Inr actor \<Rightarrow>
          bind_res (decode_b64 E (ae_wrapped_account_key body)) (\<lambda>wrapped.
            Inr (update_enrollment (ae_request_id body) actor
              (\<lambda>r. r\<lparr>er_wrapped_account_key := Some wrapped, er_status := ''approved'', er_approved_by_device_id := Some (ae_approved_by_device_id body)\<rparr>) db)))"

record reject_enrollment_body =
  re_request_id :: string
  re_approved_by_device_id :: string
  re_user_id :: "string option"

definition apply_reject_enrollment :: "reject_enrollment_body apply_fn" where
  "apply_reject_enrollment authed body db =
     (case resolve_actor authed (re_user_id body) of
        Inl out \<Rightarrow> Inr (out, db)
      | Inr actor \<Rightarrow> Inr (update_enrollment (re_request_id body) actor
            (\<lambda>r. r\<lparr>er_status := ''rejected'', er_approved_by_device_id := Some (re_approved_by_device_id body)\<rparr>) db))"

section \<open>Revoking and logging out a device\<close>

record own_device_body =
  ow_device_id :: string
  ow_user_id :: "string option"

definition apply_revoke_device :: "string \<Rightarrow> own_device_body apply_fn" where
  "apply_revoke_device now authed body db =
     (case resolve_actor authed (ow_user_id body) of
        Inl out \<Rightarrow> Inr (out, db)
      | Inr actor \<Rightarrow> Inr (Ok, db\<lparr>
          key_packages := sql_delete (\<lambda>p. kp_user_id p = actor \<and> kp_device_id p = Some (ow_device_id body)) (key_packages db),
          user_devices := sql_update (\<lambda>d. ud_device_id d = ow_device_id body \<and> ud_user_id d = actor \<and> ud_revoked_at d = None)
            (\<lambda>d. d\<lparr>ud_revoked_at := Some now\<rparr>) (user_devices db)\<rparr>))"

definition apply_logout_device :: "own_device_body apply_fn" where
  "apply_logout_device authed body db =
     (case resolve_actor authed (ow_user_id body) of
        Inl out \<Rightarrow> Inr (out, db)
      | Inr actor \<Rightarrow> Inr (Ok, db\<lparr>user_devices := sql_delete (\<lambda>d. ud_device_id d = ow_device_id body \<and> ud_user_id d = actor) (user_devices db)\<rparr>))"

section \<open>Leaving every group\<close>

definition handoff_group :: "bool \<Rightarrow> (string list \<Rightarrow> string) \<Rightarrow> string \<Rightarrow> string \<times> string \<Rightarrow> main_db \<Rightarrow> main_db" where
  "handoff_group fk pick actor = (\<lambda>(gid, role) db.
     if length (filter (\<lambda>m. gm_group_id m = gid) (group_members db)) \<le> 1 then delete_group_row fk gid db
     else if role = ''admin'' \<and> filter (\<lambda>m. gm_group_id m = gid \<and> gm_role m = ''admin'' \<and> gm_user_id m \<noteq> actor) (group_members db) = []
     then (case map gm_user_id (filter (\<lambda>m. gm_group_id m = gid \<and> gm_user_id m \<noteq> actor) (group_members db)) of
             [] \<Rightarrow> db
           | candidates \<Rightarrow> db\<lparr>group_members := sql_update (\<lambda>m. gm_group_id m = gid \<and> gm_user_id m = pick candidates)
               (\<lambda>m. m\<lparr>gm_role := ''admin''\<rparr>) (group_members db)\<rparr>)
     else db)"

definition handoff_group_ownership :: "bool \<Rightarrow> (string list \<Rightarrow> string) \<Rightarrow> string \<Rightarrow> main_db \<Rightarrow> main_db" where
  "handoff_group_ownership fk pick actor db =
     (let memberships = map (\<lambda>m. (gm_group_id m, gm_role m)) (filter (\<lambda>m. gm_user_id m = actor) (group_members db))
      in fold (handoff_group fk pick actor) memberships db)"

record reset_recover_body =
  rr_current_device_id :: "string option"
  rr_user_id :: "string option"

definition apply_reset_recover :: "bool \<Rightarrow> (string list \<Rightarrow> string) \<Rightarrow> reset_recover_body apply_fn" where
  "apply_reset_recover fk pick authed body db =
     (case resolve_actor authed (rr_user_id body) of
        Inl out \<Rightarrow> Inr (out, db)
      | Inr actor \<Rightarrow>
          let db = handoff_group_ownership fk pick actor db
          in Inr (Ok, db\<lparr>
               group_members := sql_delete (\<lambda>m. gm_user_id m = actor) (group_members db),
               dm_channel_members := sql_delete (\<lambda>m. dcm_user_id m = actor) (dm_channel_members db),
               key_packages := sql_delete (\<lambda>p. kp_user_id p = actor) (key_packages db),
               user_devices := (case rr_current_device_id body of
                   Some dev \<Rightarrow> sql_delete (\<lambda>d. ud_user_id d = actor \<and> ud_device_id d \<noteq> dev) (user_devices db)
                 | None \<Rightarrow> sql_delete (\<lambda>d. ud_user_id d = actor) (user_devices db))\<rparr>))"

text \<open>\<open>DELETE FROM users WHERE id = ?1\<close>. With foreign keys, the rows that name the user go too, and a join request the user reviewed keeps the row.\<close>

definition delete_user_row :: "bool \<Rightarrow> string \<Rightarrow> main_db \<Rightarrow> db_error + main_db" where
  "delete_user_row fk user db =
     (let db1 = db\<lparr>users := sql_delete (\<lambda>u. u_id u = user) (users db)\<rparr>
      in if \<not> (fk \<and> has_user db user) then Inr db1
         else let requests = sql_delete (\<lambda>r. jr_requester_id r = user) (group_join_requests db)
              in if list_ex (\<lambda>r. jr_reviewed_by r = Some user) requests then Inl StatementFailed
                 else Inr (db1\<lparr>
                   recoveries := sql_delete (\<lambda>r. ar_user_id r = user) (recoveries db),
                   enrollments := sql_delete (\<lambda>r. er_user_id r = user) (enrollments db),
                   dm_channel_members := sql_delete (\<lambda>m. dcm_user_id m = user) (dm_channel_members db),
                   group_invites := sql_delete (\<lambda>i. iv_inviter_id i = user \<or> iv_invitee_id i = user) (group_invites db),
                   group_join_requests := requests,
                   group_members := sql_delete (\<lambda>m. gm_user_id m = user) (group_members db),
                   reactions := sql_delete (\<lambda>r. mr_user_id r = user) (reactions db),
                   key_packages := sql_delete (\<lambda>p. kp_user_id p = user) (key_packages db),
                   security_events := sql_delete (\<lambda>e. ev_user_id e = user) (security_events db),
                   blocks := sql_delete (\<lambda>b. ub_blocker_id b = user \<or> ub_blocked_id b = user) (blocks db),
                   user_devices := sql_delete (\<lambda>d. ud_user_id d = user) (user_devices db),
                   preferences := sql_delete (\<lambda>p. up_user_id p = user) (preferences db)\<rparr>))"

text \<open>\<open>DeleteAccountBody\<close> has one field.\<close>

definition apply_delete_account :: "bool \<Rightarrow> (string list \<Rightarrow> string) \<Rightarrow> string option apply_fn" where
  "apply_delete_account fk pick authed user_id db =
     (case resolve_actor authed user_id of
        Inl out \<Rightarrow> Inr (out, db)
      | Inr actor \<Rightarrow>
          let db = handoff_group_ownership fk pick actor db
          in bind_res (delete_user_row fk actor (db\<lparr>
               envelopes := sql_delete (\<lambda>e. me_sender_id e = actor) (envelopes db),
               key_packages := sql_delete (\<lambda>p. kp_user_id p = actor) (key_packages db),
               group_members := sql_delete (\<lambda>m. gm_user_id m = actor) (group_members db)\<rparr>)) (\<lambda>db. Inr (Ok, db)))"

section \<open>Handlers\<close>

text \<open>The two handlers that also take a session.\<close>

definition rotate_identity :: "bool \<Rightarrow> lib \<Rightarrow> b64 \<Rightarrow> (bytes \<Rightarrow> rotate_identity_body option) \<Rightarrow> i64 \<Rightarrow> request \<Rightarrow> app_state \<Rightarrow> response \<times> app_state" where
  "rotate_identity fk L E from_slice now req st =
     (case gate_or_session L E (st_require_auth st) now (st_db st) (st_sessions st) req of
        (Inl rej, s) \<Rightarrow> (into_response rej, st\<lparr>st_sessions := s\<rparr>)
      | (Inr authed, s) \<Rightarrow>
          (case from_slice (req_body req) of
             None \<Rightarrow> (bad_request ''invalid body'', st\<lparr>st_sessions := s\<rparr>)
           | Some parsed \<Rightarrow>
               (case apply_rotate_identity E fk authed parsed (st_db st) of
                  Inl err \<Rightarrow> (app_error, st\<lparr>st_sessions := s\<rparr>)
                | Inr (out, db) \<Rightarrow> (rotate_outcome_response out, st\<lparr>st_db := db, st_sessions := s\<rparr>))))"

definition reset_recover :: "bool \<Rightarrow> (string list \<Rightarrow> string) \<Rightarrow> lib \<Rightarrow> b64 \<Rightarrow> (bytes \<Rightarrow> reset_recover_body option) \<Rightarrow> i64 \<Rightarrow> request \<Rightarrow> app_state \<Rightarrow>
    response \<times> app_state" where
  "reset_recover fk pick L E from_slice now req st =
     (case gate_or_session L E (st_require_auth st) now (st_db st) (st_sessions st) req of
        (Inl rej, s) \<Rightarrow> (into_response rej, st\<lparr>st_sessions := s\<rparr>)
      | (Inr authed, s) \<Rightarrow>
          (case from_slice (req_body req) of
             None \<Rightarrow> (bad_request ''invalid body'', st\<lparr>st_sessions := s\<rparr>)
           | Some parsed \<Rightarrow>
               (case apply_reset_recover fk pick authed parsed (st_db st) of
                  Inl err \<Rightarrow> (app_error, st\<lparr>st_sessions := s\<rparr>)
                | Inr (out, db) \<Rightarrow> (outcome_response out, st\<lparr>st_db := db, st_sessions := s\<rparr>))))"

definition record_security_event where "record_security_event fk ulid = run_endpoint (apply_record_security_event fk ulid)"
definition approve_enrollment where "approve_enrollment E = run_endpoint (apply_approve_enrollment E)"
definition reject_enrollment where "reject_enrollment = run_endpoint apply_reject_enrollment"
definition revoke_device where "revoke_device now_text = run_endpoint (apply_revoke_device now_text)"
definition logout_device where "logout_device = run_endpoint apply_logout_device"

text \<open>An empty body stands for an absent user.\<close>

definition delete_account :: "bool \<Rightarrow> (string list \<Rightarrow> string) \<Rightarrow> lib \<Rightarrow> b64 \<Rightarrow> (bytes \<Rightarrow> string option option) \<Rightarrow> i64 \<Rightarrow> request \<Rightarrow> app_state \<Rightarrow> response \<times> app_state" where
  "delete_account fk pick L E from_slice =
     run_endpoint (apply_delete_account fk pick) L E (\<lambda>body. if body = [] then Some None else from_slice body)"

section \<open>Authorisation\<close>

interpretation a_event: write_endpoint "apply_record_security_event fk ulid" "\<lambda>u b db. se_user_id b = None \<or> se_user_id b = Some u" for fk ulid
  by unfold_locales (auto simp: apply_record_security_event_def split: endpoint_splits dest: resolve_actor_Inl)

interpretation a_approve: write_endpoint "apply_approve_enrollment E" "\<lambda>u b db. \<exists>r \<in> set (enrollments db). er_id r = ae_request_id b \<and> er_user_id r = u" for E
  by unfold_locales
    (auto simp: apply_approve_enrollment_def update_enrollment_def Let_def bind_res_eq_Inr list_ex_iff split: endpoint_splits dest: resolve_actor_Inl)

interpretation a_reject: write_endpoint apply_reject_enrollment "\<lambda>u b db. \<exists>r \<in> set (enrollments db). er_id r = re_request_id b \<and> er_user_id r = u"
  by unfold_locales
    (auto simp: apply_reject_enrollment_def update_enrollment_def Let_def list_ex_iff split: endpoint_splits dest: resolve_actor_Inl)

interpretation a_revoke: write_endpoint "apply_revoke_device now" "\<lambda>u b db. ow_user_id b = None \<or> ow_user_id b = Some u" for now
  by unfold_locales (auto simp: apply_revoke_device_def split: endpoint_splits dest: resolve_actor_Inl)

interpretation a_logout: write_endpoint apply_logout_device "\<lambda>u b db. ow_user_id b = None \<or> ow_user_id b = Some u"
  by unfold_locales (auto simp: apply_logout_device_def split: endpoint_splits dest: resolve_actor_Inl)

interpretation a_reset: write_endpoint "apply_reset_recover fk pick" "\<lambda>u b db. rr_user_id b = None \<or> rr_user_id b = Some u" for fk pick
  by unfold_locales (auto simp: apply_reset_recover_def Let_def split: endpoint_splits dest: resolve_actor_Inl)

interpretation a_delete: write_endpoint "apply_delete_account fk pick" "\<lambda>u b db. b = None \<or> b = Some u" for fk pick
  by unfold_locales (auto simp: apply_delete_account_def Let_def bind_res_eq_Inr split: endpoint_splits dest: resolve_actor_Inl)

section \<open>Handing over groups\<close>

text \<open>A group that has members has an admin; one besides \<open>actor\<close> if it has members besides \<open>actor\<close>.\<close>

definition has_admin :: "string \<Rightarrow> group_member list \<Rightarrow> bool" where
  "has_admin g ms \<longleftrightarrow> (\<exists>m \<in> set ms. gm_group_id m = g) \<longrightarrow> (\<exists>m \<in> set ms. gm_group_id m = g \<and> gm_role m = ''admin'')"

definition handed_over :: "string \<Rightarrow> string \<Rightarrow> group_member list \<Rightarrow> bool" where
  "handed_over actor g ms \<longleftrightarrow> (\<exists>m \<in> set ms. gm_group_id m = g \<and> gm_user_id m \<noteq> actor) \<longrightarrow>
     (\<exists>m \<in> set ms. gm_group_id m = g \<and> gm_user_id m \<noteq> actor \<and> gm_role m = ''admin'')"

definition picks :: "(string list \<Rightarrow> string) \<Rightarrow> bool" where
  "picks pick \<longleftrightarrow> (\<forall>xs. xs \<noteq> [] \<longrightarrow> pick xs \<in> set xs)"

lemma handoff_group_members:
  "group_members (handoff_group fk pick actor (gid, role) db) = group_members db
   \<or> group_members (handoff_group fk pick actor (gid, role) db) = sql_delete (\<lambda>m. gm_group_id m = gid) (group_members db)
   \<or> (\<exists>u. (picks pick \<longrightarrow> u \<noteq> actor)
        \<and> group_members (handoff_group fk pick actor (gid, role) db) = sql_update (\<lambda>m. gm_group_id m = gid \<and> gm_user_id m = u) (\<lambda>m. m\<lparr>gm_role := ''admin''\<rparr>) (group_members db))"
proof -
  have "pick xs \<noteq> actor" if "picks pick" "xs \<noteq> []" "xs = map gm_user_id (filter (\<lambda>m. gm_group_id m = gid \<and> gm_user_id m \<noteq> actor) (group_members db))" for xs
  proof -
    have "pick xs \<in> set xs" using that(1,2) by (simp add: picks_def)
    then show ?thesis unfolding that(3) by auto
  qed
  then show ?thesis by (auto simp: handoff_group_def delete_group_row_def Let_def split: list.split)
qed

lemma update_role_effects:
  assumes "ms' = sql_update (\<lambda>m. gm_group_id m = gid \<and> gm_user_id m = u) (\<lambda>m. m\<lparr>gm_role := ''admin''\<rparr>) ms"
  shows "m \<in> set ms \<Longrightarrow> \<exists>m' \<in> set ms'. gm_group_id m' = gm_group_id m \<and> gm_user_id m' = gm_user_id m \<and> (gm_role m = ''admin'' \<longrightarrow> gm_role m' = ''admin'')"
    and "m' \<in> set ms' \<Longrightarrow> \<exists>m \<in> set ms. gm_group_id m' = gm_group_id m \<and> gm_user_id m' = gm_user_id m \<and> (gm_user_id m \<noteq> u \<longrightarrow> m' = m)"
proof -
  let ?f = "\<lambda>m. if gm_group_id m = gid \<and> gm_user_id m = u then m\<lparr>gm_role := ''admin''\<rparr> else m"
  show "\<exists>m' \<in> set ms'. gm_group_id m' = gm_group_id m \<and> gm_user_id m' = gm_user_id m \<and> (gm_role m = ''admin'' \<longrightarrow> gm_role m' = ''admin'')" if "m \<in> set ms"
    using that by (intro bexI [of _ "?f m"]) (simp_all add: assms sql_update_def)
  show "\<exists>m \<in> set ms. gm_group_id m' = gm_group_id m \<and> gm_user_id m' = gm_user_id m \<and> (gm_user_id m \<noteq> u \<longrightarrow> m' = m)" if "m' \<in> set ms'"
    using that by (auto simp: assms sql_update_def)
qed

lemma has_admin_changes:
  assumes "has_admin g ms"
  shows "has_admin g (sql_delete (\<lambda>m. gm_group_id m = gid) ms)"
    and "has_admin g (sql_update (\<lambda>m. gm_group_id m = gid \<and> gm_user_id m = u) (\<lambda>m. m\<lparr>gm_role := ''admin''\<rparr>) ms)"
proof -
  show "has_admin g (sql_delete (\<lambda>m. gm_group_id m = gid) ms)"
    using assms by (auto simp: has_admin_def set_sql_delete)
  show "has_admin g (sql_update (\<lambda>m. gm_group_id m = gid \<and> gm_user_id m = u) (\<lambda>m. m\<lparr>gm_role := ''admin''\<rparr>) ms)"
    unfolding has_admin_def
  proof
    assume "\<exists>m \<in> set (sql_update (\<lambda>m. gm_group_id m = gid \<and> gm_user_id m = u) (\<lambda>m. m\<lparr>gm_role := ''admin''\<rparr>) ms). gm_group_id m = g"
    then obtain m' where m': "m' \<in> set (sql_update (\<lambda>m. gm_group_id m = gid \<and> gm_user_id m = u) (\<lambda>m. m\<lparr>gm_role := ''admin''\<rparr>) ms)" "gm_group_id m' = g" by blast
    obtain m where "m \<in> set ms" "gm_group_id m = g" using update_role_effects(2) [OF refl m'(1)] m'(2) by metis
    then obtain a where a: "a \<in> set ms" "gm_group_id a = g" "gm_role a = ''admin''" using assms by (auto simp: has_admin_def)
    show "\<exists>m \<in> set (sql_update (\<lambda>m. gm_group_id m = gid \<and> gm_user_id m = u) (\<lambda>m. m\<lparr>gm_role := ''admin''\<rparr>) ms). gm_group_id m = g \<and> gm_role m = ''admin''"
      using update_role_effects(1) [OF refl a(1), of gid u] a by metis
  qed
qed

lemma handed_over_changes:
  assumes "handed_over actor g ms"
  shows "handed_over actor g (sql_delete (\<lambda>m. gm_group_id m = gid) ms)"
    and "handed_over actor g (sql_update (\<lambda>m. gm_group_id m = gid \<and> gm_user_id m = u) (\<lambda>m. m\<lparr>gm_role := ''admin''\<rparr>) ms)"
proof -
  show "handed_over actor g (sql_delete (\<lambda>m. gm_group_id m = gid) ms)"
    using assms by (auto simp: handed_over_def set_sql_delete)
  show "handed_over actor g (sql_update (\<lambda>m. gm_group_id m = gid \<and> gm_user_id m = u) (\<lambda>m. m\<lparr>gm_role := ''admin''\<rparr>) ms)"
    unfolding handed_over_def
  proof
    assume "\<exists>m \<in> set (sql_update (\<lambda>m. gm_group_id m = gid \<and> gm_user_id m = u) (\<lambda>m. m\<lparr>gm_role := ''admin''\<rparr>) ms). gm_group_id m = g \<and> gm_user_id m \<noteq> actor"
    then obtain m' where m': "m' \<in> set (sql_update (\<lambda>m. gm_group_id m = gid \<and> gm_user_id m = u) (\<lambda>m. m\<lparr>gm_role := ''admin''\<rparr>) ms)" "gm_group_id m' = g" "gm_user_id m' \<noteq> actor" by blast
    obtain m where "m \<in> set ms" "gm_group_id m = g" "gm_user_id m \<noteq> actor" using update_role_effects(2) [OF refl m'(1)] m'(2,3) by metis
    then obtain a where a: "a \<in> set ms" "gm_group_id a = g" "gm_user_id a \<noteq> actor" "gm_role a = ''admin''" using assms by (auto simp: handed_over_def)
    obtain b where b: "b \<in> set (sql_update (\<lambda>m. gm_group_id m = gid \<and> gm_user_id m = u) (\<lambda>m. m\<lparr>gm_role := ''admin''\<rparr>) ms)" "gm_group_id b = gm_group_id a"
        "gm_user_id b = gm_user_id a" "gm_role a = ''admin'' \<longrightarrow> gm_role b = ''admin''"
      using update_role_effects(1) [OF refl a(1), of gid u] by blast
    show "\<exists>m \<in> set (sql_update (\<lambda>m. gm_group_id m = gid \<and> gm_user_id m = u) (\<lambda>m. m\<lparr>gm_role := ''admin''\<rparr>) ms).
        gm_group_id m = g \<and> gm_user_id m \<noteq> actor \<and> gm_role m = ''admin''"
      by (rule bexI [OF _ b(1)]) (simp add: a b)
  qed
qed

lemma handoff_keeps_has_admin: "has_admin g (group_members db) \<Longrightarrow> has_admin g (group_members (handoff_group fk pick actor (gid, role) db))"
  using handoff_group_members [of fk pick actor gid role db] by (elim disjE exE conjE) (simp_all only: has_admin_changes)

lemma handoff_keeps_handed_over:
  "handed_over actor g (group_members db) \<Longrightarrow> handed_over actor g (group_members (handoff_group fk pick actor (gid, role) db))"
  using handoff_group_members [of fk pick actor gid role db] by (elim disjE exE conjE) (simp_all only: handed_over_changes)

lemma handoff_hands_over:
  assumes "picks pick" "has_admin g (group_members db)" "\<forall>m \<in> set (group_members db). gm_group_id m = g \<and> gm_user_id m = actor \<longrightarrow> gm_role m = role"
  shows "handed_over actor g (group_members (handoff_group fk pick actor (g, role) db))"
proof -
  let ?ms = "group_members db"
  let ?cs = "map gm_user_id (filter (\<lambda>m. gm_group_id m = g \<and> gm_user_id m \<noteq> actor) ?ms)"
  show ?thesis
  proof (cases "length (filter (\<lambda>m. gm_group_id m = g) ?ms) \<le> 1")
    case True
    have "m = m'" if "m \<in> set ?ms" "m' \<in> set ?ms" "gm_group_id m = g" "gm_group_id m' = g" for m m'
    proof -
      have "m \<in> set (filter (\<lambda>m. gm_group_id m = g) ?ms)" "m' \<in> set (filter (\<lambda>m. gm_group_id m = g) ?ms)" using that by simp_all
      then show ?thesis using True by (cases "filter (\<lambda>m. gm_group_id m = g) ?ms") auto
    qed
    then have "handed_over actor g ?ms" using assms(2) unfolding has_admin_def handed_over_def by metis
    then show ?thesis using True by (auto simp: handoff_group_def delete_group_row_def Let_def handed_over_def set_sql_delete)
  next
    case many: False
    show ?thesis
    proof (cases "role = ''admin'' \<and> filter (\<lambda>m. gm_group_id m = g \<and> gm_role m = ''admin'' \<and> gm_user_id m \<noteq> actor) ?ms = []")
      case sole: True
      show ?thesis
      proof (cases "?cs = []")
        case True
        then have "handed_over actor g ?ms" by (auto simp: handed_over_def filter_empty_conv)
        then show ?thesis using many sole True by (simp add: handoff_group_def)
      next
        case False
        then have "pick ?cs \<in> set ?cs" using assms(1) unfolding picks_def by blast
        then obtain m where m: "m \<in> set ?ms" "gm_group_id m = g" "gm_user_id m \<noteq> actor" "gm_user_id m = pick ?cs" by auto
        then have "m\<lparr>gm_role := ''admin''\<rparr> \<in> set (sql_update (\<lambda>m. gm_group_id m = g \<and> gm_user_id m = pick ?cs) (\<lambda>m. m\<lparr>gm_role := ''admin''\<rparr>) ?ms)"
          by (auto simp: sql_update_def intro!: image_eqI [of _ _ m])
        moreover have "group_members (handoff_group fk pick actor (g, role) db)
            = sql_update (\<lambda>m. gm_group_id m = g \<and> gm_user_id m = pick ?cs) (\<lambda>m. m\<lparr>gm_role := ''admin''\<rparr>) ?ms"
          using many sole False by (auto simp: handoff_group_def split: list.split)
        ultimately show ?thesis using m(2,3) unfolding handed_over_def by (metis (no_types, lifting) group_member.select_convs group_member.surjective group_member.update_convs(3))
      qed
    next
      case False
      then have "handed_over actor g ?ms"
        using assms(2,3) unfolding handed_over_def has_admin_def filter_empty_conv by metis
      then show ?thesis using many False by (auto simp: handoff_group_def)
    qed
  qed
qed

lemma handoff_keeps_actor_rows:
  assumes "picks pick" "m \<in> set (group_members (handoff_group fk pick actor x db))" "gm_user_id m = actor"
  shows "m \<in> set (group_members db)"
  using handoff_group_members [of fk pick actor "fst x" "snd x" db] assms
  by (cases x) (auto simp: sql_update_def sql_delete_def)

lemma handoff_fold:
  assumes "picks pick" "\<And>g. has_admin g (group_members db)"
    and "\<forall>m \<in> set (group_members db). gm_user_id m = actor \<longrightarrow> (\<forall>(g, role) \<in> set xs. gm_group_id m = g \<longrightarrow> gm_role m = role)"
    and "(\<exists>role. (g, role) \<in> set xs) \<or> handed_over actor g (group_members db)"
  shows "handed_over actor g (group_members (fold (handoff_group fk pick actor) xs db))"
  using assms
proof (induction xs arbitrary: db)
  case (Cons x xs)
  obtain g' role where x: "x = (g', role)" by (cases x)
  let ?db = "handoff_group fk pick actor (g', role) db"
  have own: "\<forall>m \<in> set (group_members db). gm_group_id m = g' \<and> gm_user_id m = actor \<longrightarrow> gm_role m = role" using Cons.prems(3) x by auto
  have "(\<exists>role. (g, role) \<in> set xs) \<or> handed_over actor g (group_members ?db)"
  proof (cases "g = g'")
    case True
    then show ?thesis using handoff_hands_over [OF Cons.prems(1) Cons.prems(2) own] by simp
  next
    case False
    then show ?thesis using Cons.prems(4) x handoff_keeps_handed_over by auto
  qed
  moreover have "\<forall>m \<in> set (group_members ?db). gm_user_id m = actor \<longrightarrow> (\<forall>(g, role) \<in> set xs. gm_group_id m = g \<longrightarrow> gm_role m = role)"
  proof (intro ballI impI)
    fix m assume m: "m \<in> set (group_members ?db)" "gm_user_id m = actor"
    then have "m \<in> set (group_members db)" by (rule handoff_keeps_actor_rows [OF Cons.prems(1)])
    then show "case y of (g, role) \<Rightarrow> gm_group_id m = g \<longrightarrow> gm_role m = role" if "y \<in> set xs" for y
      using Cons.prems(3) m(2) that x by auto
  qed
  ultimately show ?case using Cons.IH [OF Cons.prems(1) handoff_keeps_has_admin [OF Cons.prems(2)]] x by simp
qed simp

lemma handoff_hands_over_all:
  assumes "picks pick" "member_inv (group_members db)" "\<And>g. has_admin g (group_members db)"
  shows "handed_over actor g (group_members (handoff_group_ownership fk pick actor db))"
proof -
  let ?xs = "map (\<lambda>m. (gm_group_id m, gm_role m)) (filter (\<lambda>m. gm_user_id m = actor) (group_members db))"
  have "inj_on (\<lambda>m. (gm_group_id m, gm_user_id m)) (set (group_members db))" using assms(2) by (simp add: member_inv_def distinct_map)
  then have "\<forall>m \<in> set (group_members db). gm_user_id m = actor \<longrightarrow> (\<forall>(g, role) \<in> set ?xs. gm_group_id m = g \<longrightarrow> gm_role m = role)"
    by (auto dest!: inj_onD)
  moreover have "(\<exists>role. (g, role) \<in> set ?xs) \<or> handed_over actor g (group_members db)"
    using assms(3) [of g] by (auto simp: handed_over_def has_admin_def image_iff)
  ultimately show ?thesis unfolding handoff_group_ownership_def Let_def using assms(1,3) by (intro handoff_fold)
qed

section \<open>Which devices can still sign\<close>

definition authenticates :: "lib \<Rightarrow> main_db \<Rightarrow> string \<Rightarrow> string \<Rightarrow> bool" where
  "authenticates L db user device \<longleftrightarrow> (\<exists>E headers meth path body now.
     header_str headers H_DEVICE = Some device \<and> verify_request L E (Some db) headers meth path body now = Inr user)"

lemma authenticates_device:
  assumes "authenticates L db user device"
  shows "\<exists>d \<in> set (user_devices db). ud_device_id d = device \<and> ud_user_id d = user \<and> ud_revoked_at d = None"
proof -
  obtain E headers meth path body now where v: "header_str headers H_DEVICE = Some device" "verify_request L E (Some db) headers meth path body now = Inr user"
    using assms by (auto simp: authenticates_def)
  obtain creds where c: "parse_credentials E headers now = Inr creds" using v(2) by (auto simp: verify_request_def bind_res_eq_Inr)
  have "cr_device_id creds = device" using c v(1) by (auto simp: parse_credentials_def split: option.splits if_splits)
  moreover have "\<exists>vk. lookup_device_pubkey L (Some db) (cr_user_id creds) (cr_device_id creds) = Inr (Some vk)" "cr_user_id creds = user"
    using v(2) c by (auto simp: verify_request_def split: sum.splits option.splits if_splits)
  ultimately show ?thesis by (auto simp: lookup_device_pubkey_def split: option.splits if_splits dest!: first_row_Some)
qed

lemma handoff_group_frame:
  "user_devices (handoff_group fk pick actor x db) = user_devices db" "users (handoff_group fk pick actor x db) = users db"
  "key_log (handoff_group fk pick actor x db) = key_log db" "key_log_seq (handoff_group fk pick actor x db) = key_log_seq db"
  "recoveries (handoff_group fk pick actor x db) = recoveries db"
  by (cases x; simp add: handoff_group_def delete_group_row_def Let_def split: list.split)+

lemma handoff_frame:
  "user_devices (handoff_group_ownership fk pick actor db) = user_devices db" "users (handoff_group_ownership fk pick actor db) = users db"
  "key_log (handoff_group_ownership fk pick actor db) = key_log db" "key_log_seq (handoff_group_ownership fk pick actor db) = key_log_seq db"
  "recoveries (handoff_group_ownership fk pick actor db) = recoveries db"
proof -
  have "user_devices (fold (handoff_group fk pick actor) xs db) = user_devices db \<and> users (fold (handoff_group fk pick actor) xs db) = users db
      \<and> key_log (fold (handoff_group fk pick actor) xs db) = key_log db \<and> key_log_seq (fold (handoff_group fk pick actor) xs db) = key_log_seq db
      \<and> recoveries (fold (handoff_group fk pick actor) xs db) = recoveries db" for xs
    by (induction xs arbitrary: db) (simp_all add: handoff_group_frame)
  then show "user_devices (handoff_group_ownership fk pick actor db) = user_devices db" "users (handoff_group_ownership fk pick actor db) = users db"
    "key_log (handoff_group_ownership fk pick actor db) = key_log db" "key_log_seq (handoff_group_ownership fk pick actor db) = key_log_seq db"
    "recoveries (handoff_group_ownership fk pick actor db) = recoveries db"
    by (simp_all add: handoff_group_ownership_def Let_def)
qed

lemma delete_user_frame:
  assumes "delete_user_row fk u db = Inr db'"
  shows "key_log db' = key_log db" "key_log_seq db' = key_log_seq db" "set (recoveries db') \<subseteq> set (recoveries db)" "set (users db') \<subseteq> set (users db)"
  using assms by (auto simp: delete_user_row_def Let_def sql_delete_def split: if_splits)

lemma delete_account_frame:
  assumes "apply_delete_account fk pick a b db = Inr (out, db')"
  shows "key_log db' = key_log db \<and> key_log_seq db' = key_log_seq db \<and> set (recoveries db') \<subseteq> set (recoveries db) \<and> set (users db') \<subseteq> set (users db)"
proof (cases "resolve_actor a b")
  case (Inr actor)
  let ?h = "handoff_group_ownership fk pick actor db"
  have "delete_user_row fk actor (?h\<lparr>envelopes := sql_delete (\<lambda>e. me_sender_id e = actor) (envelopes ?h), key_packages := sql_delete (\<lambda>p. kp_user_id p = actor) (key_packages ?h),
      group_members := sql_delete (\<lambda>m. gm_user_id m = actor) (group_members ?h)\<rparr>) = Inr db'"
    using assms Inr by (simp add: apply_delete_account_def Let_def bind_res_eq_Inr)
  from delete_user_frame [OF this] show ?thesis by (simp add: handoff_frame)
qed (use assms in \<open>simp add: apply_delete_account_def\<close>)

text \<open>Without foreign keys the device rows outlive the account, and their keys still sign for it.\<close>

lemma deleted_account_keeps_devices:
  assumes "apply_delete_account False pick (Some u) b db = Inr (Ok, db')"
  shows "user_devices db' = user_devices db \<and> \<not> has_user db' u"
  using assms by (auto simp: apply_delete_account_def delete_user_row_def Let_def bind_res_eq_Inr handoff_frame has_user_def list_ex_iff set_sql_delete split: if_splits)

text \<open>With them an account that reviewed somebody's join request cannot be deleted.\<close>

lemma reviewer_cannot_delete_account:
  assumes "has_user db u" "r \<in> set (group_join_requests (handoff_group_ownership True pick u db))" "jr_reviewed_by r = Some u" "jr_requester_id r \<noteq> u"
  shows "apply_delete_account True pick (Some u) None db = Inl StatementFailed"
proof -
  have "list_ex (\<lambda>r. jr_reviewed_by r = Some u) (sql_delete (\<lambda>r. jr_requester_id r = u) (group_join_requests (handoff_group_ownership True pick u db)))"
    using assms(2,3,4) by (auto simp: list_ex_iff set_sql_delete)
  then show ?thesis using assms(1) by (simp add: apply_delete_account_def delete_user_row_def Let_def has_user_def handoff_frame bind_res_def)
qed

lemma delete_account_devices:
  assumes "has_user db u" "apply_delete_account True pick (Some u) b db = Inr (Ok, db')"
  shows "user_devices db' = sql_delete (\<lambda>d. ud_user_id d = u) (user_devices db)"
proof -
  have "has_user (handoff_group_ownership True pick u db) u" using assms(1) by (simp add: has_user_def handoff_frame)
  then have "has_user (handoff_group_ownership True pick u db\<lparr>envelopes := x, key_packages := y, group_members := z\<rparr>) u" for x y z
    by (simp add: has_user_def)
  then show ?thesis using assms(2)
    by (simp add: apply_delete_account_def delete_user_row_def Let_def bind_res_def handoff_frame split: if_splits sum.splits) auto
qed

lemma reset_devices:
  assumes "apply_reset_recover fk pick (Some u) rb db = Inr (Ok, db')"
  shows "set (user_devices db') \<subseteq> {e. ud_user_id e = u \<longrightarrow> rr_current_device_id rb = Some (ud_device_id e)}"
proof -
  have "user_devices db' = (case rr_current_device_id rb of Some dev \<Rightarrow> sql_delete (\<lambda>d. ud_user_id d = u \<and> ud_device_id d \<noteq> dev) (user_devices db)
      | None \<Rightarrow> sql_delete (\<lambda>d. ud_user_id d = u) (user_devices db))"
    using assms by (auto simp: apply_reset_recover_def Let_def handoff_frame split: if_splits option.splits)
  then show ?thesis by (auto simp: set_sql_delete split: option.splits)
qed

section \<open>Properties\<close>

text \<open>C22. No orphaned groups: when a user leaves everything, by an identity reset or by deleting the account, every group that still has members still has
  an admin, if it had one before, whichever successor the database picks; and the user is in no group any more.\<close>

theorem leaving_keeps_groups_administered:
  assumes "picks pick" "member_inv (group_members db)" "\<forall>g. has_admin g (group_members db)"
    and "apply_reset_recover fk pick (Some u) rb db = Inr (Ok, db') \<or> apply_delete_account fk pick (Some u) b db = Inr (Ok, db')"
  shows "(\<forall>g. has_admin g (group_members db')) \<and> (\<forall>m \<in> set (group_members db'). gm_user_id m \<noteq> u)"
proof -
  let ?ms = "group_members (handoff_group_ownership fk pick u db)"
  have "set (group_members db') = {m \<in> set ?ms. gm_user_id m \<noteq> u}"
    using assms(4) by (auto simp: apply_reset_recover_def apply_delete_account_def delete_user_row_def Let_def bind_res_eq_Inr set_sql_delete
        split: if_splits option.splits)
  moreover have "handed_over u g ?ms" for g using assms by (intro handoff_hands_over_all) simp_all
  ultimately show ?thesis by (auto simp: has_admin_def handed_over_def)
qed

definition demo_group :: main_db where
  "demo_group = demo_main\<lparr>group_members := [\<lparr>gm_group_id = ''g'', gm_user_id = ''u'', gm_role = ''admin''\<rparr>,
     \<lparr>gm_group_id = ''g'', gm_user_id = ''v'', gm_role = ''member''\<rparr>]\<rparr>"

theorem leaving_keeps_groups_administered_witness:
  "\<exists>db'. apply_reset_recover False hd (Some ''u'') \<lparr>rr_current_device_id = None, rr_user_id = None\<rparr> demo_group = Inr (Ok, db')
     \<and> has_admin ''g'' (group_members db') \<and> (\<forall>m \<in> set (group_members db'). gm_user_id m \<noteq> ''u'')"
proof -
  have "\<exists>db'. apply_reset_recover False hd (Some ''u'') \<lparr>rr_current_device_id = None, rr_user_id = None\<rparr> demo_group = Inr (Ok, db')"
    by (simp add: apply_reset_recover_def Let_def)
  moreover have "picks hd" "member_inv (group_members demo_group)" "\<forall>g. has_admin g (group_members demo_group)"
    by (auto simp: picks_def member_inv_def has_admin_def demo_group_def)
  ultimately show ?thesis using leaving_keeps_groups_administered [of hd demo_group False "''u''"] by blast
qed


lemma demo_authenticates: "authenticates demo_lib demo_main ''u'' ''d''"
proof -
  obtain url req where req: "ds_post demo_lib demo_b64 demo_client ''/v1'' [1] 1000 = Inr (url, req)" using demo_post by blast
  have v: "verify_request demo_lib demo_b64 (Some demo_main) (req_headers req) (req_method req) (req_path req) (req_body req) 1000 = Inr ''u''"
    by (rule client_request_verified [OF lib_ok_demo b64_ok_demo req demo_client_simps, of demo_device]) (simp_all add: demo_main_simps)
  then obtain creds where "parse_credentials demo_b64 (req_headers req) 1000 = Inr creds" by (auto simp: verify_request_def bind_res_eq_Inr)
  then obtain dev where "header_str (req_headers req) H_DEVICE = Some dev" by (auto simp: parse_credentials_def split: option.splits)
  with v have "authenticates demo_lib demo_main ''u'' dev" unfolding authenticates_def by blast
  moreover from this have "dev = ''d''" using authenticates_device by (fastforce simp: demo_main_def demo_device_def)
  ultimately show ?thesis by simp
qed


end
