(* ===== verification/Text.thy ===== *)
theory Text
  imports Prelude
begin

text \<open>The string functions of the standard library the sources use, on strings as their UTF-8 bytes: trimming, splitting, prefixes and suffixes, and
  the lower case of ASCII.\<close>

definition unwrap_or :: "'a \<Rightarrow> 'a option \<Rightarrow> 'a" where
  "unwrap_or d v = (case v of None \<Rightarrow> d | Some x \<Rightarrow> x)"

definition ascii_lower :: "string \<Rightarrow> string" where
  "ascii_lower s = map (\<lambda>c. if of_char c \<in> {65..90 :: nat} then char_of (of_char c + 32 :: nat) else c) s"

definition strip_prefix :: "string \<Rightarrow> string \<Rightarrow> string option" where
  "strip_prefix p s = (if take (length p) s = p then Some (drop (length p) s) else None)"

definition ends_with :: "string \<Rightarrow> string \<Rightarrow> bool" where
  "ends_with suf s \<longleftrightarrow> length suf \<le> length s \<and> drop (length s - length suf) s = suf"

section \<open>White space and splitting\<close>

text \<open>\<open>ws_len\<close> is the number of bytes of the white-space character a string starts with, 0 if there is none; \<open>ws_len_rev\<close> the same for a
  reversed string and its end.\<close>

fun ws_len :: "nat list \<Rightarrow> nat" where
  "ws_len (a # b # c # r) =
     (if a \<in> {9, 10, 11, 12, 13, 32} then 1
      else if a = 0xC2 \<and> (b = 0x85 \<or> b = 0xA0) then 2
      else if a = 0xE1 \<and> b = 0x9A \<and> c = 0x80 then 3
      else if a = 0xE2 \<and> b = 0x80 \<and> (0x80 \<le> c \<and> c \<le> 0x8A \<or> c = 0xA8 \<or> c = 0xA9 \<or> c = 0xAF) then 3
      else if a = 0xE2 \<and> b = 0x81 \<and> c = 0x9F then 3
      else if a = 0xE3 \<and> b = 0x80 \<and> c = 0x80 then 3 else 0)"
| "ws_len [a, b] = (if a \<in> {9, 10, 11, 12, 13, 32} then 1 else if a = 0xC2 \<and> (b = 0x85 \<or> b = 0xA0) then 2 else 0)"
| "ws_len [a] = (if a \<in> {9, 10, 11, 12, 13, 32} then 1 else 0)"
| "ws_len [] = 0"

fun ws_len_rev :: "nat list \<Rightarrow> nat" where
  "ws_len_rev (c # b # a # r) = (if ws_len [c] = 1 then 1 else if ws_len [b, c] = 2 then 2 else if ws_len [a, b, c] = 3 then 3 else 0)"
| "ws_len_rev [c, b] = (if ws_len [c] = 1 then 1 else if ws_len [b, c] = 2 then 2 else 0)"
| "ws_len_rev [c] = ws_len [c]"
| "ws_len_rev [] = 0"

definition char_codes :: "string \<Rightarrow> nat list" where "char_codes s = map of_char s"

function trim_by :: "(nat list \<Rightarrow> nat) \<Rightarrow> string \<Rightarrow> string" where
  "trim_by f s = (if f (char_codes s) = 0 \<or> s = [] then s else trim_by f (drop (f (char_codes s)) s))"
  by auto
termination by (relation "measure (\<lambda>(f, s). length s)") auto

declare trim_by.simps [simp del]

definition trim :: "string \<Rightarrow> string" where
  "trim s = rev (trim_by ws_len_rev (rev (trim_by ws_len s)))"

fun split_on :: "char \<Rightarrow> string \<Rightarrow> string list" where
  "split_on sep [] = [[]]"
| "split_on sep (c # s) = (if c = sep then [] # split_on sep s else (c # hd (split_on sep s)) # tl (split_on sep s))"

fun split_once :: "string \<Rightarrow> string \<Rightarrow> (string \<times> string) option" where
  "split_once pat s =
     (case strip_prefix pat s of
        Some rest \<Rightarrow> Some ([], rest)
      | None \<Rightarrow> (case s of [] \<Rightarrow> None | c # r \<Rightarrow> (case split_once pat r of None \<Rightarrow> None | Some (a, b) \<Rightarrow> Some (c # a, b))))"

declare split_once.simps [simp del]

section \<open>Lemmas\<close>

lemma ascii_lower_idem [simp]: "ascii_lower (ascii_lower s) = ascii_lower s"
proof -
  have "of_char (char_of (n + 32 :: nat) :: char) = n + 32" if "n \<in> {65..90}" for n :: nat using that by simp
  then show ?thesis by (auto simp: ascii_lower_def)
qed

lemma strip_prefix_Some: "strip_prefix p s = Some r \<longleftrightarrow> s = p @ r"
proof
  assume "strip_prefix p s = Some r"
  then show "s = p @ r" by (metis append_take_drop_id option.distinct(1) option.inject strip_prefix_def)
qed (simp add: strip_prefix_def)

lemma ascii_lower_append [simp]: "ascii_lower (s @ t) = ascii_lower s @ ascii_lower t"
  by (simp add: ascii_lower_def)

lemma trim_plain: "ws_len (char_codes s) = 0 \<Longrightarrow> ws_len_rev (char_codes (rev s)) = 0 \<Longrightarrow> trim s = s"
  by (simp add: trim_def trim_by.simps)

end
