(* ===== verification/Delivery_Limits.thy ===== *)
theory Delivery_Limits
  imports Delivery_Devices Text "HOL-Library.AList"
begin

text \<open>The per-address rate limit of the delivery service (\<open>ratelimit.rs\<close>): fixed windows in a map, the client address from the headers of the
  reverse proxy, the tier of a request and the middleware in front of every handler. The map is an association list; times are seconds.\<close>

section \<open>Configuration\<close>

record ds_rate_config =
  rc_request_otp_max :: u32
  rc_request_otp_window_secs :: nat
  rc_verify_otp_max :: u32
  rc_verify_otp_window_secs :: nat
  rc_write_max :: u32
  rc_write_window_secs :: nat

definition ds_rate_default :: ds_rate_config where
  "ds_rate_default = \<lparr>rc_request_otp_max = 10, rc_request_otp_window_secs = 600, rc_verify_otp_max = 30, rc_verify_otp_window_secs = 600,
     rc_write_max = 1200, rc_write_window_secs = 60\<rparr>"

text \<open>\<open>env\<close> gives the variables that are set and parse.\<close>

definition ds_rate_from_env :: "(string \<Rightarrow> nat option) \<Rightarrow> ds_rate_config" where
  "ds_rate_from_env env =
     (let d = ds_rate_default in
      \<lparr>rc_request_otp_max = (case env ''RL_REQUEST_OTP_MAX'' of Some v \<Rightarrow> word_of_nat v | None \<Rightarrow> rc_request_otp_max d),
       rc_request_otp_window_secs = unwrap_or (rc_request_otp_window_secs d) (env ''RL_REQUEST_OTP_WINDOW_SECS''),
       rc_verify_otp_max = (case env ''RL_VERIFY_OTP_MAX'' of Some v \<Rightarrow> word_of_nat v | None \<Rightarrow> rc_verify_otp_max d),
       rc_verify_otp_window_secs = unwrap_or (rc_verify_otp_window_secs d) (env ''RL_VERIFY_OTP_WINDOW_SECS''),
       rc_write_max = (case env ''RL_WRITE_MAX'' of Some v \<Rightarrow> word_of_nat v | None \<Rightarrow> rc_write_max d),
       rc_write_window_secs = unwrap_or (rc_write_window_secs d) (env ''RL_WRITE_WINDOW_SECS'')\<rparr>)"

section \<open>Windows\<close>

record rate_window =
  rw_count :: u32
  rw_window_start :: nat

type_synonym rate_store = "(string \<times> rate_window) list"

definition PRUNE_THRESHOLD :: nat where "PRUNE_THRESHOLD = 10000"

datatype rate_outcome = Allowed | Limited

definition saturating_inc :: "u32 \<Rightarrow> u32" where
  "saturating_inc n = (if n = - 1 then n else n + 1)"

definition check_window :: "u32 \<Rightarrow> nat \<Rightarrow> nat \<Rightarrow> rate_window option \<Rightarrow> rate_outcome \<times> rate_window" where
  "check_window mx window_secs now w =
     (let win = unwrap_or \<lparr>rw_count = 0, rw_window_start = now\<rparr> w;
          win = (if now - rw_window_start win \<ge> window_secs then \<lparr>rw_count = 0, rw_window_start = now\<rparr> else win);
          win = win\<lparr>rw_count := saturating_inc (rw_count win)\<rparr>
      in (if rw_count win > mx then Limited else Allowed, win))"

definition check_rate :: "string \<Rightarrow> u32 \<Rightarrow> nat \<Rightarrow> nat \<Rightarrow> rate_store \<Rightarrow> rate_outcome \<times> rate_store" where
  "check_rate key mx window_secs now store =
     (let store = (if length store > PRUNE_THRESHOLD then filter (\<lambda>(_, w). now - rw_window_start w < window_secs) store else store);
          (out, win) = check_window mx window_secs now (map_of store key)
      in (out, AList.update key win store))"

section \<open>The middleware\<close>

definition rl_header_str :: "headers \<Rightarrow> string \<Rightarrow> string option" where
  "rl_header_str hs name =
     (case hs name of Some (Some s) \<Rightarrow> (let t = trim s in if t = [] then None else Some t) | _ \<Rightarrow> None)"

definition client_ip :: "headers \<Rightarrow> string" where
  "client_ip hs =
     (case rl_header_str hs ''cf-connecting-ip'' of
        Some ip \<Rightarrow> ip
      | None \<Rightarrow>
          (case rl_header_str hs ''x-forwarded-for'' of
             Some xff \<Rightarrow> (let first = trim (hd (split_on (CHR '','') xff)) in if first = [] then ''unknown'' else first)
           | None \<Rightarrow> ''unknown''))"

definition classify :: "string \<Rightarrow> string \<Rightarrow> ds_rate_config \<Rightarrow> (string \<times> u32 \<times> nat) option" where
  "classify meth path cfg =
     (if meth \<in> {''GET'', ''HEAD'', ''OPTIONS''} then None
      else if path = ''/v1/auth/request-otp'' then Some (''otp_request'', rc_request_otp_max cfg, rc_request_otp_window_secs cfg)
      else if path \<in> {''/v1/auth/verify-otp'', ''/v1/auth/request-email-change-otp'', ''/v1/auth/verify-email-change''}
      then Some (''otp_verify'', rc_verify_otp_max cfg, rc_verify_otp_window_secs cfg)
      else Some (''write'', rc_write_max cfg, rc_write_window_secs cfg))"

definition too_many_requests :: response where "too_many_requests = (429, ErrorBody ''too many requests'')"

text \<open>\<open>next\<close> is the handler behind the middleware.\<close>

definition rate_limit :: "ds_rate_config \<Rightarrow> (request \<Rightarrow> 's \<Rightarrow> response \<times> 's) \<Rightarrow> nat \<Rightarrow> request \<Rightarrow> rate_store \<times> 's \<Rightarrow> response \<times> rate_store \<times> 's" where
  "rate_limit cfg handler now req = (\<lambda>(store, st).
     case classify (req_method req) (req_path req) cfg of
       None \<Rightarrow> (let (resp, st) = handler req st in (resp, store, st))
     | Some (tier, mx, window) \<Rightarrow>
         (case check_rate (tier @ '':'' @ client_ip (req_headers req)) mx window now store of
            (Limited, store) \<Rightarrow> (too_many_requests, store, st)
          | (Allowed, store) \<Rightarrow> (let (resp, st) = handler req st in (resp, store, st))))"

section \<open>How many requests pass\<close>

text \<open>The outcomes for one key of a run of checks \<open>(key, max, window, now)\<close>, none of which prunes.\<close>

fun run_checks :: "(string \<times> u32 \<times> nat \<times> nat) list \<Rightarrow> rate_store \<Rightarrow> (string \<times> rate_outcome) list \<times> rate_store" where
  "run_checks [] store = ([], store)"
| "run_checks ((key, mx, window, now) # cs) store =
     (let (out, store) = check_rate key mx window now store; (outs, store) = run_checks cs store in ((key, out) # outs, store))"

fun run_window :: "u32 \<Rightarrow> nat \<Rightarrow> nat list \<Rightarrow> rate_window option \<Rightarrow> rate_outcome list" where
  "run_window mx window [] w = []"
| "run_window mx window (now # ts) w = (let (out, w') = check_window mx window now w in out # run_window mx window ts (Some w'))"

lemma saturating_inc_unat: "unat (saturating_inc n) = min (unat n + 1) (2 ^ 32 - 1)"
proof -
  have top: "unat (- 1 :: u32) = 2 ^ 32 - 1" by (simp add: unsigned_minus_1_eq_mask mask_eq_exp_minus_1)
  show ?thesis
  proof (cases "n = - 1")
    case True
    then show ?thesis using top by (simp add: saturating_inc_def)
  next
    case False
    then have "unat n \<noteq> 2 ^ 32 - 1" using top by (metis word_unat_eq_iff)
    moreover have "unat n < 2 ^ 32" using unsigned_less [of n, where 'a = nat] by simp
    ultimately have less: "unat n + 1 < 2 ^ 32" by simp
    then have "unat (n + 1) = unat n + 1" using unat_add_lem [of n 1] by simp
    with False less show ?thesis by (simp add: saturating_inc_def)
  qed
qed

definition is_allowed :: "rate_outcome \<Rightarrow> bool" where "is_allowed out \<longleftrightarrow> out = Allowed"

lemma is_allowed_simps [simp]: "is_allowed Allowed" "\<not> is_allowed Limited" "out \<noteq> Allowed \<Longrightarrow> \<not> is_allowed out"
  by (simp_all add: is_allowed_def)

lemma check_window_same:
  assumes "now - rw_window_start w < window" "check_window mx window now (Some w) = (out, w')"
  shows "rw_window_start w' = rw_window_start w" "unat (rw_count w') = min (unat (rw_count w) + 1) (2 ^ 32 - 1)"
    "out = Allowed \<longleftrightarrow> unat (rw_count w') \<le> unat mx"
proof -
  have w': "w' = w\<lparr>rw_count := saturating_inc (rw_count w)\<rparr>" and out: "out = (if rw_count w' > mx then Limited else Allowed)"
    using assms by (auto simp: check_window_def Let_def unwrap_or_def)
  show "rw_window_start w' = rw_window_start w" using w' by simp
  show "unat (rw_count w') = min (unat (rw_count w) + 1) (2 ^ 32 - 1)" using w' saturating_inc_unat [of "rw_count w"] by simp
  show "out = Allowed \<longleftrightarrow> unat (rw_count w') \<le> unat mx" using out by (auto simp: word_less_nat_alt)
qed

lemma check_window_new:
  assumes "w = None \<or> (\<exists>v. w = Some v \<and> window \<le> now - rw_window_start v)" "check_window mx window now w = (out, w')"
  shows "rw_window_start w' = now" "unat (rw_count w') = 1" "out = Allowed \<longleftrightarrow> unat (rw_count w') \<le> unat mx"
proof -
  have "(if now - rw_window_start (unwrap_or \<lparr>rw_count = 0, rw_window_start = now\<rparr> w) \<ge> window then \<lparr>rw_count = 0, rw_window_start = now\<rparr>
      else unwrap_or \<lparr>rw_count = 0, rw_window_start = now\<rparr> w) = \<lparr>rw_count = 0, rw_window_start = now\<rparr>"
    using assms(1) by (auto simp: unwrap_or_def)
  with assms(2) have w': "w' = \<lparr>rw_count = saturating_inc 0, rw_window_start = now\<rparr>" and out: "out = (if rw_count w' > mx then Limited else Allowed)"
    by (auto simp: check_window_def Let_def)
  show "rw_window_start w' = now" using w' by simp
  show "unat (rw_count w') = 1" using w' saturating_inc_unat [of 0] by simp
  show "out = Allowed \<longleftrightarrow> unat (rw_count w') \<le> unat mx" using out by (auto simp: word_less_nat_alt)
qed

text \<open>Within the window that has started, at most what is left of the budget passes; over a span as long as a window, one budget more.\<close>

lemma run_window_rest:
  assumes "unat mx < 2 ^ 32 - 1" "\<And>t. t \<in> set ts \<Longrightarrow> t - rw_window_start w < window"
  shows "length (filter is_allowed (run_window mx window ts (Some w))) \<le> unat mx - unat (rw_count w)"
  using assms(2)
proof (induction ts arbitrary: w)
  case Nil
  show ?case by simp
next
  case (Cons t ts)
  obtain out w' where c: "check_window mx window t (Some w) = (out, w')" by fastforce
  have w': "rw_window_start w' = rw_window_start w" "unat (rw_count w') = min (unat (rw_count w) + 1) (2 ^ 32 - 1)"
    "out = Allowed \<longleftrightarrow> unat (rw_count w') \<le> unat mx"
    using check_window_same [OF _ c] Cons.prems by simp_all
  have le: "length (filter is_allowed (run_window mx window ts (Some w'))) \<le> unat mx - unat (rw_count w')"
    using Cons.IH [of w'] Cons.prems w'(1) by simp
  show ?case
  proof (cases "out = Allowed")
    case True
    with w'(3) assms(1) have "unat (rw_count w') \<le> unat mx" "unat (rw_count w') < 2 ^ 32 - 1" by simp_all
    with w'(2) have "unat (rw_count w') = unat (rw_count w) + 1" by (simp add: min_def split: if_splits)
    with le True c \<open>unat (rw_count w') \<le> unat mx\<close> show ?thesis by simp
  next
    case False
    with w'(3) le have "length (filter is_allowed (run_window mx window ts (Some w'))) = 0" by simp
    with False c show ?thesis by simp
  qed
qed

lemma run_window_span:
  assumes "unat mx < 2 ^ 32 - 1" "sorted ts" "\<And>t. t \<in> set ts \<Longrightarrow> t0 \<le> t \<and> t < t0 + window"
  shows "length (filter is_allowed (run_window mx window ts w)) \<le> (case w of None \<Rightarrow> 0 | Some v \<Rightarrow> unat mx - unat (rw_count v)) + unat mx"
  using assms(2,3)
proof (induction ts arbitrary: w)
  case Nil
  show ?case by simp
next
  case (Cons t ts)
  obtain out w' where c: "check_window mx window t w = (out, w')" by fastforce
  show ?case
  proof (cases "w = None \<or> (\<exists>v. w = Some v \<and> window \<le> t - rw_window_start v)")
    case True
    have n: "rw_window_start w' = t" "unat (rw_count w') = 1" "out = Allowed \<longleftrightarrow> unat (rw_count w') \<le> unat mx" using check_window_new [OF True c] .
    have "x - rw_window_start w' < window" if "x \<in> set ts" for x
      using Cons.prems(2) [of x] Cons.prems(2) [of t] that n(1) by auto
    then have "length (filter is_allowed (run_window mx window ts (Some w'))) \<le> unat mx - 1"
      using run_window_rest [OF assms(1), of ts w' window] n(2) by simp
    then show ?thesis using c n by (auto split: option.splits)
  next
    case False
    then obtain v where v: "w = Some v" "t - rw_window_start v < window" by (cases w) auto
    have same: "unat (rw_count w') = min (unat (rw_count v) + 1) (2 ^ 32 - 1)" "out = Allowed \<longleftrightarrow> unat (rw_count w') \<le> unat mx"
      using check_window_same [OF v(2)] c v(1) by auto
    have rest: "length (filter is_allowed (run_window mx window ts (Some w'))) \<le> unat mx - unat (rw_count w') + unat mx"
      using Cons.IH [of "Some w'"] Cons.prems by simp
    show ?thesis
    proof (cases "out = Allowed")
      case True
      with same(2) assms(1) have "unat (rw_count w') \<le> unat mx" "unat (rw_count w') < 2 ^ 32 - 1" by simp_all
      with same(1) have "unat (rw_count w') = unat (rw_count v) + 1" by (simp add: min_def split: if_splits)
      with rest True c v \<open>unat (rw_count w') \<le> unat mx\<close> show ?thesis by simp
    next
      case False
      with same(2) rest c v show ?thesis by simp
    qed
  qed
qed

lemma length_update_le: "length (AList.update k v al) \<le> length al + 1"
  by (induction al) auto

lemma run_checks_key:
  assumes "length store + length cs \<le> PRUNE_THRESHOLD" "\<forall>(k, m, w, t) \<in> set cs. k = key \<longrightarrow> m = mx \<and> w = window"
  shows "map snd (filter (\<lambda>(k, _). k = key) (fst (run_checks cs store)))
    = run_window mx window (map (\<lambda>(_, _, _, t). t) (filter (\<lambda>(k, _). k = key) cs)) (map_of store key)"
  using assms
proof (induction cs arbitrary: store)
  case Nil
  show ?case by simp
next
  case (Cons c cs)
  obtain k m w t where c: "c = (k, m, w, t)" by (cases c)
  obtain out win where chk: "check_window m w t (map_of store k) = (out, win)" by fastforce
  let ?store = "AList.update k win store"
  have step: "check_rate k m w t store = (out, ?store)" using Cons.prems(1) chk by (simp add: check_rate_def Let_def)
  obtain outs st where run: "run_checks cs ?store = (outs, st)" by fastforce
  have "length ?store + length cs \<le> PRUNE_THRESHOLD" using Cons.prems(1) length_update_le [of k win store] by simp
  then have IH: "map snd (filter (\<lambda>(k, _). k = key) (fst (run_checks cs ?store)))
      = run_window mx window (map (\<lambda>(_, _, _, t). t) (filter (\<lambda>(k, _). k = key) cs)) (map_of ?store key)"
    using Cons.IH [of ?store] Cons.prems(2) by simp
  show ?case
  proof (cases "k = key")
    case True
    then have "m = mx" "w = window" using Cons.prems(2) c by auto
    with True c step run IH chk show ?thesis by (simp add: update_conv')
  next
    case False
    with c step run IH show ?thesis by (simp add: update_conv')
  qed
qed

text \<open>Pruning looks at the windows of all tiers with the length of the caller's: once the map is large, a request of a tier with a short window
  forgets the counters of a tier with a longer one.\<close>

lemma prune_forgets_other_tiers:
  assumes "length store > PRUNE_THRESHOLD" "distinct (map fst store)" "(k, w) \<in> set store" "k \<noteq> key" "window \<le> now - rw_window_start w"
  shows "map_of (snd (check_rate key mx window now store)) k = None"
proof -
  have "map_of (filter (\<lambda>(_, w). now - rw_window_start w < window) store) k = None"
    using assms(2,3,5) by (auto simp: map_of_eq_None_iff) (metis eq_key_imp_eq_value not_less)
  then show ?thesis using assms(1,4) by (auto simp: check_rate_def Let_def update_conv' split: prod.splits)
qed

text \<open>While the map is small enough not to be pruned, a client address gets at most twice the budget of a tier through in any span as long as the tier's window, and
  at most one budget from its first request on, whatever other requests come in between.\<close>

theorem rate_limit_bounds_requests:
  assumes "length store + length cs \<le> PRUNE_THRESHOLD" "unat mx < 2 ^ 32 - 1"
    and "\<forall>(k, m, w, t) \<in> set cs. k = key \<longrightarrow> m = mx \<and> w = window"
    and "sorted (map (\<lambda>(_, _, _, t). t) cs)" "\<forall>(_, _, _, t) \<in> set cs. since \<le> t \<and> t < since + window"
  shows "length (filter (\<lambda>o'. o' = (key, Allowed)) (fst (run_checks cs store))) \<le> (if map_of store key = None then 1 else 2) * unat mx"
proof -
  let ?ts = "map (\<lambda>(_, _, _, t). t) (filter (\<lambda>(k, _). k = key) cs)"
  have "sorted ?ts" using assms(4) by (induction cs) (auto simp: image_iff)
  moreover have "since \<le> t \<and> t < since + window" if "t \<in> set ?ts" for t using that assms(5) by auto
  ultimately have "length (filter is_allowed (run_window mx window ?ts (map_of store key)))
      \<le> (case map_of store key of None \<Rightarrow> 0 | Some v \<Rightarrow> unat mx - unat (rw_count v)) + unat mx"
    using run_window_span [OF assms(2)] by blast
  moreover have "length (filter (\<lambda>o'. o' = (key, Allowed)) outs) = length (filter is_allowed (map snd (filter (\<lambda>(k, _). k = key) outs)))" for outs
    by (induction outs) (auto simp: is_allowed_def)
  ultimately have "length (filter (\<lambda>o'. o' = (key, Allowed)) (fst (run_checks cs store)))
      \<le> (case map_of store key of None \<Rightarrow> 0 | Some v \<Rightarrow> unat mx - unat (rw_count v)) + unat mx"
    by (simp only: run_checks_key [OF assms(1,3)])
  then show ?thesis by (simp split: option.splits)
qed

theorem rate_limit_bounds_requests_witness:
  "length (filter (\<lambda>o'. o' = (''otp_request:1'', Allowed)) (fst (run_checks (replicate 20 (''otp_request:1'', 10, 600, 5)) []))) \<le> 10"
proof -
  have "length (filter (\<lambda>o'. o' = (''otp_request:1'', Allowed)) (fst (run_checks (replicate 20 (''otp_request:1'', 10, 600, 5)) [])))
      \<le> (if map_of ([] :: rate_store) ''otp_request:1'' = None then 1 else 2) * unat (10 :: u32)"
    by (rule rate_limit_bounds_requests [where window = 600 and since = 0]) (auto simp: PRUNE_THRESHOLD_def)
  then show ?thesis by simp
qed

end
