(* ===== verification/Delivery_Otp.thy ===== *)
theory Delivery_Otp
  imports Delivery_Limits
begin

text \<open>One-time codes of the delivery service: sign-in (\<open>otp.rs\<close>) and change of address (\<open>email_change.rs\<close>). The stores are maps keyed by the
  normalized address; Unicode's lower case, the random code, salt, id and token, and which statements fail are arguments. The body of a mail is reduced to
  its address and code. Times are seconds.\<close>

section \<open>Configuration and store\<close>

record otp_config =
  oc_resend_api_key :: "string option"
  oc_dev_otp :: "string option"
  oc_ttl_secs :: nat
  oc_session_ttl_secs :: nat
  oc_resend_throttle_secs :: nat
  oc_max_attempts :: u32

definition otp_config_default :: otp_config where
  "otp_config_default = \<lparr>oc_resend_api_key = None, oc_dev_otp = None, oc_ttl_secs = 600, oc_session_ttl_secs = 600,
     oc_resend_throttle_secs = 30, oc_max_attempts = 5\<rparr>"

record otp_record =
  or_code_hash :: bytes
  or_salt :: bytes
  or_expires_at :: nat
  or_attempts :: u32
  or_last_sent_at :: nat
  or_locked :: bool

type_synonym otp_store = "string \<rightharpoonup> otp_record"

definition normalize_email :: "(string \<Rightarrow> string) \<Rightarrow> string \<Rightarrow> string" where
  "normalize_email lower email = lower (trim email)"

definition salted_hash :: "lib \<Rightarrow> bytes \<Rightarrow> string \<Rightarrow> bytes" where
  "salted_hash L salt code = sha256 L (salt @ as_bytes (trim code))"

definition constant_time_eq :: "bytes \<Rightarrow> bytes \<Rightarrow> bool" where
  "constant_time_eq a b =
     (if length a \<noteq> length b then False else foldl (\<lambda>diff (x, y). or diff (xor x y)) 0 (zip a b) = 0)"

datatype prepare_outcome = SendCode string | Throttled

datatype verify_outcome = VerifyOk | VerifyInvalid | VerifyLockedOut | VerifyExpired | VerifyNotFound

definition prepare :: "lib \<Rightarrow> (string \<Rightarrow> string) \<Rightarrow> bytes \<Rightarrow> string \<Rightarrow> string \<Rightarrow> nat \<Rightarrow> nat \<Rightarrow> nat \<Rightarrow> otp_store \<Rightarrow> prepare_outcome \<times> otp_store" where
  "prepare L lower salt email code ttl_secs resend_throttle_secs now store =
     (let key = normalize_email lower email;
          throttled = (case store key of
              Some rec \<Rightarrow> \<not> or_locked rec \<and> now < or_expires_at rec \<and> now - or_last_sent_at rec < resend_throttle_secs
            | None \<Rightarrow> False)
      in if throttled then (Throttled, store)
         else (SendCode code, store(key \<mapsto> \<lparr>or_code_hash = salted_hash L salt code, or_salt = salt, or_expires_at = sat_add 64 now ttl_secs,
                 or_attempts = 0, or_last_sent_at = now, or_locked = False\<rparr>)))"

definition check_code :: "lib \<Rightarrow> (string \<Rightarrow> string) \<Rightarrow> string \<Rightarrow> string \<Rightarrow> u32 \<Rightarrow> nat \<Rightarrow> otp_store \<Rightarrow> verify_outcome \<times> otp_store" where
  "check_code L lower email code max_attempts now store =
     (let key = normalize_email lower email in
      case store key of
        None \<Rightarrow> (VerifyNotFound, store)
      | Some rec \<Rightarrow>
          if or_locked rec then (VerifyLockedOut, store)
          else if now > or_expires_at rec then (VerifyExpired, store(key := None))
          else if constant_time_eq (salted_hash L (or_salt rec) code) (or_code_hash rec) then (VerifyOk, store)
          else let rec = rec\<lparr>or_attempts := or_attempts rec + 1\<rparr>
               in if or_attempts rec > max_attempts then (VerifyLockedOut, store(key := None)) else (VerifyInvalid, store(key \<mapsto> rec)))"

definition consume :: "(string \<Rightarrow> string) \<Rightarrow> string \<Rightarrow> otp_store \<Rightarrow> otp_store" where
  "consume lower email store = store(normalize_email lower email := None)"

section \<open>Requesting a code\<close>

text \<open>\<open>random\<close> is the number drawn below a million. The result is the mail that is sent, if any, and the store.\<close>

definition process_request_otp :: "lib \<Rightarrow> (string \<Rightarrow> string) \<Rightarrow> nat \<Rightarrow> bytes \<Rightarrow> otp_config \<Rightarrow> string \<Rightarrow> nat \<Rightarrow> otp_store \<Rightarrow> (string \<times> string) option \<times> otp_store" where
  "process_request_otp L lower random salt cfg email now store =
     (let code = (case oc_dev_otp cfg of Some dev \<Rightarrow> dev | None \<Rightarrow> zero_pad 6 (int random))
      in case prepare L lower salt email code (oc_ttl_secs cfg) (oc_resend_throttle_secs cfg) now store of
           (Throttled, store) \<Rightarrow> (None, store)
         | (SendCode code, store) \<Rightarrow> (if oc_dev_otp cfg = None \<and> oc_resend_api_key cfg \<noteq> None then Some (email, code) else None, store))"

definition request_otp :: "lib \<Rightarrow> (string \<Rightarrow> string) \<Rightarrow> (bytes \<Rightarrow> string option) \<Rightarrow> nat \<Rightarrow> bytes \<Rightarrow> otp_config \<Rightarrow> nat \<Rightarrow> request \<Rightarrow> otp_store \<Rightarrow>
    response \<times> (string \<times> string) option \<times> otp_store" where
  "request_otp L lower from_slice random salt cfg now req store =
     (case from_slice (req_body req) of
        None \<Rightarrow> (bad_request ''invalid body'', None, store)
      | Some email \<Rightarrow>
          let email = trim email
          in if email = [] then ((200, StatusOk), None, store)
             else ((200, StatusOk), process_request_otp L lower random salt cfg email now store))"

section \<open>Signing in with a code\<close>

record verify_otp_body =
  vo_email :: string
  vo_code :: string
  vo_device_id :: string

datatype verify_otp_result = OtpOk string string bool bool string nat | OtpInvalidCode | OtpLockedOut

text \<open>What signing in takes from outside: a fresh user id, the 32 random bytes of the token, and whether the \<open>SELECT\<close> and the \<open>INSERT\<close>
  can be run.\<close>

record otp_env =
  oe_user_id :: string
  oe_token :: bytes
  oe_select_ok :: bool
  oe_insert_ok :: bool

definition split_email :: "string \<Rightarrow> string" where
  "split_email email = hd (split_on (CHR ''@'') email)"

definition insert_user :: "string \<Rightarrow> string \<Rightarrow> string \<Rightarrow> main_db \<Rightarrow> db_error + main_db" where
  "insert_user user_id email username db =
     (if list_ex (\<lambda>u. u_id u = user_id \<or> u_email u = email \<or> u_username u = username) (users db) then Inl StatementFailed
      else Inr (db\<lparr>users := users db @ [\<lparr>u_id = user_id, u_email = email, u_username = username, u_preferred_name = None, u_phone = None, u_avatar_url = None,
             u_account_id_pub = None, u_identity_version = 1\<rparr>]\<rparr>))"

text \<open>Creating or loading the account: user id, name, whether it has an identity, whether it is new.\<close>

definition load_account :: "otp_env \<Rightarrow> string \<Rightarrow> main_db \<Rightarrow> db_error + (string \<times> string \<times> bool \<times> bool) \<times> main_db" where
  "load_account env email db =
     (if \<not> oe_select_ok env then Inl StatementFailed
      else case first_row (\<lambda>u. u_email u = email) (users db) of
        Some u \<Rightarrow> Inr ((u_id u, u_username u, u_account_id_pub u \<noteq> None, False), db)
      | None \<Rightarrow>
          let user_id = oe_user_id env;
              username = split_email email @ ''_'' @ drop (length user_id - 4) user_id
          in if \<not> oe_insert_ok env then Inl StatementFailed
             else bind_res (insert_user user_id email username db) (\<lambda>db. Inr ((user_id, username, False, True), db)))"

text \<open>Two readings of the clock: before the check and before minting. A release build wraps the addition in the reply.\<close>

definition apply_verify_otp :: "lib \<Rightarrow> (string \<Rightarrow> string) \<Rightarrow> otp_env \<Rightarrow> otp_config \<Rightarrow> string \<Rightarrow> string \<Rightarrow> string \<Rightarrow> nat \<Rightarrow> nat \<Rightarrow> main_db \<times> otp_store \<times> session_store \<Rightarrow>
    (db_error + verify_otp_result) \<times> main_db \<times> otp_store \<times> session_store" where
  "apply_verify_otp L lower env cfg email code device_id now1 now2 = (\<lambda>(db, otp, sessions).
     case check_code L lower email code (oc_max_attempts cfg) now1 otp of
       (VerifyOk, otp) \<Rightarrow>
         (case load_account env email db of
            Inl err \<Rightarrow> (Inl err, db, otp, sessions)
          | Inr ((user_id, username, has_identity, is_new), db) \<Rightarrow>
              let (token, sessions) = mint L (oe_token env) user_id email device_id (oc_session_ttl_secs cfg) now2 sessions
              in (Inr (OtpOk user_id username is_new has_identity token ((now2 + oc_session_ttl_secs cfg) mod 2 ^ 64)), db, consume lower email otp, sessions))
     | (VerifyLockedOut, otp) \<Rightarrow> (Inr OtpLockedOut, db, otp, sessions)
     | (_, otp) \<Rightarrow> (Inr OtpInvalidCode, db, otp, sessions))"

fun verify_otp_response :: "verify_otp_result \<Rightarrow> response" where
  "verify_otp_response (OtpOk user_id username is_new has_identity token expires_at) = (200, VerifyOtpReply user_id username is_new has_identity token expires_at)"
| "verify_otp_response OtpLockedOut = (429, ErrorBody ''too many attempts'')"
| "verify_otp_response OtpInvalidCode = (401, ErrorBody ''invalid code'')"

definition verify_otp :: "lib \<Rightarrow> (string \<Rightarrow> string) \<Rightarrow> (bytes \<Rightarrow> verify_otp_body option) \<Rightarrow> otp_env \<Rightarrow> otp_config \<Rightarrow> nat \<Rightarrow> nat \<Rightarrow> request \<Rightarrow> main_db \<times> otp_store \<times> session_store \<Rightarrow>
    response \<times> main_db \<times> otp_store \<times> session_store" where
  "verify_otp L lower from_slice env cfg now1 now2 req st =
     (case from_slice (req_body req) of
        None \<Rightarrow> (bad_request ''invalid body'', st)
      | Some body \<Rightarrow>
          let email = trim (vo_email body); device_id = trim (vo_device_id body)
          in if email = [] \<or> device_id = [] then (bad_request ''email and device_id required'', st)
             else (case apply_verify_otp L lower env cfg email (vo_code body) device_id now1 now2 st of
                (Inr result, st) \<Rightarrow> (verify_otp_response result, st)
              | (Inl err, st) \<Rightarrow> (app_error, st)))"

section \<open>Change of address\<close>

record email_change_store =
  ec_otp :: otp_store
  ec_requesters :: "string \<rightharpoonup> string"

definition email_change_request :: "lib \<Rightarrow> (string \<Rightarrow> string) \<Rightarrow> nat \<Rightarrow> bytes \<Rightarrow> otp_config \<Rightarrow> string \<Rightarrow> string \<Rightarrow> nat \<Rightarrow> email_change_store \<Rightarrow>
    (string \<times> string) option \<times> email_change_store" where
  "email_change_request L lower random salt cfg requester new_email now store =
     (let store = store\<lparr>ec_requesters := (ec_requesters store)(normalize_email lower new_email \<mapsto> requester)\<rparr>;
          (mail, otp) = process_request_otp L lower random salt cfg new_email now (ec_otp store)
      in (mail, store\<lparr>ec_otp := otp\<rparr>))"

definition email_change_clear :: "(string \<Rightarrow> string) \<Rightarrow> string \<Rightarrow> email_change_store \<Rightarrow> email_change_store" where
  "email_change_clear lower new_email store = store\<lparr>ec_requesters := (ec_requesters store)(normalize_email lower new_email := None)\<rparr>"

datatype email_change_outcome = EcUpdated | EcInvalidCode | EcLockedOut | EcMismatch | EcEmailTaken

text \<open>\<open>UPDATE users SET email\<close>, refused by the unique index if another row has the address.\<close>

definition update_email :: "string \<Rightarrow> string \<Rightarrow> main_db \<Rightarrow> db_error + main_db" where
  "update_email user email db =
     (if list_ex (\<lambda>u. u_id u = user) (users db) \<and> list_ex (\<lambda>u. u_email u = email \<and> u_id u \<noteq> user) (users db) then Inl StatementFailed
      else Inr (db\<lparr>users := sql_update (\<lambda>u. u_id u = user) (\<lambda>u. u\<lparr>u_email := email\<rparr>) (users db)\<rparr>))"

definition apply_verify_email_change :: "lib \<Rightarrow> (string \<Rightarrow> string) \<Rightarrow> otp_config \<Rightarrow> bool \<Rightarrow> bool \<Rightarrow> string \<Rightarrow> string \<Rightarrow> string \<Rightarrow> nat \<Rightarrow>
    main_db \<times> email_change_store \<Rightarrow> (db_error + email_change_outcome) \<times> main_db \<times> email_change_store" where
  "apply_verify_email_change L lower cfg select_ok update_ok authed new_email code now = (\<lambda>(db, store).
     let trimmed = trim new_email in
     if ec_requesters store (normalize_email lower trimmed) \<noteq> Some authed then (Inr EcMismatch, db, store)
     else case check_code L lower trimmed code (oc_max_attempts cfg) now (ec_otp store) of
       (VerifyOk, otp) \<Rightarrow>
         let store = store\<lparr>ec_otp := otp\<rparr>; done_store = email_change_clear lower trimmed (store\<lparr>ec_otp := consume lower trimmed otp\<rparr>) in
         if \<not> select_ok then (Inl StatementFailed, db, store)
         else if list_ex (\<lambda>u. u_email u = trimmed \<and> u_id u \<noteq> authed) (users db) then (Inr EcEmailTaken, db, done_store)
         else if \<not> update_ok then (Inl StatementFailed, db, store)
         else (case update_email authed trimmed db of
             Inl err \<Rightarrow> (Inl err, db, store)
           | Inr db \<Rightarrow> (Inr EcUpdated, db, done_store))
     | (VerifyLockedOut, otp) \<Rightarrow> (Inr EcLockedOut, db, email_change_clear lower trimmed (store\<lparr>ec_otp := otp\<rparr>))
     | (_, otp) \<Rightarrow> (Inr EcInvalidCode, db, store\<lparr>ec_otp := otp\<rparr>))"

fun email_change_response :: "email_change_outcome \<Rightarrow> response" where
  "email_change_response EcUpdated = (200, StatusOk)"
| "email_change_response EcInvalidCode = (401, ErrorBody ''invalid code'')"
| "email_change_response EcLockedOut = (429, ErrorBody ''too many attempts'')"
| "email_change_response EcMismatch = into_response Forbidden"
| "email_change_response EcEmailTaken = (409, ErrorBody ''email already in use'')"

text \<open>The two handlers: both need a signed request, even when authentication is off.\<close>

definition request_email_change_otp :: "lib \<Rightarrow> b64 \<Rightarrow> (string \<Rightarrow> string) \<Rightarrow> (bytes \<Rightarrow> string option) \<Rightarrow> nat \<Rightarrow> bytes \<Rightarrow> otp_config \<Rightarrow> i64 \<Rightarrow> bool \<Rightarrow> request \<Rightarrow>
    main_db \<times> email_change_store \<Rightarrow> response \<times> (string \<times> string) option \<times> main_db \<times> email_change_store" where
  "request_email_change_otp L E lower from_slice random salt cfg now require_auth req = (\<lambda>(db, store).
     case gate L E require_auth now db req of
       Inl rej \<Rightarrow> (into_response rej, None, db, store)
     | Inr None \<Rightarrow> (into_response Unauthorized, None, db, store)
     | Inr (Some requester) \<Rightarrow>
         (case from_slice (req_body req) of
            None \<Rightarrow> (bad_request ''invalid body'', None, db, store)
          | Some new_email \<Rightarrow>
              let new_email = trim new_email
              in if new_email = [] then ((200, StatusOk), None, db, store)
                 else let (mail, store) = email_change_request L lower random salt cfg requester new_email (nat now) store
                      in ((200, StatusOk), mail, db, store)))"

definition verify_email_change :: "lib \<Rightarrow> b64 \<Rightarrow> (string \<Rightarrow> string) \<Rightarrow> (bytes \<Rightarrow> (string \<times> string) option) \<Rightarrow> otp_config \<Rightarrow> bool \<Rightarrow> bool \<Rightarrow> i64 \<Rightarrow> bool \<Rightarrow> request \<Rightarrow>
    main_db \<times> email_change_store \<Rightarrow> response \<times> main_db \<times> email_change_store" where
  "verify_email_change L E lower from_slice cfg select_ok update_ok now require_auth req = (\<lambda>(db, store).
     case gate L E require_auth now db req of
       Inl rej \<Rightarrow> (into_response rej, db, store)
     | Inr None \<Rightarrow> (into_response Unauthorized, db, store)
     | Inr (Some authed) \<Rightarrow>
         (case from_slice (req_body req) of
            None \<Rightarrow> (bad_request ''invalid body'', db, store)
          | Some (new_email, code) \<Rightarrow>
              (case apply_verify_email_change L lower cfg select_ok update_ok authed new_email code (nat now) (db, store) of
                 (Inr out, st) \<Rightarrow> (email_change_response out, st)
               | (Inl err, st) \<Rightarrow> (app_error, st))))"

section \<open>Comparing and guessing\<close>

lemma foldl_diff:
  "length a = length b \<Longrightarrow> foldl (\<lambda>diff (x, y). or diff (xor x y)) d (zip a b) = 0 \<longleftrightarrow> d = 0 \<and> a = (b :: bytes)"
proof (induction a b arbitrary: d rule: list_induct2)
  case (Cons x xs y ys)
  have "xor x y = 0 \<longleftrightarrow> x = y" by (auto simp: bit_eq_iff bit_xor_iff)
  then have "or d (xor x y) = 0 \<longleftrightarrow> d = 0 \<and> x = y" by (simp add: or_eq_0_iff)
  with Cons.IH show ?case by simp
qed simp

lemma constant_time_eq_iff [simp]: "constant_time_eq a b \<longleftrightarrow> a = b"
  using foldl_diff [of a b 0] by (auto simp: constant_time_eq_def)

text \<open>A run of guesses \<open>(address, code, time)\<close>.\<close>

fun run_guesses :: "lib \<Rightarrow> (string \<Rightarrow> string) \<Rightarrow> u32 \<Rightarrow> (string \<times> string \<times> nat) list \<Rightarrow> otp_store \<Rightarrow> (string \<times> verify_outcome) list \<times> otp_store" where
  "run_guesses L lower mx [] store = ([], store)"
| "run_guesses L lower mx ((email, code, now) # gs) store =
     (let (out, store) = check_code L lower email code mx now store; (outs, store) = run_guesses L lower mx gs store in ((email, out) # outs, store))"

definition guesses_left :: "u32 \<Rightarrow> string \<Rightarrow> otp_store \<Rightarrow> nat" where
  "guesses_left mx key store = (case store key of None \<Rightarrow> 0 | Some rec \<Rightarrow> unat mx - unat (or_attempts rec))"

definition attempts_ok :: "u32 \<Rightarrow> string \<Rightarrow> otp_store \<Rightarrow> bool" where
  "attempts_ok mx key store \<longleftrightarrow> (case store key of None \<Rightarrow> True | Some rec \<Rightarrow> or_attempts rec \<le> mx)"

lemma next_attempt:
  assumes "a \<le> mx" "mx \<noteq> (- 1 :: u32)"
  shows "unat (a + 1) = unat a + 1"
proof -
  have "mx < - 1" using assms(2) by (simp add: word_order.not_eq_extremum)
  then have "unat a < unat (- 1 :: u32)" using assms(1) by (metis order_le_less_trans word_less_nat_alt)
  then have "unat a + unat (1 :: u32) < 2 ^ LENGTH(32)" by (simp add: unsigned_minus_1_eq_mask mask_eq_exp_minus_1)
  then show ?thesis using unat_add_lem [of a 1] by simp
qed

lemma check_code_step:
  assumes "attempts_ok mx key store" "mx \<noteq> - 1" "check_code L lower email code mx now store = (out, store')"
  shows "attempts_ok mx key store'"
    "guesses_left mx key store' + (if normalize_email lower email = key \<and> out = VerifyInvalid then 1 else 0) \<le> guesses_left mx key store"
    "store key = None \<Longrightarrow> store' key = None"
proof -
  have step: "unat (or_attempts rec + 1) = unat (or_attempts rec) + 1" if "store key = Some rec" for rec
    using next_attempt [of "or_attempts rec" mx] assms(1,2) that by (simp add: attempts_ok_def)
  show "attempts_ok mx key store'"
    using assms by (auto simp: check_code_def Let_def attempts_ok_def split: option.splits if_splits)
  show "guesses_left mx key store' + (if normalize_email lower email = key \<and> out = VerifyInvalid then 1 else 0) \<le> guesses_left mx key store"
    using assms step by (auto simp: check_code_def Let_def guesses_left_def attempts_ok_def word_less_nat_alt word_le_nat_alt split: option.splits if_splits)
  show "store key = None \<Longrightarrow> store' key = None"
    using assms(3) by (auto simp: check_code_def Let_def split: option.splits if_splits)
qed

lemma run_guesses_bound:
  assumes "attempts_ok mx key store" "mx \<noteq> - 1" "run_guesses L lower mx gs store = (outs, store')"
  shows "length (filter (\<lambda>(e, out). normalize_email lower e = key \<and> out = VerifyInvalid) outs) + guesses_left mx key store' \<le> guesses_left mx key store"
  using assms
proof (induction gs arbitrary: store outs)
  case Nil
  then show ?case by simp
next
  case (Cons g gs)
  obtain email code now where g: "g = (email, code, now)" by (cases g)
  obtain out store1 where c: "check_code L lower email code mx now store = (out, store1)" by fastforce
  obtain outs1 where r: "run_guesses L lower mx gs store1 = (outs1, store')" "outs = (email, out) # outs1"
    using Cons.prems(3) g c by (auto split: prod.splits)
  note step = check_code_step [OF Cons.prems(1,2) c]
  show ?case using Cons.IH [OF step(1) Cons.prems(2) r(1)] step(2) r(2) by auto
qed

lemma run_guesses_gone:
  assumes "store key = None" "run_guesses L lower mx gs store = (outs, store')"
  shows "store' key = None \<and> (\<forall>(e, out) \<in> set outs. normalize_email lower e = key \<longrightarrow> out = VerifyNotFound)"
  using assms
proof (induction gs arbitrary: store outs)
  case Nil
  then show ?case by simp
next
  case (Cons g gs)
  obtain email code now where g: "g = (email, code, now)" by (cases g)
  obtain out store1 where c: "check_code L lower email code mx now store = (out, store1)" by fastforce
  obtain outs1 where r: "run_guesses L lower mx gs store1 = (outs1, store')" "outs = (email, out) # outs1"
    using Cons.prems(2) g c by (auto split: prod.splits)
  have "store1 key = None" "normalize_email lower email = key \<Longrightarrow> out = VerifyNotFound"
    using c Cons.prems(1) by (auto simp: check_code_def Let_def split: option.splits if_splits)
  with Cons.IH [OF _ r(1)] r(2) show ?case by auto
qed

text \<open>A lockout deletes the record and with it the time of the last mail: the next code is sent at once, whatever the throttle.\<close>

lemma lockout_skips_throttle:
  assumes "check_code L lower email code mx now store = (VerifyLockedOut, store')" "\<And>rec. store (normalize_email lower email) = Some rec \<Longrightarrow> \<not> or_locked rec"
  shows "fst (prepare L lower salt email code' ttl throttle now store') = SendCode code'"
  using assms by (auto simp: check_code_def prepare_def Let_def split: option.splits if_splits)

section \<open>Properties\<close>

text \<open>C23. A code cannot be guessed at will: after a code was sent, and until the next one is, at most \<open>max_attempts\<close> wrong guesses for its address are answered as merely
  wrong, in whatever order guesses for this and other addresses arrive; after one more the code is gone, and no guess, right or wrong, is accepted.\<close>

theorem otp_guesses_bounded:
  assumes "prepare L lower salt email code ttl throttle now store = (SendCode code, store1)" "mx \<noteq> - 1"
    and "run_guesses L lower mx gs store1 = (outs, store2)"
  shows "length (filter (\<lambda>(e, out). normalize_email lower e = normalize_email lower email \<and> out = VerifyInvalid) outs) \<le> unat mx
    \<and> (check_code L lower email guess mx t store2 = (VerifyLockedOut, store3) \<longrightarrow> run_guesses L lower mx gs' store3 = (outs', store4) \<longrightarrow>
        (\<forall>(e, out) \<in> set outs'. normalize_email lower e = normalize_email lower email \<longrightarrow> out = VerifyNotFound))"
proof -
  let ?key = "normalize_email lower email"
  have fresh: "attempts_ok mx ?key store1" "guesses_left mx ?key store1 \<le> unat mx" "\<And>rec. store1 ?key = Some rec \<Longrightarrow> \<not> or_locked rec"
    using assms(1) by (auto simp: prepare_def Let_def attempts_ok_def guesses_left_def split: if_splits option.splits)
  have "(\<forall>rec. store2 ?key = Some rec \<longrightarrow> \<not> or_locked rec)" using assms(3) fresh(3)
  proof (induction gs arbitrary: store1 outs)
    case (Cons g gs)
    obtain e c t where g: "g = (e, c, t)" by (cases g)
    obtain out st where chk: "check_code L lower e c mx t store1 = (out, st)" by fastforce
    obtain outs1 where "run_guesses L lower mx gs st = (outs1, store2)" using Cons.prems(1) g chk by (auto split: prod.splits)
    moreover have "\<not> or_locked rec" if "st ?key = Some rec" for rec
      using that chk Cons.prems(2) by (auto simp: check_code_def Let_def split: option.splits if_splits)
    ultimately show ?case using Cons.IH by blast
  qed auto
  then have "store3 ?key = None" if "check_code L lower email guess mx t store2 = (VerifyLockedOut, store3)"
    using that by (auto simp: check_code_def Let_def split: option.splits if_splits)
  then show ?thesis using run_guesses_bound [OF fresh(1) assms(2,3)] fresh(2) run_guesses_gone [of store3 ?key] by fastforce
qed

theorem otp_guesses_bounded_witness:
  "case prepare demo_lib id [1] ''a@x'' ''123456'' 600 30 1000 Map.empty of (out, s1) \<Rightarrow>
     case run_guesses demo_lib id 1 [(''a@x'', ''0'', 1001), (''a@x'', ''1'', 1002), (''a@x'', ''2'', 1003)] s1 of (outs, s2) \<Rightarrow>
       out = SendCode ''123456'' \<and> length (filter (\<lambda>(e, out). normalize_email id e = normalize_email id ''a@x'' \<and> out = VerifyInvalid) outs) \<le> unat (1 :: u32)"
proof -
  obtain s1 where p: "prepare demo_lib id [1] ''a@x'' ''123456'' 600 30 1000 Map.empty = (SendCode ''123456'', s1)"
    by (simp add: prepare_def)
  obtain outs s2 where r: "run_guesses demo_lib id 1 [(''a@x'', ''0'', 1001), (''a@x'', ''1'', 1002), (''a@x'', ''2'', 1003)] s1 = (outs, s2)"
    by (rule prod.exhaust)
  have "(1 :: u32) \<noteq> - 1" by simp
  from otp_guesses_bounded [OF p this r] show ?thesis unfolding p r prod.case by blast
qed

text \<open>Signing in with a code: an account and a session are created only for an unexpired code that matches the stored hash, and the code is then gone, while a session for that
  address and device exists; a wrong, unknown, expired or locked code leaves the accounts and sessions alone; and when the database fails, nothing changes, so that the same
  code works again.\<close>

theorem verify_otp_contract:
  assumes "apply_verify_otp L lower env cfg email code device_id now1 now2 (db, otp, sessions) = (res, db', otp', sessions')"
  shows "case res of
      Inr (OtpOk user_id username is_new has_identity token expires_at) \<Rightarrow>
        (\<exists>rec. otp (normalize_email lower email) = Some rec \<and> salted_hash L (or_salt rec) code = or_code_hash rec \<and> now1 \<le> or_expires_at rec)
        \<and> otp' = otp(normalize_email lower email := None)
        \<and> (\<exists>u \<in> set (users db'). u_id u = user_id \<and> u_email u = email \<and> has_identity = (u_account_id_pub u \<noteq> None))
        \<and> (if is_new then \<forall>u \<in> set (users db). u_email u \<noteq> email \<and> u_id u \<noteq> user_id else db' = db)
        \<and> (now2 < 2 ^ 64 \<longrightarrow> fst (resolve L token now2 sessions') = Some \<lparr>sc_user_id = user_id, sc_email = email, sc_device_id = device_id\<rparr>)
    | Inr _ \<Rightarrow> db' = db \<and> sessions' = sessions
    | Inl _ \<Rightarrow> db' = db \<and> sessions' = sessions \<and> otp' = otp"
proof -
  obtain out otp1 where c: "check_code L lower email code (oc_max_attempts cfg) now1 otp = (out, otp1)" by fastforce
  show ?thesis
  proof (cases "out = VerifyOk")
    case False
    then show ?thesis using assms c by (cases out) (auto simp: apply_verify_otp_def)
  next
    case True
    then have chk: "otp1 = otp" "\<exists>rec. otp (normalize_email lower email) = Some rec \<and> salted_hash L (or_salt rec) code = or_code_hash rec \<and> now1 \<le> or_expires_at rec"
      using c by (auto simp: check_code_def Let_def split: option.splits if_splits)
    show ?thesis
    proof (cases "load_account env email db")
      case (Inl err)
      then show ?thesis using assms c True chk(1) by (auto simp: apply_verify_otp_def)
    next
      case (Inr x)
      obtain user_id username has_identity is_new db1 where x: "x = ((user_id, username, has_identity, is_new), db1)" by (metis prod.exhaust)
      have acc: "(\<exists>u \<in> set (users db1). u_id u = user_id \<and> u_email u = email \<and> has_identity = (u_account_id_pub u \<noteq> None))
          \<and> (if is_new then \<forall>u \<in> set (users db). u_email u \<noteq> email \<and> u_id u \<noteq> user_id else db1 = db)"
        using Inr x by (auto simp: load_account_def Let_def insert_user_def bind_res_eq_Inr first_row_def find_Some_iff find_None_iff list_ex_iff
            split: if_splits option.splits)
      have "fst (resolve L (fst (mint L (oe_token env) user_id email device_id (oc_session_ttl_secs cfg) now2 sessions)) now2
          (snd (mint L (oe_token env) user_id email device_id (oc_session_ttl_secs cfg) now2 sessions)))
          = Some \<lparr>sc_user_id = user_id, sc_email = email, sc_device_id = device_id\<rparr>" if "now2 < 2 ^ 64"
        using that by (simp add: mint_def resolve_def Let_def sat_add_def)
      moreover obtain token ss where m: "mint L (oe_token env) user_id email device_id (oc_session_ttl_secs cfg) now2 sessions = (token, ss)" by (rule prod.exhaust)
      moreover have "res = Inr (OtpOk user_id username is_new has_identity token ((now2 + oc_session_ttl_secs cfg) mod 2 ^ 64))" "db' = db1"
          "otp' = otp(normalize_email lower email := None)" "sessions' = ss"
        using assms c True chk(1) Inr x m by (auto simp: apply_verify_otp_def consume_def)
      ultimately show ?thesis using chk(2) acc by simp
    qed
  qed
qed

lemma check_own_code:
  assumes "prepare L lower salt email code ttl throttle now store = (SendCode code, store1)" "t \<le> sat_add 64 now ttl"
  shows "check_code L lower email code mx t store1 = (VerifyOk, store1)"
  using assms by (auto simp: prepare_def check_code_def Let_def constant_time_eq_iff split: if_splits option.splits)

definition demo_otp_env :: otp_env where
  "demo_otp_env = \<lparr>oe_user_id = ''0123456789'', oe_token = [1, 2, 3], oe_select_ok = True, oe_insert_ok = True\<rparr>"

theorem verify_otp_contract_witness:
  "case prepare demo_lib id [1] ''a@x'' ''123456'' 600 30 1000 Map.empty of (out, s1) \<Rightarrow>
     case apply_verify_otp demo_lib id demo_otp_env otp_config_default ''a@x'' ''123456'' ''dev'' 1010 1011 (demo_main, s1, Map.empty) of (res, db, otp, sessions) \<Rightarrow>
       (\<exists>username expires. res = Inr (OtpOk ''0123456789'' username True False (hex_lower [1, 2, 3]) expires))
       \<and> (\<exists>u \<in> set (users db). u_id u = ''0123456789'' \<and> u_email u = ''a@x'')
       \<and> fst (resolve demo_lib (hex_lower [1, 2, 3]) 1011 sessions) = Some \<lparr>sc_user_id = ''0123456789'', sc_email = ''a@x'', sc_device_id = ''dev''\<rparr>"
proof -
  obtain s1 where p: "prepare demo_lib id [1] ''a@x'' ''123456'' 600 30 1000 Map.empty = (SendCode ''123456'', s1)"
    by (simp add: prepare_def)
  obtain res db otp sessions where r:
    "apply_verify_otp demo_lib id demo_otp_env otp_config_default ''a@x'' ''123456'' ''dev'' 1010 1011 (demo_main, s1, Map.empty) = (res, db, otp, sessions)"
    by (metis prod.exhaust)
  have "check_code demo_lib id ''a@x'' ''123456'' (oc_max_attempts otp_config_default) 1010 s1 = (VerifyOk, s1)"
    by (rule check_own_code [OF p]) (simp add: sat_add_def)
  then obtain username expires where "res = Inr (OtpOk ''0123456789'' username True False (hex_lower [1, 2, 3]) expires)"
    using r by (auto simp: apply_verify_otp_def load_account_def demo_otp_env_def demo_main_def demo_user_def first_row_def insert_user_def mint_def Let_def)
  then show ?thesis using verify_otp_contract [OF r] unfolding p r prod.case by auto
qed

text \<open>An address changes hands only for the caller who asked: the e-mail column is written only for the signed caller, only after the very caller (the last to ask for that
  address) gave the code that was sent to it, and only if no other account has it; code and request are then spent. Every other answer leaves the accounts alone.\<close>

theorem email_change_bound_to_requester:
  assumes "apply_verify_email_change L lower cfg select_ok update_ok authed new_email code now (db, store) = (res, db', store')"
  shows "if res = Inr EcUpdated
    then (let key = normalize_email lower (trim new_email) in
        ec_requesters store key = Some authed
        \<and> (\<exists>rec. ec_otp store key = Some rec \<and> salted_hash L (or_salt rec) code = or_code_hash rec \<and> now \<le> or_expires_at rec)
        \<and> (\<forall>u \<in> set (users db). u_email u = trim new_email \<longrightarrow> u_id u = authed)
        \<and> db' = db\<lparr>users := sql_update (\<lambda>u. u_id u = authed) (\<lambda>u. u\<lparr>u_email := trim new_email\<rparr>) (users db)\<rparr>
        \<and> ec_requesters store' key = None \<and> ec_otp store' key = None)
    else db' = db"
proof (cases "ec_requesters store (normalize_email lower (trim new_email)) = Some authed")
  case False
  then show ?thesis using assms by (auto simp: apply_verify_email_change_def)
next
  case True
  obtain out otp1 where c: "check_code L lower (trim new_email) code (oc_max_attempts cfg) now (ec_otp store) = (out, otp1)" by (rule prod.exhaust)
  show ?thesis
  proof (cases "out = VerifyOk")
    case False
    then show ?thesis using assms c by (cases out) (auto simp: apply_verify_email_change_def Let_def split: if_splits)
  next
    case ok: True
    then have "otp1 = ec_otp store"
        "\<exists>rec. ec_otp store (normalize_email lower (trim new_email)) = Some rec \<and> salted_hash L (or_salt rec) code = or_code_hash rec \<and> now \<le> or_expires_at rec"
      using c by (auto simp: check_code_def Let_def constant_time_eq_iff split: option.splits if_splits)
    then show ?thesis using assms c ok True
      by (auto simp: apply_verify_email_change_def Let_def update_email_def email_change_clear_def consume_def list_ex_iff split: if_splits)
  qed
qed

theorem email_change_bound_to_requester_witness:
  "case email_change_request demo_lib id 42 [1] otp_config_default ''u'' ''n@x'' 1000 \<lparr>ec_otp = Map.empty, ec_requesters = Map.empty\<rparr> of (mail, store) \<Rightarrow>
     case apply_verify_email_change demo_lib id otp_config_default True True ''v'' ''n@x'' ''000042'' 1010 (demo_main, store) of (res, db, store') \<Rightarrow>
       res = Inr EcMismatch \<and> db = demo_main"
proof -
  obtain mail store where q: "email_change_request demo_lib id 42 [1] otp_config_default ''u'' ''n@x'' 1000 \<lparr>ec_otp = Map.empty, ec_requesters = Map.empty\<rparr> = (mail, store)"
    by (rule prod.exhaust)
  obtain res db store' where r: "apply_verify_email_change demo_lib id otp_config_default True True ''v'' ''n@x'' ''000042'' 1010 (demo_main, store) = (res, db, store')"
    by (metis prod.exhaust)
  have t: "trim ''n@x'' = ''n@x''" by (rule trim_plain) code_simp+
  have "ec_requesters store (normalize_email id ''n@x'') = Some ''u''"
    using q by (auto simp: email_change_request_def Let_def normalize_email_def split: prod.splits)
  then have "res = Inr EcMismatch" using r by (simp add: apply_verify_email_change_def t)
  then show ?thesis using email_change_bound_to_requester [OF r] unfolding q r prod.case by simp
qed

end
