(* ===== verification/Device_Cert.thy ===== *)
theory Device_Cert
  imports Vlog_Log
begin

text \<open>Device certificates: the shared crate (\<open>pollis-device-cert\<close>), which the client and the relay use, and its port in the
  delivery service (\<open>cert.rs\<close>). The text of the signature crate's own error inside \<open>BadAccountKey\<close> is left out.\<close>

section \<open>The shared crate\<close>

definition DEVICE_CERT_DOMAIN :: bytes where
  "DEVICE_CERT_DOMAIN = as_bytes ''pollis-device-cert-v1'' @ [0]"

datatype device_cert_error =
    FieldTooLong string nat
  | BadAccountKeyLen nat
  | BadCertLen nat
  | BadAccountKey
  | SignatureInvalid

definition device_cert_signed_payload :: "string \<Rightarrow> bytes \<Rightarrow> u32 \<Rightarrow> u64 \<Rightarrow> device_cert_error + bytes" where
  "device_cert_signed_payload device_id mls_signature_pub identity_version issued_at =
     (if length device_id > 255 then Inl (FieldTooLong ''device_id'' (length device_id))
      else if length mls_signature_pub > 255 then Inl (FieldTooLong ''mls_signature_pub'' (length mls_signature_pub))
      else Inr (DEVICE_CERT_DOMAIN @ [word_of_nat (length device_id)] @ as_bytes device_id
        @ [word_of_nat (length mls_signature_pub)] @ mls_signature_pub @ be_bytes 4 identity_version @ be_bytes 8 issued_at))"

definition verify_device_cert :: "lib \<Rightarrow> bytes \<Rightarrow> string \<Rightarrow> bytes \<Rightarrow> u32 \<Rightarrow> u64 \<Rightarrow> bytes \<Rightarrow> device_cert_error + unit" where
  "verify_device_cert L account_id_pub device_id mls_signature_pub identity_version issued_at cert_bytes =
     (if length account_id_pub \<noteq> 32 then Inl (BadAccountKeyLen (length account_id_pub))
      else if length cert_bytes \<noteq> 64 then Inl (BadCertLen (length cert_bytes))
      else case ed_from_bytes L account_id_pub of
        None \<Rightarrow> Inl BadAccountKey
      | Some verifying_key \<Rightarrow>
          bind_res (device_cert_signed_payload device_id mls_signature_pub identity_version issued_at) (\<lambda>payload.
            if ed_verify L verifying_key payload cert_bytes then Inr () else Inl SignatureInvalid))"

section \<open>The port in the delivery service\<close>

definition ds_signed_payload :: "string \<Rightarrow> bytes \<Rightarrow> u32 \<Rightarrow> u64 \<Rightarrow> bytes option" where
  "ds_signed_payload device_id mls_signature_pub identity_version issued_at =
     (if length device_id > 255 \<or> length mls_signature_pub > 255 then None
      else Some (DEVICE_CERT_DOMAIN @ [word_of_nat (length device_id)] @ as_bytes device_id
        @ [word_of_nat (length mls_signature_pub)] @ mls_signature_pub @ be_bytes 4 identity_version @ be_bytes 8 issued_at))"

definition ds_verify_device_cert :: "lib \<Rightarrow> bytes \<Rightarrow> string \<Rightarrow> bytes \<Rightarrow> u32 \<Rightarrow> u64 \<Rightarrow> bytes \<Rightarrow> bool" where
  "ds_verify_device_cert L account_id_pub device_id mls_signature_pub identity_version issued_at cert_bytes =
     (if length account_id_pub \<noteq> 32 then False
      else if length cert_bytes \<noteq> 64 then False
      else case ed_from_bytes L account_id_pub of
        None \<Rightarrow> False
      | Some verifying_key \<Rightarrow>
          (case ds_signed_payload device_id mls_signature_pub identity_version issued_at of
             None \<Rightarrow> False
           | Some payload \<Rightarrow> ed_verify L verifying_key payload cert_bytes))"

section \<open>The signed payload determines its fields\<close>

lemma word_of_nat_length_inject:
  "m \<le> 255 \<Longrightarrow> n \<le> 255 \<Longrightarrow> (word_of_nat m :: byte) = word_of_nat n \<longleftrightarrow> m = n"
  by (simp add: word_of_nat_eq_iff take_bit_nat_eq_self)

lemma payload_inject:
  assumes "device_cert_signed_payload d k v t = Inr m" "device_cert_signed_payload d' k' v' t' = Inr m"
  shows "d = d' \<and> k = k' \<and> v = v' \<and> t = t'"
proof -
  from assms have len: "length d \<le> 255" "length k \<le> 255" "length d' \<le> 255" "length k' \<le> 255"
    by (auto simp: device_cert_signed_payload_def split: if_splits)
  from assms len have eq: "word_of_nat (length d) # as_bytes d @ word_of_nat (length k) # k @ be_bytes 4 v @ be_bytes 8 t
      = (word_of_nat (length d') :: byte) # as_bytes d' @ word_of_nat (length k') # k' @ be_bytes 4 v' @ be_bytes 8 t'"
    by (auto simp: device_cert_signed_payload_def split: if_splits)
  with len have "length d = length d'" by (simp add: word_of_nat_length_inject)
  with eq have d: "d = d'" and "word_of_nat (length k) # k @ be_bytes 4 v @ be_bytes 8 t
      = (word_of_nat (length k') :: byte) # k' @ be_bytes 4 v' @ be_bytes 8 t'"
    by (simp_all add: append_eq_append_conv)
  with len have "length k = length k'" and rest: "k @ be_bytes 4 v @ be_bytes 8 t = k' @ be_bytes 4 v' @ be_bytes 8 t'"
    by (simp_all add: word_of_nat_length_inject)
  with d show ?thesis by (simp add: append_eq_append_conv)
qed

lemma verify_device_cert_iff:
  "verify_device_cert L pk d k v t c = Inr () \<longleftrightarrow> length pk = 32 \<and> length c = 64
     \<and> (\<exists>vk m. ed_from_bytes L pk = Some vk \<and> device_cert_signed_payload d k v t = Inr m \<and> ed_verify L vk m c)"
  by (auto simp: verify_device_cert_def bind_res_eq_Inr split: if_splits option.splits)

text \<open>The delivery service's port of the certificate check accepts exactly the certificates the shared crate accepts.\<close>

theorem device_cert_port_agrees:
  "ds_verify_device_cert L pk d k v t c \<longleftrightarrow> verify_device_cert L pk d k v t c = Inr ()"
  by (auto simp: ds_verify_device_cert_def verify_device_cert_def ds_signed_payload_def device_cert_signed_payload_def split: option.splits)

text \<open>What the account key signs is accepted, for a device id and a key of at most 255 bytes, and the signed bytes determine device id,
  key, identity version and issue time: a certificate is never the certificate of another binding.\<close>

theorem device_cert_binds_device:
  assumes "lib_ok L" "length d \<le> 255" "length k \<le> 255"
  shows "\<exists>m. device_cert_signed_payload d k v t = Inr m \<and> verify_device_cert L (ed_public L key) d k v t (ed_sign L key m) = Inr ()
    \<and> (\<forall>d' k' v' t'. device_cert_signed_payload d' k' v' t' = Inr m \<longrightarrow> d' = d \<and> k' = k \<and> v' = v \<and> t' = t)"
proof -
  from assms obtain m where m: "device_cert_signed_payload d k v t = Inr m" by (simp add: device_cert_signed_payload_def)
  with assms(1) have "verify_device_cert L (ed_public L key) d k v t (ed_sign L key m) = Inr ()"
    by (auto simp: verify_device_cert_iff lib_ok_def ed25519_ok_def)
  with m show ?thesis using payload_inject by blast
qed

theorem device_cert_binds_device_witness:
  "\<exists>m. device_cert_signed_payload ''d'' [1] 3 9 = Inr m
    \<and> verify_device_cert demo_lib (ed_public demo_lib [7]) ''d'' [1] 3 9 (ed_sign demo_lib [7] m) = Inr ()"
  using device_cert_binds_device [OF lib_ok_demo, of "''d''" "[1]" 3 9 "[7]"] by auto

end
