(* ===== verification/Delivery_Bootstrap.thy ===== *)
theory Delivery_Bootstrap
  imports Delivery_Account Delivery_Otp Device_Cert
begin

text \<open>The writes that establish a credential (\<open>bootstrap.rs\<close>): the first account key, a device row, the device certificate
  that makes a device able to sign, and the enrollment request of a further device. They are gated by a session of
  \<open>session.rs\<close>, the certificate also by its own signature. The notification sent after an enrollment request is left out;
  its failure is ignored.\<close>

definition ok_status :: response where "ok_status = (200, StatusOk)"

definition conflict :: "string \<Rightarrow> response" where "conflict msg = (409, ConflictBody msg)"

text \<open>The prologue of the session-gated handlers: the session's claims and the parsed body, or the answer.\<close>

definition with_session :: "lib \<Rightarrow> (bytes \<Rightarrow> 'b option) \<Rightarrow> nat \<Rightarrow> request \<Rightarrow> app_state \<Rightarrow>
    (session_claims \<Rightarrow> 'b \<Rightarrow> main_db \<Rightarrow> response \<times> main_db) \<Rightarrow> response \<times> app_state" where
  "with_session L from_slice now req st k =
     (case verify_session L (req_headers req) now (st_sessions st) of
        (Inl rej, s) \<Rightarrow> (into_response rej, st\<lparr>st_sessions := s\<rparr>)
      | (Inr claims, s) \<Rightarrow>
          (case from_slice (req_body req) of
             None \<Rightarrow> (bad_request ''invalid body'', st\<lparr>st_sessions := s\<rparr>)
           | Some parsed \<Rightarrow> (case k claims parsed (st_db st) of (resp, db) \<Rightarrow> (resp, st\<lparr>st_db := db, st_sessions := s\<rparr>))))"

section \<open>The first account key\<close>

record establish_identity_body =
  ei_account_id_pub :: string
  ei_salt :: string
  ei_nonce :: string
  ei_wrapped_key :: string

datatype establish_outcome = EstApplied | EstConflict

definition insert_recovery :: "bool \<Rightarrow> account_recovery \<Rightarrow> main_db \<Rightarrow> db_error + main_db" where
  "insert_recovery fk row db =
     (if list_ex (\<lambda>r. ar_user_id r = ar_user_id row) (recoveries db) \<or> fk \<and> \<not> has_user db (ar_user_id row) then Inl StatementFailed
      else Inr (db\<lparr>recoveries := recoveries db @ [row]\<rparr>))"

definition apply_establish_identity :: "bool \<Rightarrow> string \<Rightarrow> bytes \<Rightarrow> bytes \<Rightarrow> bytes \<Rightarrow> bytes \<Rightarrow> main_db \<Rightarrow> db_error + establish_outcome \<times> main_db" where
  "apply_establish_identity fk user_id pub_bytes salt nonce wrapped db =
     (let hit = (\<lambda>u. u_id u = user_id \<and> u_account_id_pub u = None) in
      if \<not> list_ex hit (users db) then Inr (EstConflict, db)
      else let db = db\<lparr>users := sql_update hit (\<lambda>u. u\<lparr>u_account_id_pub := Some pub_bytes, u_identity_version := 1\<rparr>) (users db)\<rparr> in
        if has_key_version db user_id 1 then Inl StatementFailed
        else bind_res (insert_recovery fk \<lparr>ar_user_id = user_id, ar_identity_version = 1, ar_salt = salt, ar_nonce = nonce, ar_wrapped_key = wrapped\<rparr>
                 (append_key_log user_id pub_bytes 1 db)) (\<lambda>db. Inr (EstApplied, db)))"

definition establish_identity :: "bool \<Rightarrow> lib \<Rightarrow> b64 \<Rightarrow> (bytes \<Rightarrow> establish_identity_body option) \<Rightarrow> nat \<Rightarrow> request \<Rightarrow> app_state \<Rightarrow> response \<times> app_state" where
  "establish_identity fk L E from_slice now req st = with_session L from_slice now req st (\<lambda>claims parsed db.
     case (b64_dec E (ei_account_id_pub parsed), b64_dec E (ei_salt parsed), b64_dec E (ei_nonce parsed), b64_dec E (ei_wrapped_key parsed)) of
       (Some pub_bytes, Some salt, Some nonce, Some wrapped) \<Rightarrow>
         if length pub_bytes \<noteq> 32 then (bad_request ''account_id_pub must be 32 bytes'', db)
         else (case apply_establish_identity fk (sc_user_id claims) pub_bytes salt nonce wrapped db of
             Inr (EstApplied, db') \<Rightarrow> (ok_status, db')
           | Inr (EstConflict, db') \<Rightarrow> (conflict ''identity already established'', db')
           | Inl err \<Rightarrow> (app_error, db))
     | _ \<Rightarrow> (bad_request ''invalid base64 field'', db))"

section \<open>Registering a device\<close>

record register_device_body =
  rv_device_id :: string
  rv_device_name :: "string option"

text \<open>The watermarks of every conversation the user is in, for the one device.\<close>

definition seed_own_watermarks :: "string \<Rightarrow> string \<Rightarrow> string \<Rightarrow> main_db \<Rightarrow> main_db" where
  "seed_own_watermarks now user_id device_id db =
     (let seed = (\<lambda>conv. sql_insert_or_ignore (\<lambda>w. cw_conversation_id w = conv \<and> cw_user_id w = user_id \<and> cw_device_id w = device_id)
            \<lparr>cw_conversation_id = conv, cw_user_id = user_id, cw_device_id = device_id, cw_last_fetched_at = now\<rparr>);
          convs = map ch_id (filter (\<lambda>c. list_ex (\<lambda>m. gm_group_id m = ch_group_id c \<and> gm_user_id m = user_id) (group_members db)) (channels db))
            @ map dcm_dm_channel_id (filter (\<lambda>m. dcm_user_id m = user_id) (dm_channel_members db))
      in db\<lparr>watermarks := fold seed convs (watermarks db)\<rparr>)"

definition apply_register_device :: "bool \<Rightarrow> string \<Rightarrow> string \<Rightarrow> string \<Rightarrow> string \<Rightarrow> main_db \<Rightarrow> db_error + main_db" where
  "apply_register_device fk now user_id device_id device_name db =
     (let known = (\<lambda>d. ud_device_id d = device_id) in
      if \<not> list_ex known (user_devices db) \<and> fk \<and> \<not> has_user db user_id then Inl StatementFailed
      else Inr (seed_own_watermarks now user_id device_id (db\<lparr>user_devices := sql_upsert known
             (\<lambda>d. d\<lparr>ud_device_name := (case ud_device_name d of Some n \<Rightarrow> Some n | None \<Rightarrow> Some device_name)\<rparr>)
             \<lparr>ud_device_id = device_id, ud_user_id = user_id, ud_device_name = Some device_name, ud_device_cert = None, ud_cert_issued_at = None,
              ud_cert_identity_version = None, ud_mls_signature_pub = None, ud_revoked_at = None\<rparr> (user_devices db)\<rparr>)))"

definition register_device :: "bool \<Rightarrow> string \<Rightarrow> lib \<Rightarrow> (bytes \<Rightarrow> register_device_body option) \<Rightarrow> nat \<Rightarrow> request \<Rightarrow> app_state \<Rightarrow> response \<times> app_state" where
  "register_device fk now_text L from_slice now req st = with_session L from_slice now req st (\<lambda>claims parsed db.
     if trim (rv_device_id parsed) = [] \<or> rv_device_id parsed \<noteq> sc_device_id claims then (into_response Forbidden, db)
     else let device_name = (case rv_device_name parsed of Some s \<Rightarrow> if trim s = [] then ''device'' else s | None \<Rightarrow> ''device'')
          in case apply_register_device fk now_text (sc_user_id claims) (sc_device_id claims) device_name db of
               Inr db' \<Rightarrow> (ok_status, db')
             | Inl err \<Rightarrow> (app_error, db))"

section \<open>Publishing the device certificate\<close>

record publish_cert_body =
  pc_device_id :: string
  pc_device_cert :: string
  pc_cert_issued_at :: i64
  pc_cert_identity_version :: u32
  pc_mls_signature_pub :: string
  pc_user_id :: "string option"

datatype publish_cert_outcome = CertApplied | IdentityNotEstablished | CertInvalid | DeviceNotRegistered

definition apply_publish_device_cert :: "lib \<Rightarrow> string \<Rightarrow> string \<Rightarrow> bytes \<Rightarrow> u64 \<Rightarrow> u32 \<Rightarrow> bytes \<Rightarrow> main_db \<Rightarrow> publish_cert_outcome \<times> main_db" where
  "apply_publish_device_cert L user_id device_id cert_bytes issued_at cert_identity_version mls_sig_pub db =
     (case first_row (\<lambda>u. u_id u = user_id) (users db) of
        None \<Rightarrow> (IdentityNotEstablished, db)
      | Some u \<Rightarrow>
          (case u_account_id_pub u of
             None \<Rightarrow> (IdentityNotEstablished, db)
           | Some account_id_pub \<Rightarrow>
               if \<not> ds_verify_device_cert L account_id_pub device_id mls_sig_pub cert_identity_version issued_at cert_bytes then (CertInvalid, db)
               else let own = (\<lambda>d. ud_device_id d = device_id \<and> ud_user_id d = user_id)
                    in if \<not> list_ex own (user_devices db) then (DeviceNotRegistered, db)
                       else (CertApplied, db\<lparr>user_devices := sql_update own
                         (\<lambda>d. d\<lparr>ud_device_cert := Some cert_bytes, ud_cert_issued_at := Some (show_u64 issued_at),
                                ud_cert_identity_version := Some (uint cert_identity_version), ud_mls_signature_pub := Some mls_sig_pub\<rparr>) (user_devices db)\<rparr>)))"

text \<open>Who the certificate is for: the claims of a live session, or else the user and device of the body. The third component is the token to spend.\<close>

definition cert_subject :: "lib \<Rightarrow> nat \<Rightarrow> request \<Rightarrow> session_store \<Rightarrow> publish_cert_body \<Rightarrow> (auth_rejection + string \<times> string \<times> string option) \<times> session_store" where
  "cert_subject L now req sessions parsed =
     (let token = (case session_token (req_headers req) of Some t \<Rightarrow> if t = [] then None else Some t | None \<Rightarrow> None);
          (claims, s) = (case token of None \<Rightarrow> (None, sessions) | Some t \<Rightarrow> resolve L t now sessions)
      in case claims of
           Some c \<Rightarrow> if pc_device_id parsed \<noteq> sc_device_id c then (Inl Forbidden, s) else (Inr (sc_user_id c, sc_device_id c, token), s)
         | None \<Rightarrow>
             (case pc_user_id parsed of
                Some u \<Rightarrow> if trim u = [] then (Inl Unauthorized, s) else (Inr (u, pc_device_id parsed, None), s)
              | None \<Rightarrow> (Inl Unauthorized, s)))"

definition publish_device_cert :: "lib \<Rightarrow> b64 \<Rightarrow> (bytes \<Rightarrow> publish_cert_body option) \<Rightarrow> nat \<Rightarrow> request \<Rightarrow> app_state \<Rightarrow> response \<times> app_state" where
  "publish_device_cert L E from_slice now req st =
     (case from_slice (req_body req) of
        None \<Rightarrow> (bad_request ''invalid body'', st)
      | Some parsed \<Rightarrow>
          (case b64_dec E (pc_device_cert parsed) of
             None \<Rightarrow> (bad_request ''invalid device_cert'', st)
           | Some cert_bytes \<Rightarrow>
               (case b64_dec E (pc_mls_signature_pub parsed) of
                  None \<Rightarrow> (bad_request ''invalid mls_signature_pub'', st)
                | Some mls_sig_pub \<Rightarrow>
                    if pc_cert_issued_at parsed < 0 then (bad_request ''cert_issued_at must be non-negative'', st)
                    else (case cert_subject L now req (st_sessions st) parsed of
                        (Inl rej, s) \<Rightarrow> (into_response rej, st\<lparr>st_sessions := s\<rparr>)
                      | (Inr (user_id, device_id, invalidate_token), s) \<Rightarrow>
                          (case apply_publish_device_cert L user_id device_id cert_bytes (word_of_int (pc_cert_issued_at parsed))
                                 (pc_cert_identity_version parsed) mls_sig_pub (st_db st) of
                             (CertApplied, db) \<Rightarrow> (ok_status, st\<lparr>st_db := db,
                                 st_sessions := (case invalidate_token of Some t \<Rightarrow> invalidate L t s | None \<Rightarrow> s)\<rparr>)
                           | (IdentityNotEstablished, db) \<Rightarrow> (conflict ''account identity not established'', st\<lparr>st_db := db, st_sessions := s\<rparr>)
                           | (CertInvalid, db) \<Rightarrow> (into_response Unauthorized, st\<lparr>st_db := db, st_sessions := s\<rparr>)
                           | (DeviceNotRegistered, db) \<Rightarrow> (conflict ''device not registered for this user'', st\<lparr>st_db := db, st_sessions := s\<rparr>))))))"

section \<open>Asking for enrollment\<close>

record enrollment_request_body =
  eq_request_id :: string
  eq_new_device_ephemeral_pub :: string
  eq_verification_code :: string
  eq_created_at :: string
  eq_expires_at :: string

definition apply_enrollment_request :: "bool \<Rightarrow> string \<Rightarrow> string \<Rightarrow> string \<Rightarrow> bytes \<Rightarrow> string \<Rightarrow> string \<Rightarrow> string \<Rightarrow> main_db \<Rightarrow> db_error + main_db" where
  "apply_enrollment_request fk user_id new_device_id request_id ephemeral_pub verification_code created_at expires_at db =
     (if list_ex (\<lambda>r. er_id r = request_id) (enrollments db) \<or> fk \<and> \<not> has_user db user_id then Inl StatementFailed
      else Inr (db\<lparr>enrollments := enrollments db @ [\<lparr>er_id = request_id, er_user_id = user_id, er_new_device_id = new_device_id,
             er_new_device_ephemeral_pub = ephemeral_pub, er_verification_code = verification_code, er_wrapped_account_key = None,
             er_status = ''pending'', er_created_at = created_at, er_expires_at = expires_at, er_approved_by_device_id = None\<rparr>]\<rparr>))"

definition enrollment_request :: "bool \<Rightarrow> lib \<Rightarrow> b64 \<Rightarrow> (bytes \<Rightarrow> enrollment_request_body option) \<Rightarrow> nat \<Rightarrow> request \<Rightarrow> app_state \<Rightarrow> response \<times> app_state" where
  "enrollment_request fk L E from_slice now req st = with_session L from_slice now req st (\<lambda>claims parsed db.
     case b64_dec E (eq_new_device_ephemeral_pub parsed) of
       None \<Rightarrow> (bad_request ''invalid new_device_ephemeral_pub'', db)
     | Some ephemeral_pub \<Rightarrow>
         (case apply_enrollment_request fk (sc_user_id claims) (sc_device_id claims) (eq_request_id parsed) ephemeral_pub
                (eq_verification_code parsed) (eq_created_at parsed) (eq_expires_at parsed) db of
            Inr db' \<Rightarrow> (ok_status, db')
          | Inl err \<Rightarrow> (app_error, db)))"

section \<open>The account-key log\<close>

text \<open>The rows of one user, and what a handler can see of the accounts: keys and versions, the log and the recovery blobs.\<close>

definition key_rows :: "string \<Rightarrow> main_db \<Rightarrow> account_key_log list" where
  "key_rows user db = filter (\<lambda>r. ak_user_id r = user) (key_log db)"

definition account_view :: "main_db \<Rightarrow> (string \<times> bytes option \<times> i64) list \<times> account_key_log list \<times> i64 \<times> account_recovery list" where
  "account_view db = (map (\<lambda>u. (u_id u, u_account_id_pub u, u_identity_version u)) (users db), key_log db, key_log_seq db, recoveries db)"

text \<open>Histories of the accounts: sign-up under an id not used before (ids are fresh ULIDs), the first key, rotations while the version numbers last, deletions, and every write
  that leaves the accounts as they are.\<close>

inductive account_reach :: "main_db \<Rightarrow> bool" where
  acct_empty: "account_reach main_db_new"
| acct_signup: "account_reach db \<Longrightarrow> key_rows user db = [] \<Longrightarrow> insert_user user email name db = Inr db' \<Longrightarrow> account_reach db'"
| acct_establish: "account_reach db \<Longrightarrow> apply_establish_identity fk user pk salt nonce wrapped db = Inr (out, db') \<Longrightarrow> account_reach db'"
| acct_rotate: "account_reach db \<Longrightarrow> length (key_log db) < 2 ^ 63 - 1 \<Longrightarrow> apply_rotate_identity E fk a body db = Inr (rot, db') \<Longrightarrow> account_reach db'"
| acct_delete: "account_reach db \<Longrightarrow> apply_delete_account fk pick a b db = Inr (wr, db') \<Longrightarrow> account_reach db'"
| acct_other: "account_reach db \<Longrightarrow> account_view db' = account_view db \<Longrightarrow> account_reach db'"

text \<open>The log numbers the keys of a user from 1 without a gap; the user's row and recovery blob are those of the newest entry.\<close>

definition versions_ok :: "account_key_log list \<Rightarrow> bool" where
  "versions_ok rows \<longleftrightarrow> map ak_identity_version rows = map int [1..<Suc (length rows)]"

definition user_current :: "account_key_log list \<Rightarrow> user_row \<Rightarrow> bool" where
  "user_current rows u \<longleftrightarrow> (case u_account_id_pub u of
      None \<Rightarrow> rows = []
    | Some pk \<Rightarrow> rows \<noteq> [] \<and> ak_account_id_pub (last rows) = pk \<and> u_identity_version u = int (length rows))"

definition account_inv :: "main_db \<Rightarrow> bool" where
  "account_inv db \<longleftrightarrow> (\<forall>user. versions_ok (key_rows user db)) \<and> (\<forall>u \<in> set (users db). user_current (key_rows (u_id u) db) u)
     \<and> (\<forall>r \<in> set (recoveries db). key_rows (ar_user_id r) db \<noteq> [] \<and> ar_identity_version r = int (length (key_rows (ar_user_id r) db)))
     \<and> sorted_wrt (<) (map ak_seq (key_log db)) \<and> (\<forall>r \<in> set (key_log db). ak_seq r < key_log_seq db)"

lemma versions_ok_snoc: "versions_ok rows \<Longrightarrow> ak_identity_version r = int (Suc (length rows)) \<Longrightarrow> versions_ok (rows @ [r])"
  by (simp add: versions_ok_def)

lemma fold_max_upt: "fold max (map int [Suc m..<Suc (m + k)]) (int m) = int (m + k)"
proof (induction k)
  case (Suc k)
  have "[Suc m..<Suc (m + Suc k)] = [Suc m..<Suc (m + k)] @ [Suc (m + k)]" by simp
  then show ?case using Suc.IH by (simp del: upt_Suc)
qed simp

lemma key_log_head: "versions_ok (key_rows user db) \<Longrightarrow> current_key_log_head db user = int (length (key_rows user db))"
proof -
  assume ok: "versions_ok (key_rows user db)"
  show ?thesis
  proof (cases "length (key_rows user db)")
    case 0
    then show ?thesis by (simp add: current_key_log_head_def key_rows_def)
  next
    case (Suc n)
    then have "[1..<Suc (length (key_rows user db))] = 1 # [Suc 1..<Suc (1 + n)]" by (simp add: upt_conv_Cons del: upt_Suc)
    with ok have "map ak_identity_version (key_rows user db) = int 1 # map int [Suc 1..<Suc (1 + n)]"
      by (simp add: versions_ok_def del: upt_Suc)
    then show ?thesis using fold_max_upt [of 1 n] Suc by (simp add: current_key_log_head_def key_rows_def del: upt_Suc)
  qed
qed

lemma key_rows_append [simp]:
  "key_rows user (append_key_log actor pk v db) = key_rows user db @ (if user = actor then [\<lparr>ak_seq = key_log_seq db, ak_user_id = actor, ak_account_id_pub = pk, ak_identity_version = v\<rparr>] else [])"
  by (simp add: key_rows_def append_key_log_def)

lemma key_rows_frame [simp]: "key_rows user (db\<lparr>users := us\<rparr>) = key_rows user db" "key_rows user (db\<lparr>recoveries := rs\<rparr>) = key_rows user db"
  by (simp_all add: key_rows_def)

text \<open>The effect both writers of the log have on success.\<close>

lemma account_inv_new_version:
  assumes "account_inv db" "v = int (Suc (length (key_rows actor db)))"
    and "\<forall>u \<in> set us. (u_id u \<noteq> actor \<and> u \<in> set (users db)) \<or> (u_id u = actor \<and> u_account_id_pub u = Some pk \<and> u_identity_version u = v)"
    and "\<forall>r \<in> set rs. (ar_user_id r \<noteq> actor \<and> r \<in> set (recoveries db)) \<or> (ar_user_id r = actor \<and> ar_identity_version r = v)"
    and "users db' = us" "recoveries db' = rs" "key_log db' = key_log (append_key_log actor pk v db)" "key_log_seq db' = key_log_seq db + 1"
  shows "account_inv db'"
proof -
  have rows: "key_rows user db' = key_rows user (append_key_log actor pk v db)" for user using assms(7) by (simp add: key_rows_def)
  have "versions_ok (key_rows user db')" for user
    using assms(1,2) unfolding rows by (auto simp: account_inv_def intro!: versions_ok_snoc)
  moreover have "user_current (key_rows (u_id u) db') u" if "u \<in> set us" for u
    using assms(1,2,3) that unfolding rows by (fastforce simp: account_inv_def user_current_def)
  moreover have "key_rows (ar_user_id r) db' \<noteq> [] \<and> ar_identity_version r = int (length (key_rows (ar_user_id r) db'))" if "r \<in> set rs" for r
    using assms(1,2,4) that unfolding rows by (fastforce simp: account_inv_def)
  moreover have "sorted_wrt (<) (map ak_seq (key_log db')) \<and> (\<forall>r \<in> set (key_log db'). ak_seq r < key_log_seq db')"
    using assms(1,7,8) by (auto simp: account_inv_def append_key_log_def sorted_wrt_append)
  ultimately show ?thesis using assms(5,6) by (simp add: account_inv_def)
qed

lemma account_inv_rotate:
  assumes "account_inv db" "length (key_log db) < 2 ^ 63 - 1" "apply_rotate_identity E fk a body db = Inr (rot, db')"
  shows "account_inv db'"
proof (cases "db' = db")
  case False
  then obtain actor where actor: "resolve_actor a (ri_user_id body) = Inr actor"
    using assms(3) by (cases "resolve_actor a (ri_user_id body)") (auto simp: apply_rotate_identity_def)
  let ?n = "length (key_rows actor db)"
  have head: "current_key_log_head db actor = int ?n" using assms(1) by (intro key_log_head) (simp add: account_inv_def)
  have "?n \<le> length (key_log db)" by (simp add: key_rows_def)
  then have wrap: "wrap_i64 (int ?n + 1) = int (Suc ?n)" using assms(2) by (subst wrap_i64_id) auto
  obtain pk salt nonce wrapped where eqs: "ri_based_on_version body = int ?n"
      "upsert_recovery fk \<lparr>ar_user_id = actor, ar_identity_version = int (Suc ?n), ar_salt = salt, ar_nonce = nonce, ar_wrapped_key = wrapped\<rparr>
        (append_key_log actor pk (int (Suc ?n)) db\<lparr>users := sql_update (\<lambda>u. u_id u = actor)
          (\<lambda>u. u\<lparr>u_account_id_pub := Some pk, u_identity_version := int (Suc ?n)\<rparr>) (users (append_key_log actor pk (int (Suc ?n)) db))\<rparr>) = Inr db'"
    using assms(3) False actor head wrap by (auto simp: apply_rotate_identity_def Let_def bind_res_eq_Inr split: if_splits)
  let ?row = "\<lparr>ar_user_id = actor, ar_identity_version = int (Suc ?n), ar_salt = salt, ar_nonce = nonce, ar_wrapped_key = wrapped\<rparr>"
  let ?us = "sql_update (\<lambda>u. u_id u = actor) (\<lambda>u. u\<lparr>u_account_id_pub := Some pk, u_identity_version := int (Suc ?n)\<rparr>) (users db)"
  let ?rs = "sql_upsert (\<lambda>r. ar_user_id r = actor) (\<lambda>_. ?row) ?row (recoveries db)"
  have db': "db' = append_key_log actor pk (int (Suc ?n)) db\<lparr>users := ?us, recoveries := ?rs\<rparr>"
    using eqs(2) by (simp add: upsert_recovery_def append_key_log_def split: if_splits)
  show ?thesis
  proof (rule account_inv_new_version [OF assms(1) refl])
    show "\<forall>u \<in> set ?us. (u_id u \<noteq> actor \<and> u \<in> set (users db)) \<or> (u_id u = actor \<and> u_account_id_pub u = Some pk \<and> u_identity_version u = int (Suc ?n))"
      by (auto elim!: set_sql_updateE)
    show "\<forall>r \<in> set ?rs. (ar_user_id r \<noteq> actor \<and> r \<in> set (recoveries db)) \<or> (ar_user_id r = actor \<and> ar_identity_version r = int (Suc ?n))"
      by (auto simp: sql_upsert_def list_ex_iff elim!: set_sql_updateE split: if_splits)
  qed (simp_all add: db' append_key_log_def)
qed (use assms(1) in simp)

lemma account_inv_establish:
  assumes "account_inv db" "apply_establish_identity fk user pk salt nonce wrapped db = Inr (out, db')"
  shows "account_inv db'"
proof (cases "db' = db")
  case False
  let ?hit = "\<lambda>u. u_id u = user \<and> u_account_id_pub u = None"
  let ?us = "sql_update ?hit (\<lambda>u. u\<lparr>u_account_id_pub := Some pk, u_identity_version := 1\<rparr>) (users db)"
  let ?row = "\<lparr>ar_user_id = user, ar_identity_version = 1, ar_salt = salt, ar_nonce = nonce, ar_wrapped_key = wrapped\<rparr>"
  have "list_ex ?hit (users db)" and ins: "insert_recovery fk ?row (append_key_log user pk 1 (db\<lparr>users := ?us\<rparr>)) = Inr db'"
    using assms(2) False by (auto simp: apply_establish_identity_def Let_def bind_res_eq_Inr split: if_splits)
  then obtain u where "u \<in> set (users db)" "?hit u" by (auto simp: list_ex_iff)
  then have none: "key_rows user db = []" using assms(1) by (auto simp: account_inv_def user_current_def)
  then have nohit: "u_account_id_pub u = None" if "u \<in> set (users db)" "u_id u = user" for u
    using assms(1) that by (auto simp: account_inv_def user_current_def split: option.splits)
  have db': "db' = append_key_log user pk 1 db\<lparr>users := ?us, recoveries := recoveries db @ [?row]\<rparr>"
    and norec: "\<forall>r \<in> set (recoveries db). ar_user_id r \<noteq> user"
    using ins by (auto simp: insert_recovery_def append_key_log_def list_ex_iff split: if_splits)
  show ?thesis
  proof (rule account_inv_new_version [OF assms(1), where actor = user and pk = pk and v = 1])
    show "\<forall>u \<in> set ?us. (u_id u \<noteq> user \<and> u \<in> set (users db)) \<or> (u_id u = user \<and> u_account_id_pub u = Some pk \<and> u_identity_version u = 1)"
      using nohit by (auto elim!: set_sql_updateE)
    show "\<forall>r \<in> set (recoveries db @ [?row]). (ar_user_id r \<noteq> user \<and> r \<in> set (recoveries db)) \<or> (ar_user_id r = user \<and> ar_identity_version r = 1)"
      using norec by auto
  qed (simp_all add: db' none append_key_log_def)
qed (use assms(1) in simp)

lemma account_inv_view:
  assumes "account_inv db" "key_log db' = key_log db" "key_log_seq db' = key_log_seq db" "set (recoveries db') \<subseteq> set (recoveries db)"
    and "set (map (\<lambda>u. (u_id u, u_account_id_pub u, u_identity_version u)) (users db')) \<subseteq> set (map (\<lambda>u. (u_id u, u_account_id_pub u, u_identity_version u)) (users db))"
  shows "account_inv db'"
proof -
  have rows: "key_rows user db' = key_rows user db" for user using assms(2) by (simp add: key_rows_def)
  have "user_current (key_rows (u_id u) db) u" if "u \<in> set (users db')" for u
  proof -
    obtain v where "v \<in> set (users db)" "u_id v = u_id u" "u_account_id_pub v = u_account_id_pub u" "u_identity_version v = u_identity_version u"
      using assms(5) \<open>u \<in> set (users db')\<close> by (auto simp: image_subset_iff image_iff)
    moreover have "user_current (key_rows (u_id v) db) v" using assms(1) \<open>v \<in> set (users db)\<close> by (simp add: account_inv_def)
    ultimately show ?thesis by (simp add: user_current_def split: option.splits)
  qed
  then show ?thesis using assms unfolding account_inv_def rows by auto
qed

lemma account_reach_inv: "account_reach db \<Longrightarrow> account_inv db"
proof (induction rule: account_reach.induct)
  case acct_empty
  show ?case by (simp add: account_inv_def main_db_new_def key_rows_def versions_ok_def)
next
  case (acct_signup db user email name db')
  have "set (users db') = insert (last (users db')) (set (users db))" "u_id (last (users db')) = user" "u_account_id_pub (last (users db')) = None"
      "key_log db' = key_log db" "key_log_seq db' = key_log_seq db" "recoveries db' = recoveries db"
    using acct_signup(3) by (auto simp: insert_user_def split: if_splits)
  moreover from this have "key_rows x db' = key_rows x db" for x by (simp add: key_rows_def)
  ultimately show ?case using acct_signup.IH acct_signup(2) by (auto simp: account_inv_def user_current_def)
next
  case (acct_delete db fk pick a b wr db')
  from delete_account_frame [OF acct_delete(2)] show ?case by (intro account_inv_view [OF acct_delete.IH]) auto
next
  case (acct_other db db')
  then show ?case by (intro account_inv_view [OF acct_other.IH]) (auto simp: account_view_def)
qed (blast intro: account_inv_rotate account_inv_establish)+

lemma publish_cert_applied:
  assumes "apply_publish_device_cert L user dev cert t v key db = (CertApplied, db')"
  shows "\<exists>u acc. u \<in> set (users db) \<and> u_id u = user \<and> u_account_id_pub u = Some acc \<and> verify_device_cert L acc dev key v t cert = Inr ()
    \<and> (\<exists>d \<in> set (user_devices db). ud_device_id d = dev \<and> ud_user_id d = user)
    \<and> db' = db\<lparr>user_devices := sql_update (\<lambda>d. ud_device_id d = dev \<and> ud_user_id d = user)
        (\<lambda>d. d\<lparr>ud_device_cert := Some cert, ud_cert_issued_at := Some (show_u64 t), ud_cert_identity_version := Some (uint v), ud_mls_signature_pub := Some key\<rparr>) (user_devices db)\<rparr>"
  using assms by (auto simp: apply_publish_device_cert_def Let_def list_ex_iff device_cert_port_agrees split: option.splits if_splits dest!: first_row_Some)

lemma publish_cert_refused: "apply_publish_device_cert L user dev cert t v key db = (out, db') \<Longrightarrow> out \<noteq> CertApplied \<Longrightarrow> db' = db"
  by (auto simp: apply_publish_device_cert_def Let_def split: option.splits if_splits)

lemma cert_subject_session:
  assumes "cert_subject L now req ss body = (Inr (user, dev, tok), s)"
  shows "dev = pc_device_id body"
    and "session_token (req_headers req) = Some token \<Longrightarrow> token \<noteq> [] \<Longrightarrow> resolve L token now ss = (Some claims, s') \<Longrightarrow>
      user = sc_user_id claims \<and> dev = sc_device_id claims \<and> tok = Some token"
  using assms by (auto simp: cert_subject_def Let_def split: option.splits if_splits prod.splits)

section \<open>Properties\<close>

text \<open>C6. The account-key log never forks and never skips: after any history of sign-ups, first keys, rotations and deletions, the entries of each user carry the versions 1, 2, 3 and
  so on in log order; a user has a key exactly if there is an entry, the key and version of the user's row are those of the newest entry, and so is the version of the recovery
  blob.\<close>

theorem account_key_log_invariant: "account_reach db \<Longrightarrow> account_inv db"
  by (rule account_reach_inv)

definition demo_fresh :: main_db where
  "demo_fresh = main_db_new\<lparr>users := [demo_user]\<rparr>"

lemma demo_fresh_simps:
  "users demo_fresh = [demo_user]" "key_log demo_fresh = []" "key_log_seq demo_fresh = 1" "recoveries demo_fresh = []"
  "u_id demo_user = ''u''" "u_account_id_pub demo_user = None"
  by (simp_all add: demo_fresh_def main_db_new_def demo_user_def)

definition demo_establish :: "db_error + establish_outcome \<times> main_db" where
  "demo_establish = apply_establish_identity True ''u'' [1] [2] [3] [4] demo_fresh"

lemma demo_user_reach: "account_reach demo_fresh"
  by (rule acct_signup [OF acct_empty, of "''u''" "''u@x''" "''u''"]) (simp_all add: insert_user_def main_db_new_def key_rows_def demo_user_def demo_fresh_def)

lemma demo_establish_result:
  obtains db where "demo_establish = Inr (EstApplied, db)" "key_log db = [\<lparr>ak_seq = 1, ak_user_id = ''u'', ak_account_id_pub = [1], ak_identity_version = 1\<rparr>]"
proof
  let ?us = "[demo_user\<lparr>u_account_id_pub := Some [1], u_identity_version := 1\<rparr>]"
  let ?rs = "[\<lparr>ar_user_id = ''u'', ar_identity_version = 1, ar_salt = [2], ar_nonce = [3], ar_wrapped_key = [4]\<rparr>]"
  show "demo_establish = Inr (EstApplied, append_key_log ''u'' [1] 1 (demo_fresh\<lparr>users := ?us\<rparr>)\<lparr>recoveries := ?rs\<rparr>)"
    by (simp add: demo_establish_def apply_establish_identity_def Let_def demo_fresh_simps has_key_version_def insert_recovery_def append_key_log_def
        has_user_def bind_res_def sql_update_def)
  show "key_log (append_key_log ''u'' [1] 1 (demo_fresh\<lparr>users := ?us\<rparr>)\<lparr>recoveries := ?rs\<rparr>)
      = [\<lparr>ak_seq = 1, ak_user_id = ''u'', ak_account_id_pub = [1], ak_identity_version = 1\<rparr>]"
    by (simp add: append_key_log_def demo_fresh_simps)
qed

lemma demo_established:
  obtains db where "account_reach db" "key_log db = [\<lparr>ak_seq = 1, ak_user_id = ''u'', ak_account_id_pub = [1], ak_identity_version = 1\<rparr>]"
proof -
  obtain db where db: "demo_establish = Inr (EstApplied, db)" "key_log db = [\<lparr>ak_seq = 1, ak_user_id = ''u'', ak_account_id_pub = [1], ak_identity_version = 1\<rparr>]"
    by (rule demo_establish_result)
  from acct_establish [OF demo_user_reach db(1) [unfolded demo_establish_def]] db(2) show thesis by (rule that)
qed

theorem account_key_log_invariant_witness:
  "\<exists>db. account_reach db \<and> account_inv db \<and> map ak_identity_version (key_rows ''u'' db) = [1]"
proof -
  obtain db where db: "account_reach db" "key_log db = [\<lparr>ak_seq = 1, ak_user_id = ''u'', ak_account_id_pub = [1], ak_identity_version = 1\<rparr>]"
    by (rule demo_established)
  with account_key_log_invariant [OF db(1)] show ?thesis by (intro exI [of _ db]) (simp add: key_rows_def)
qed

text \<open>A rotation wins its version alone: when a rotation is applied, a second one that was prepared against the same version (by any device or session of the account, with whatever key) is
  answered as a conflict with the new version and changes nothing.\<close>

theorem one_rotation_per_version:
  assumes "account_reach db" "length (key_log db) < 2 ^ 63 - 1"
    and "apply_rotate_identity E fk (Some u) b1 db = Inr (RotApplied v, db1)"
    and "ri_based_on_version b2 = ri_based_on_version b1" "apply_rotate_identity E fk (Some u) b2 db1 = Inr (out, db2)" "ri_user_id b2 = None \<or> ri_user_id b2 = Some u"
  shows "out = RotConflict v \<and> db2 = db1 \<and> v = ri_based_on_version b1 + 1"
proof -
  let ?n = "length (key_rows u db)"
  have inv: "account_inv db" by (rule account_reach_inv [OF assms(1)])
  then have head: "current_key_log_head db u = int ?n" by (intro key_log_head) (simp add: account_inv_def)
  have "?n \<le> length (key_log db)" by (simp add: key_rows_def)
  then have wrap: "wrap_i64 (int ?n + 1) = int (Suc ?n)" using assms(2) by (subst wrap_i64_id) auto
  have b1: "ri_based_on_version b1 = int ?n" "v = int (Suc ?n)" and rows: "length (key_rows u db1) = Suc ?n"
    using assms(3) head wrap
    by (auto simp: apply_rotate_identity_def Let_def bind_res_eq_Inr upsert_recovery_def key_rows_def append_key_log_def split: if_splits)
  have "account_inv db1" by (rule account_inv_rotate [OF inv assms(2,3)])
  then have "current_key_log_head db1 u = int (Suc ?n)" using rows by (subst key_log_head) (simp_all add: account_inv_def)
  with assms(4,5,6) b1 show ?thesis by (auto simp: apply_rotate_identity_def Let_def bind_res_eq_Inr split: if_splits)
qed

definition demo_rotate :: rotate_identity_body where
  "demo_rotate = \<lparr>ri_based_on_version = 0, ri_account_id_pub = [], ri_salt = [], ri_nonce = [], ri_wrapped_key = [], ri_user_id = None\<rparr>"

theorem one_rotation_per_version_witness:
  "\<exists>db1 db2. apply_rotate_identity demo_b64 True (Some ''u'') demo_rotate demo_fresh = Inr (RotApplied 1, db1)
     \<and> apply_rotate_identity demo_b64 True (Some ''u'') demo_rotate db1 = Inr (RotConflict 1, db2)"
proof -
  let ?db = demo_fresh
  have dec: "decode_b64 demo_b64 [] = Inr []" by (simp add: decode_b64_def demo_b64_def as_bytes_def)
  have "\<exists>db1. apply_rotate_identity demo_b64 True (Some ''u'') demo_rotate ?db = Inr (RotApplied 1, db1)"
    by (simp add: apply_rotate_identity_def demo_rotate_def dec bind_res_def Let_def wrap_i64_def current_key_log_head_def demo_fresh_simps has_key_version_def
        upsert_recovery_def append_key_log_def has_user_def sql_update_def)
  then obtain db1 where db1: "apply_rotate_identity demo_b64 True (Some ''u'') demo_rotate ?db = Inr (RotApplied 1, db1)" by blast
  then have "has_key_version db1 ''u'' 1"
    by (auto simp: apply_rotate_identity_def demo_rotate_def dec bind_res_def Let_def upsert_recovery_def append_key_log_def has_key_version_def demo_fresh_simps
        current_key_log_head_def wrap_i64_def split: if_splits)
  then have "\<exists>out db2. apply_rotate_identity demo_b64 True (Some ''u'') demo_rotate db1 = Inr (out, db2)"
    by (simp add: apply_rotate_identity_def demo_rotate_def dec bind_res_def Let_def wrap_i64_def)
  then obtain out db2 where db2: "apply_rotate_identity demo_b64 True (Some ''u'') demo_rotate db1 = Inr (out, db2)" by blast
  have "length (key_log ?db) < 2 ^ 63 - 1" by (simp add: demo_fresh_simps)
  with one_rotation_per_version [OF demo_user_reach this db1 refl db2] db1 db2 show ?thesis by (simp add: demo_rotate_def)
qed

text \<open>C20. A device becomes able to sign only with the account's consent: publishing a certificate is answered 200 only if the account's stored key signed this device id, key, version
  and time, and the device is registered to the account; then exactly the certificate columns of that row are written, and a session that was used is spent. Any other answer leaves the
  database as it was.\<close>

theorem publish_cert_needs_account_key:
  assumes "publish_device_cert L E from_slice now req st = (resp, st')"
  shows "if fst resp = 200
    then \<exists>body cert key user acc. from_slice (req_body req) = Some body \<and> b64_dec E (pc_device_cert body) = Some cert \<and> b64_dec E (pc_mls_signature_pub body) = Some key
      \<and> (\<exists>u \<in> set (users (st_db st)). u_id u = user \<and> u_account_id_pub u = Some acc)
      \<and> verify_device_cert L acc (pc_device_id body) key (pc_cert_identity_version body) (word_of_int (pc_cert_issued_at body)) cert = Inr ()
      \<and> (\<exists>d \<in> set (user_devices (st_db st)). ud_device_id d = pc_device_id body \<and> ud_user_id d = user)
      \<and> st_db st' = (st_db st)\<lparr>user_devices := sql_update (\<lambda>d. ud_device_id d = pc_device_id body \<and> ud_user_id d = user)
          (\<lambda>d. d\<lparr>ud_device_cert := Some cert, ud_cert_issued_at := Some (show_u64 (word_of_int (pc_cert_issued_at body))),
            ud_cert_identity_version := Some (uint (pc_cert_identity_version body)), ud_mls_signature_pub := Some key\<rparr>) (user_devices (st_db st))\<rparr>
      \<and> (\<forall>token claims s. session_token (req_headers req) = Some token \<and> token \<noteq> [] \<and> resolve L token now (st_sessions st) = (Some claims, s) \<longrightarrow>
           user = sc_user_id claims \<and> pc_device_id body = sc_device_id claims \<and> fst (resolve L token now (st_sessions st')) = None)
    else st_db st' = st_db st"
proof -
  have sent: "fst (into_response rej) \<noteq> 200" for rej by (cases rej) simp_all
  show ?thesis
  proof (cases "fst resp = 200")
    case True
    obtain body cert key where b: "from_slice (req_body req) = Some body" "b64_dec E (pc_device_cert body) = Some cert" "b64_dec E (pc_mls_signature_pub body) = Some key"
        "\<not> pc_cert_issued_at body < 0"
      using assms True by (auto simp: publish_device_cert_def bad_request_def split: option.splits if_splits)
    obtain user dev tok s where c: "cert_subject L now req (st_sessions st) body = (Inr (user, dev, tok), s)"
      using assms True b sent by (cases "cert_subject L now req (st_sessions st) body") (auto simp: publish_device_cert_def split: sum.splits)
    obtain out db where o: "apply_publish_device_cert L user dev cert (word_of_int (pc_cert_issued_at body)) (pc_cert_identity_version body) key (st_db st) = (out, db)"
      by (rule prod.exhaust)
    have out: "out = CertApplied" using assms True b c o by (cases out) (auto simp: publish_device_cert_def conflict_def)
    have st': "st_db st' = db" "st_sessions st' = (case tok of Some t \<Rightarrow> invalidate L t s | None \<Rightarrow> s)"
      using assms b c o out by (auto simp: publish_device_cert_def)
    have dev: "dev = pc_device_id body" by (rule cert_subject_session(1) [OF c])
    from publish_cert_applied [OF o [unfolded out]] obtain u acc where a: "u \<in> set (users (st_db st))" "u_id u = user" "u_account_id_pub u = Some acc"
        "verify_device_cert L acc dev key (pc_cert_identity_version body) (word_of_int (pc_cert_issued_at body)) cert = Inr ()"
        "\<exists>d \<in> set (user_devices (st_db st)). ud_device_id d = dev \<and> ud_user_id d = user"
        "db = (st_db st)\<lparr>user_devices := sql_update (\<lambda>d. ud_device_id d = dev \<and> ud_user_id d = user)
          (\<lambda>d. d\<lparr>ud_device_cert := Some cert, ud_cert_issued_at := Some (show_u64 (word_of_int (pc_cert_issued_at body))),
            ud_cert_identity_version := Some (uint (pc_cert_identity_version body)), ud_mls_signature_pub := Some key\<rparr>) (user_devices (st_db st))\<rparr>"
      by blast
    have "user = sc_user_id claims \<and> pc_device_id body = sc_device_id claims \<and> fst (resolve L token now (st_sessions st')) = None"
      if "session_token (req_headers req) = Some token \<and> token \<noteq> [] \<and> resolve L token now (st_sessions st) = (Some claims, s')" for token claims s'
      using cert_subject_session(2) [OF c] that dev by (auto simp: st' resolve_def invalidate_def Let_def)
    then have "\<forall>token claims s. session_token (req_headers req) = Some token \<and> token \<noteq> [] \<and> resolve L token now (st_sessions st) = (Some claims, s) \<longrightarrow>
        user = sc_user_id claims \<and> pc_device_id body = sc_device_id claims \<and> fst (resolve L token now (st_sessions st')) = None" by blast
    with b(1-3) a [unfolded dev] show ?thesis unfolding if_P [OF True] st'(1)
      by - (rule exI [of _ body], rule exI [of _ cert], rule exI [of _ key], rule exI [of _ user], rule exI [of _ acc], blast)
  next
    case False
    then show ?thesis using assms publish_cert_refused
      by (auto simp: publish_device_cert_def ok_status_def split: option.splits if_splits prod.splits sum.splits publish_cert_outcome.splits)
  qed
qed

text \<open>A user whose key is the demonstration key, with one registered device.\<close>

definition demo_registered :: main_db where
  "demo_registered = main_db_new\<lparr>users := [demo_user\<lparr>u_account_id_pub := Some (ed_public demo_lib [7])\<rparr>], user_devices := [demo_device]\<rparr>"

definition demo_publish :: "bytes \<Rightarrow> publish_cert_body" where
  "demo_publish cert = \<lparr>pc_device_id = ''d'', pc_device_cert = map char_of_byte cert, pc_cert_issued_at = 9, pc_cert_identity_version = 3,
     pc_mls_signature_pub = map char_of_byte [1], pc_user_id = Some ''u''\<rparr>"

definition demo_request :: request where
  "demo_request = \<lparr>req_method = [], req_path = [], req_headers = \<lambda>_. None, req_body = []\<rparr>"

lemma demo_certificate:
  obtains cert where "verify_device_cert demo_lib (ed_public demo_lib [7]) ''d'' [1] 3 9 cert = Inr ()"
proof -
  obtain m where m: "device_cert_signed_payload ''d'' [1] 3 9 = Inr m" by (simp add: device_cert_signed_payload_def)
  then have "verify_device_cert demo_lib (ed_public demo_lib [7]) ''d'' [1] 3 9 (ed_sign demo_lib [7] m) = Inr ()"
    using lib_ok_demo by (auto simp: verify_device_cert_iff lib_ok_def ed25519_ok_def)
  then show thesis by (rule that)
qed

theorem publish_cert_needs_account_key_witness:
  "\<exists>cert st'. publish_device_cert demo_lib demo_b64 (\<lambda>_. Some (demo_publish cert)) 1000 demo_request (demo_state\<lparr>st_db := demo_registered\<rparr>) = ((200, StatusOk), st')
     \<and> (\<exists>acc key cert'. verify_device_cert demo_lib acc ''d'' key 3 9 cert' = Inr ())"
proof -
  let ?st = "demo_state\<lparr>st_db := demo_registered\<rparr>"
  obtain cert where cert: "verify_device_cert demo_lib (ed_public demo_lib [7]) ''d'' [1] 3 9 cert = Inr ()" by (rule demo_certificate)
  have bytes: "as_bytes (map char_of_byte bs) = bs" for bs by (simp add: as_bytes_def comp_def)
  have one: "as_bytes [char_of_byte 1] = [1]" using bytes [of "[1]"] by simp
  have t: "trim ''u'' = ''u''" by (rule trim_plain) code_simp+
  have "cert_subject demo_lib 1000 demo_request (st_sessions ?st) (demo_publish cert) = (Inr (''u'', ''d'', None), st_sessions ?st)"
    by (simp add: cert_subject_def demo_request_def session_token_def header_str_def demo_publish_def t)
  moreover have "\<exists>db. apply_publish_device_cert demo_lib ''u'' ''d'' cert 9 3 [1] demo_registered = (CertApplied, db)"
    using cert by (simp add: apply_publish_device_cert_def demo_registered_def demo_user_def demo_device_def first_row_def device_cert_port_agrees)
  ultimately obtain st' where st': "publish_device_cert demo_lib demo_b64 (\<lambda>_. Some (demo_publish cert)) 1000 demo_request ?st = ((200, StatusOk), st')"
    by (auto simp: publish_device_cert_def demo_b64_def bytes one demo_publish_def ok_status_def)
  from publish_cert_needs_account_key [OF st'] have "\<exists>acc key cert'. verify_device_cert demo_lib acc ''d'' key 3 9 cert' = Inr ()"
    by (auto simp: demo_publish_def)
  with st' show ?thesis by blast
qed

end
