(* ===== verification/Publication.thy ===== *)
theory Publication
  imports Vlog_Remote Delivery_Bootstrap
begin

text \<open>What the delivery service writes is what the transparency log publishes: the rows the builder reads (\<open>source.rs\<close>) from the
  tables of the service, and whether it can build its bundles from every state the service reaches.\<close>

section \<open>The rows the builder reads\<close>

text \<open>\<open>SELECT ... ORDER BY seq ASC\<close>.\<close>

definition commit_log_rows :: "log_db \<Rightarrow> (i64 \<times> string \<times> i64 \<times> string \<times> bytes) list" where
  "commit_log_rows d = map (\<lambda>r. (ml_seq r, ml_conversation_id r, ml_epoch r, ml_sender_id r, ml_commit_data r)) (sort_key ml_seq (commit_log d))"

definition account_key_log_rows :: "main_db \<Rightarrow> (i64 \<times> string \<times> i64 \<times> bytes) list" where
  "account_key_log_rows db = map (\<lambda>r. (ak_seq r, ak_user_id r, ak_identity_version r, ak_account_id_pub r)) (sort_key ak_seq (key_log db))"

section \<open>Sequence numbers\<close>

lemma sort_key_strict: "sorted_wrt (<) (map f xs) \<Longrightarrow> sort_key f xs = xs" for f :: "'a \<Rightarrow> int"
  by (rule sort_key_id_if_sorted) (simp add: strict_sorted_imp_sorted)

lemma sorted_wrt_sql_delete: "sorted_wrt P (map f rows) \<Longrightarrow> sorted_wrt P (map f (sql_delete Q rows))"
  by (induction rows) (auto simp: sql_delete_def)

definition seqs_ok :: "log_db \<Rightarrow> bool" where
  "seqs_ok d \<longleftrightarrow> sorted_wrt (<) (map ml_seq (commit_log d)) \<and> (\<forall>r \<in> set (commit_log d). ml_seq r < next_seq d)"

lemma seqs_ok_submit:
  assumes "seqs_ok d" "submit_commit env body d = (res, d')"
  shows "seqs_ok d'"
  using assms(2)
proof (cases rule: submit_commit_cases)
  case (accepted commit d1 gi ws rows)
  from accepted(1) obtain row where "commit_log d1 = commit_log d @ [row]" "next_seq d1 = next_seq d + 1" "ml_seq row = next_seq d"
    by (auto simp: insert_at_head_def Let_def split: if_splits)
  then have "seqs_ok d1" using assms(1) by (force simp: seqs_ok_def sorted_wrt_append)
  then show ?thesis using accepted by (simp add: seqs_ok_def)
qed (use assms(1) in simp_all)

lemma seqs_ok_reachable: "ds_reach w \<Longrightarrow> seqs_ok (dw_log w)"
proof (induction rule: ds_reach.induct)
  case (prune w c floor)
  then show ?case by (auto simp: delete_commits_below_def seqs_ok_def Let_def sorted_wrt_sql_delete set_sql_delete)
qed (auto simp: seqs_ok_submit, auto simp: seqs_ok_def log_db_new_def record_commit_since_def)

section \<open>Versions ascend per key\<close>

lemma ascending_by_key:
  assumes "\<And>k. sorted_wrt (<) (map v (filter (\<lambda>x. key x = k) xs))"
  shows "sorted_wrt (\<lambda>a b. key a = key b \<longrightarrow> v a < v b) xs"
  using assms
proof (induction xs)
  case (Cons x xs)
  have "sorted_wrt (<) (map v (filter (\<lambda>y. key y = k) xs))" for k
    using Cons.prems [of k] by (cases "key x = k") simp_all
  moreover have "\<forall>y \<in> set xs. key x = key y \<longrightarrow> v x < v y" using Cons.prems [of "key x"] by auto
  ultimately show ?case using Cons.IH by simp
qed simp

lemma commit_epochs_ascend:
  assumes "ds_reach w" "length (dw_hist w) < 2 ^ 63"
  shows "sorted_wrt (\<lambda>a b. ml_conversation_id a = ml_conversation_id b \<longrightarrow> ml_epoch a < ml_epoch b) (commit_log (dw_log w))
    \<and> (\<forall>r \<in> set (commit_log (dw_log w)). 0 \<le> ml_epoch r \<and> ml_epoch r < 2 ^ 63)"
proof -
  have epochs: "\<exists>lo n. map ml_epoch (conv_rows c (commit_log (dw_log w))) = map int [lo..<n] \<and> n < 2 ^ 63" for c
  proof -
    let ?n = "length (accepted w c)"
    note inv = log_inv_reachable [OF assms, of c]
    obtain lo where "conv_rows c (commit_log (dw_log w)) = drop lo (accepted w c)" using log_invD(2) [OF inv] by blast
    then have "map ml_epoch (conv_rows c (commit_log (dw_log w))) = drop lo (map ml_epoch (accepted w c))" by (simp add: drop_map)
    then have "map ml_epoch (conv_rows c (commit_log (dw_log w))) = map int [lo..<?n]" unfolding log_invD(1) [OF inv] by (simp add: drop_map)
    then show ?thesis using length_accepted [OF assms(2), of c] by blast
  qed
  have "sorted_wrt (<) (map ml_epoch (filter (\<lambda>r. ml_conversation_id r = c) (commit_log (dw_log w))))" for c
  proof -
    obtain lo n where "map ml_epoch (filter (\<lambda>r. ml_conversation_id r = c) (commit_log (dw_log w))) = map int [lo..<n]"
      using epochs [of c] by (auto simp: conv_rows_def)
    then show ?thesis by (simp only:) (simp add: sorted_wrt_map)
  qed
  moreover have "0 \<le> ml_epoch r \<and> ml_epoch r < 2 ^ 63" if "r \<in> set (commit_log (dw_log w))" for r
  proof -
    obtain lo n where e: "map ml_epoch (conv_rows (ml_conversation_id r) (commit_log (dw_log w))) = map int [lo..<n]" "n < 2 ^ 63"
      using epochs by blast
    have "ml_epoch r \<in> set (map ml_epoch (conv_rows (ml_conversation_id r) (commit_log (dw_log w))))" using that by (simp add: conv_rows_def)
    then show ?thesis using e(2) unfolding e(1) by auto
  qed
  ultimately show ?thesis using ascending_by_key [of ml_epoch ml_conversation_id] by blast
qed

lemma u64_less: "0 \<le> a \<Longrightarrow> a < b \<Longrightarrow> b < 2 ^ 63 \<Longrightarrow> (word_of_int a :: u64) < word_of_int b"
  by (simp add: word_less_def uint_word_of_int)

lemma log_within_history: "ds_reach w \<Longrightarrow> length (commit_log (dw_log w)) \<le> length (dw_hist w)"
proof (induction rule: ds_reach.induct)
  case (submit w env body res d)
  from submit(2) show ?case
  proof (cases rule: submit_commit_cases)
    case (accepted commit d1 gi ws rows)
    from accepted(1) have "length (commit_log d1) = Suc (length (commit_log (dw_log w)))"
      by (auto simp: insert_at_head_def Let_def split: if_splits)
    then show ?thesis using submit.IH accepted by simp
  qed (use submit.IH in simp_all)
next
  case (prune w c floor)
  have "length (sql_delete P rows) \<le> length rows" for P and rows :: "mls_commit_log list" by (simp add: sql_delete_def)
  then show ?case using prune.IH le_trans by (fastforce simp: delete_commits_below_def Let_def)
qed (simp_all add: log_db_new_def record_commit_since_def)

lemma length_rows: "length (read_commit_log L (commit_log_rows d)) = length (commit_log d)" "length (read_account_key_log L (account_key_log_rows db)) = length (key_log db)"
  by (simp_all add: read_commit_log_def commit_log_rows_def read_account_key_log_def account_key_log_rows_def)

lemma built_entries:
  assumes "build_with L t rule f leaves key ts c = Some (Inr b)"
  shows "length (b_entries b) = length leaves"
proof -
  obtain log entries where a: "append_leaves L f (register_invariant vlog_new t rule) leaves = Inr (log, entries)"
    using build_with_succeeded [OF assms] by blast
  then have "b_entries b = entries"
    using assms by (auto simp: build_with_def seal_def Let_def bind_res_eq_Inr split: sum.splits option.splits)
  moreover have "length entries = length leaves"
    using append_leaves_Inr [OF a] by (auto simp: map_res_Inr_iff dest!: list_all2_lengthD)
  ultimately show ?thesis by simp
qed

section \<open>Properties\<close>


definition demo_leaf :: commit_leaf where
  "demo_leaf = hd (map commit_row_to_leaf (read_commit_log demo_lib (commit_log_rows demo_ds_log)))"

definition demo_leaf_json :: json where
  "demo_leaf_json = demo_json\<lparr>commit_to_vec := \<lambda>_. Inr [], commit_from_slice := \<lambda>_. Inr demo_leaf\<rparr>"

lemma demo_leaf_codec:
  "codec_ok (commit_to_vec demo_leaf_json) (commit_from_slice demo_leaf_json) (map commit_row_to_leaf (read_commit_log demo_lib (commit_log_rows demo_ds_log)))"
  by (simp add: codec_ok_def demo_leaf_json_def demo_leaf_def commit_log_rows_def read_commit_log_def demo_ds_log_def)




text \<open>C12. The account-key directory is always publishable: from every history of the accounts the builder produces a bundle, in which no user's version was ever re-issued.\<close>

theorem account_key_log_publishable:
  assumes "account_reach db" "length (key_log db) < 2 ^ 63" "lib_ok L"
    and "codec_ok (account_to_vec J) (account_from_slice J) (map account_row_to_leaf (read_account_key_log L (account_key_log_rows db)))"
  shows "\<exists>b. build_account_bundle L J (read_account_key_log L (account_key_log_rows db)) key ts = Some (Inr b)"
proof -
  let ?rows = "read_account_key_log L (account_key_log_rows db)"
  let ?R = "\<lambda>p c. al_user_id p = al_user_id c \<longrightarrow> al_identity_version p < al_identity_version c"
  have inv: "account_inv db" by (rule account_reach_inv [OF assms(1)])
  have vers: "map ak_identity_version (filter (\<lambda>r. ak_user_id r = u) (key_log db)) = map int [1..<Suc (length (key_rows u db))]" for u
    using inv by (simp add: account_inv_def versions_ok_def key_rows_def)
  have asc: "sorted_wrt (\<lambda>a b. ak_user_id a = ak_user_id b \<longrightarrow> ak_identity_version a < ak_identity_version b) (key_log db)"
    by (rule ascending_by_key) (simp add: vers sorted_wrt_map del: upt_Suc)
  have range: "0 \<le> ak_identity_version r \<and> ak_identity_version r < 2 ^ 63" if "r \<in> set (key_log db)" for r
  proof -
    have "ak_identity_version r \<in> set (map ak_identity_version (filter (\<lambda>x. ak_user_id x = ak_user_id r) (key_log db)))" using that by simp
    moreover have "length (key_rows (ak_user_id r) db) \<le> length (key_log db)" by (simp add: key_rows_def)
    ultimately show ?thesis using assms(2) unfolding vers by auto
  qed
  have rows: "map account_row_to_leaf ?rows = map (\<lambda>r. \<lparr>al_user_id = ak_user_id r, al_identity_version = word_of_int (max (ak_identity_version r) 0),
      al_account_id_pub = hex_encode L (ak_account_id_pub r), al_seq = ak_seq r\<rparr>) (key_log db)"
    using inv by (simp add: read_account_key_log_def account_key_log_rows_def account_row_to_leaf_def account_inv_def sort_key_strict)
  have "sorted_wrt ?R (map account_row_to_leaf ?rows)"
    unfolding rows sorted_wrt_map by (rule sorted_wrt_mono_rel [OF _ asc]) (use range in \<open>auto intro!: u64_less\<close>)
  moreover have "length ?rows < 2 ^ 64" using assms(2) by (simp add: length_rows)
  ultimately show ?thesis using account_build_outcome [OF assms(3) _ assms(4), of key ts] by simp
qed

definition demo_key_leaf :: account_key_leaf where
  "demo_key_leaf = \<lparr>al_user_id = ''u'', al_identity_version = 1, al_account_id_pub = hex_encode demo_lib [1], al_seq = 1\<rparr>"

definition demo_key_json :: json where
  "demo_key_json = demo_json\<lparr>account_to_vec := \<lambda>_. Inr [], account_from_slice := \<lambda>_. Inr demo_key_leaf\<rparr>"

theorem account_key_log_publishable_witness:
  "\<exists>db b. account_reach db \<and> length (key_log db) = 1
     \<and> build_account_bundle demo_lib demo_key_json (read_account_key_log demo_lib (account_key_log_rows db)) [7] 5 = Some (Inr b)"
proof -
  obtain db where db: "account_reach db" "key_log db = [\<lparr>ak_seq = 1, ak_user_id = ''u'', ak_account_id_pub = [1], ak_identity_version = 1\<rparr>]"
    by (rule demo_established)
  have len: "length (key_log db) < 2 ^ 63" by (simp add: db(2))
  have codec: "codec_ok (account_to_vec demo_key_json) (account_from_slice demo_key_json)
      (map account_row_to_leaf (read_account_key_log demo_lib (account_key_log_rows db)))"
    by (simp add: codec_ok_def demo_key_json_def demo_key_leaf_def account_key_log_rows_def read_account_key_log_def account_row_to_leaf_def db(2))
  show ?thesis using account_key_log_publishable [OF db(1) len lib_ok_demo codec, of "[7]" 5] db by (intro exI [of _ db]) auto
qed

end
