(* ===== verification/Wire.thy ===== *)
theory Wire
  imports Prelude
begin

text \<open>Reading and writing byte streams, for the wire protocols of the relay: the fixed-size reads of \<open>AsyncReadExt\<close>, UTF-8 validity of
  \<open>String::from_utf8\<close>, and the interface of a frame format, a writer and a reader that undoes it and leaves the rest of the stream.\<close>

type_synonym ('e, 'a) reader = "bytes \<Rightarrow> 'e + 'a \<times> bytes"

section \<open>Primitive reads\<close>

text \<open>\<open>read_exact\<close> of \<open>n\<close> bytes fails at the end of the stream; the error is an argument.\<close>

definition read_exact :: "'e \<Rightarrow> nat \<Rightarrow> ('e, bytes) reader" where
  "read_exact eof n s = (if length s < n then Inl eof else Inr (take n s, drop n s))"

definition read_u8 :: "'e \<Rightarrow> ('e, byte) reader" where
  "read_u8 eof s = bind_res (read_exact eof 1 s) (\<lambda>(b, r). Inr (hd b, r))"

definition read_be :: "'e \<Rightarrow> nat \<Rightarrow> ('e, 'w::len word) reader" where
  "read_be eof n s = bind_res (read_exact eof n s) (\<lambda>(b, r). Inr (from_be_bytes b, r))"

definition read_i64 :: "'e \<Rightarrow> ('e, i64) reader" where
  "read_i64 eof s = bind_res (read_be eof 8 s) (\<lambda>(w :: u64, r). Inr (sint w, r))"

definition i64_bytes :: "i64 \<Rightarrow> bytes" where
  "i64_bytes i = be_bytes 8 (word_of_int i :: u64)"

lemma read_exact_append [simp]: "length b = n \<Longrightarrow> read_exact eof n (b @ r) = Inr (b, r)"
  by (simp add: read_exact_def)

lemma read_u8_Cons [simp]: "read_u8 eof (b # r) = Inr (b, r)"
  by (simp add: read_u8_def read_exact_def)

lemma length_i64_bytes [simp]: "length (i64_bytes i) = 8"
  by (simp add: i64_bytes_def)

lemma be_bytes_Suc: "be_bytes (Suc n) w = be_bytes n (drop_bit 8 w) @ [ucast w]"
proof -
  have "rev [0..<Suc n] = map Suc (rev [0..<n]) @ [0]"
    by (simp add: map_Suc_upt [symmetric] upt_conv_Cons rev_map [symmetric] del: upt_Suc)
  then show ?thesis by (simp add: be_bytes_def comp_def add.commute del: upt_Suc)
qed

lemma from_be_bytes_snoc: "from_be_bytes (b @ [x]) = push_bit 8 (from_be_bytes b) + ucast x"
  by (simp add: from_be_bytes_def)

lemma from_be_bytes_take_bit: "from_be_bytes (be_bytes n w) = take_bit (8 * n) (w :: 'w::len word)"
proof (induction n arbitrary: w)
  case 0
  show ?case by (simp add: be_bytes_def from_be_bytes_def)
next
  case (Suc n)
  have "from_be_bytes (be_bytes (Suc n) w) = push_bit 8 (take_bit (8 * n) (drop_bit 8 w)) + ucast (ucast w :: byte)"
    by (simp add: be_bytes_Suc from_be_bytes_snoc Suc.IH)
  also have "\<dots> = or (push_bit 8 (take_bit (8 * n) (drop_bit 8 w))) (ucast (ucast w :: byte))"
    by (rule disjunctive_add) (auto simp: bit_simps)
  also have "\<dots> = take_bit (8 * Suc n) w"
    by (rule bit_word_eqI) (auto simp: bit_simps)
  finally show ?case .
qed

lemma from_be_bytes_inverse [simp]: "LENGTH('w::len) \<le> 8 * n \<Longrightarrow> from_be_bytes (be_bytes n (w :: 'w word)) = w"
  by (simp add: from_be_bytes_take_bit take_bit_word_eq_self)

lemma read_be_append [simp]: "LENGTH('w::len) \<le> 8 * n \<Longrightarrow> read_be eof n (be_bytes n (w :: 'w word) @ r) = Inr (w, r)"
  by (simp add: read_be_def)

lemma read_i64_append [simp]:
  assumes "- (2 ^ 63) \<le> i" "i < 2 ^ 63"
  shows "read_i64 eof (i64_bytes i @ r) = Inr (i, r)"
  using assms by (simp add: read_i64_def i64_bytes_def sint_sbintrunc' signed_take_bit_int_eq_self)

section \<open>UTF-8\<close>

definition cont_byte :: "byte \<Rightarrow> bool" where
  "cont_byte b \<longleftrightarrow> 0x80 \<le> b \<and> b \<le> 0xBF"

fun utf8_valid :: "bytes \<Rightarrow> bool" where
  "utf8_valid [] = True"
| "utf8_valid (a # s) =
     (if a < 0x80 then utf8_valid s
      else case s of
        [] \<Rightarrow> False
      | b # s2 \<Rightarrow>
          if 0xC2 \<le> a \<and> a \<le> 0xDF then cont_byte b \<and> utf8_valid s2
          else case s2 of
            [] \<Rightarrow> False
          | c # s3 \<Rightarrow>
              if a = 0xE0 then 0xA0 \<le> b \<and> b \<le> 0xBF \<and> cont_byte c \<and> utf8_valid s3
              else if a = 0xED then 0x80 \<le> b \<and> b \<le> 0x9F \<and> cont_byte c \<and> utf8_valid s3
              else if 0xE1 \<le> a \<and> a \<le> 0xEF then cont_byte b \<and> cont_byte c \<and> utf8_valid s3
              else case s3 of
                [] \<Rightarrow> False
              | d # s4 \<Rightarrow>
                  if a = 0xF0 then 0x90 \<le> b \<and> b \<le> 0xBF \<and> cont_byte c \<and> cont_byte d \<and> utf8_valid s4
                  else if 0xF1 \<le> a \<and> a \<le> 0xF3 then cont_byte b \<and> cont_byte c \<and> cont_byte d \<and> utf8_valid s4
                  else if a = 0xF4 then 0x80 \<le> b \<and> b \<le> 0x8F \<and> cont_byte c \<and> cont_byte d \<and> utf8_valid s4
                  else False)"

definition from_utf8 :: "bytes \<Rightarrow> string option" where
  "from_utf8 b = (if utf8_valid b then Some (map char_of_byte b) else None)"

lemma from_utf8_as_bytes [simp]: "utf8_valid (as_bytes s) \<Longrightarrow> from_utf8 (as_bytes s) = Some s"
  by (simp add: from_utf8_def as_bytes_def comp_def)

lemma as_bytes_from_utf8: "from_utf8 b = Some s \<Longrightarrow> as_bytes s = b"
  by (auto simp: from_utf8_def as_bytes_def comp_def split: if_splits)

lemma utf8_valid_ascii: "(\<And>b. b \<in> set bs \<Longrightarrow> b < 0x80) \<Longrightarrow> utf8_valid bs"
  by (induction bs) auto

section \<open>Frame formats\<close>

locale frame_format =
  fixes put :: "'a \<Rightarrow> 'e + bytes"
    and get :: "('e, 'a) reader"
    and ok :: "'a \<Rightarrow> bool"
  assumes put_total: "ok x \<Longrightarrow> \<exists>b. put x = Inr b"
    and get_put: "ok x \<Longrightarrow> put x = Inr b \<Longrightarrow> get (b @ r) = Inr (x, r)"
begin

lemma frame_roundtrip: "ok x \<Longrightarrow> \<exists>b. put x = Inr b \<and> (\<forall>r. get (b @ r) = Inr (x, r))"
  using put_total get_put by blast

lemma frame_prefix_free:
  assumes "ok x" "ok y" "put x = Inr b" "put y = Inr c" "b @ r = c @ s"
  shows "x = y \<and> r = s"
proof -
  have "get (b @ r) = Inr (x, r)" "get (c @ s) = Inr (y, s)" using assms get_put by blast+
  with assms(5) show ?thesis by simp
qed

end

text \<open>Two frames written one after the other are read back in order.\<close>

locale frame_pair = one: frame_format put1 get1 ok1 + two: frame_format put2 get2 ok2
  for put1 :: "'a \<Rightarrow> 'e + bytes" and get1 ok1 and put2 :: "'b \<Rightarrow> 'e + bytes" and get2 ok2
begin

lemma frames_pipelined:
  assumes "ok1 x" "ok2 y"
  shows "\<exists>b c. put1 x = Inr b \<and> put2 y = Inr c \<and> get1 (b @ c @ r) = Inr (x, c @ r) \<and> get2 (c @ r) = Inr (y, r)"
  using one.frame_roundtrip [OF assms(1)] two.frame_roundtrip [OF assms(2)] by blast

end

end
