(* ===== verification/Relay_Proto.thy ===== *)
theory Relay_Proto
  imports Device_Cert Wire Delivery_Auth
begin

text \<open>The wire protocol of the relay (\<open>pollis-relay/src/proto.rs\<close>): handshake, connect and response frames, the canonical message a device signs and
  the offline check of a handshake. A frame is written as the bytes it puts on the stream and read from the bytes that arrived before the stream ended;
  fixed-size arrays are byte lists, their sizes the predicate \<open>handshake_wf\<close>. Errors of the transport carry no detail.\<close>

definition PROTOCOL_VERSION :: byte where "PROTOCOL_VERSION = 2"
definition HANDSHAKE_DOMAIN :: string where "HANDSHAKE_DOMAIN = ''pollis-relay-v2''"
definition MAX_SKEW_SECS :: i64 where "MAX_SKEW_SECS = 300"
definition MSG_HANDSHAKE :: byte where "MSG_HANDSHAKE = 1"
definition MSG_CONNECT :: byte where "MSG_CONNECT = 2"
definition STATUS_OK :: byte where "STATUS_OK = 0"
definition STATUS_REJECTED :: byte where "STATUS_REJECTED = 1"
definition MAX_STRING_LEN :: nat where "MAX_STRING_LEN = 1024"
definition NONCE_LEN :: nat where "NONCE_LEN = 32"

lemmas proto_consts = PROTOCOL_VERSION_def MSG_HANDSHAKE_def MSG_CONNECT_def STATUS_OK_def STATUS_REJECTED_def MAX_STRING_LEN_def NONCE_LEN_def

datatype reject_reason = RNotAllowed | RUnauthorized | RDialFailed | RBadRequest | RRateLimited | RInternal

datatype proto_error = ProtoIo | BadVersion byte | BadMessageType byte | Malformed string | ProtoRejected reject_reason

fun to_code :: "reject_reason \<Rightarrow> byte" where
  "to_code RNotAllowed = 1"
| "to_code RUnauthorized = 2"
| "to_code RDialFailed = 3"
| "to_code RBadRequest = 4"
| "to_code RRateLimited = 6"
| "to_code RInternal = 5"

definition from_code :: "byte \<Rightarrow> reject_reason" where
  "from_code code = (if code = 1 then RNotAllowed else if code = 2 then RUnauthorized else if code = 3 then RDialFailed
     else if code = 4 then RBadRequest else if code = 6 then RRateLimited else RInternal)"

record device_cert_material =
  dm_account_id_pub :: bytes
  dm_device_cert :: bytes
  dm_identity_version :: u32
  dm_issued_at :: u64

record handshake =
  hs_user_id :: string
  hs_device_id :: string
  hs_device_signing_pub :: bytes
  hs_cert :: device_cert_material
  hs_timestamp :: i64
  hs_nonce :: bytes
  hs_signature :: bytes

record connect =
  cn_host :: string
  cn_port :: u16

record verified_client =
  vc_user_id :: string
  vc_account_id_pub :: bytes

section \<open>Signing and checking a handshake\<close>

text \<open>\<open>mint\<close> panics (\<open>None\<close>) when a field does not fit its length byte.\<close>

definition mint_cert :: "lib \<Rightarrow> bytes \<Rightarrow> string \<Rightarrow> bytes \<Rightarrow> u32 \<Rightarrow> u64 \<Rightarrow> device_cert_material option" where
  "mint_cert L account device_id device_signing_pub identity_version issued_at =
     (case device_cert_signed_payload device_id device_signing_pub identity_version issued_at of
        Inl _ \<Rightarrow> None
      | Inr payload \<Rightarrow> Some \<lparr>dm_account_id_pub = ed_public L account, dm_device_cert = ed_sign L account payload,
                            dm_identity_version = identity_version, dm_issued_at = issued_at\<rparr>)"

definition relay_hex_lower :: "bytes \<Rightarrow> string" where
  "relay_hex_lower bs = concat (map (\<lambda>b. [HEX_DIGITS ! unat (drop_bit 4 b), HEX_DIGITS ! unat (and b 15)]) bs)"

definition handshake_canonical_bytes :: "lib \<Rightarrow> string \<Rightarrow> string \<Rightarrow> i64 \<Rightarrow> bytes \<Rightarrow> bytes" where
  "handshake_canonical_bytes L user_id device_id timestamp nonce =
     as_bytes (HANDSHAKE_DOMAIN @ [CHR 0x0A] @ user_id @ [CHR 0x0A] @ device_id @ [CHR 0x0A] @ show_int timestamp
       @ [CHR 0x0A] @ relay_hex_lower (sha256 L nonce))"

definition sign_handshake :: "lib \<Rightarrow> bytes \<Rightarrow> string \<Rightarrow> string \<Rightarrow> device_cert_material \<Rightarrow> i64 \<Rightarrow> bytes \<Rightarrow> handshake" where
  "sign_handshake L signing_key user_id device_id cert timestamp nonce =
     \<lparr>hs_user_id = user_id, hs_device_id = device_id, hs_device_signing_pub = ed_public L signing_key, hs_cert = cert,
      hs_timestamp = timestamp, hs_nonce = nonce,
      hs_signature = ed_sign L signing_key (handshake_canonical_bytes L user_id device_id timestamp nonce)\<rparr>"

definition outside_skew :: "i64 \<Rightarrow> i64 \<Rightarrow> bool" where
  "outside_skew now timestamp \<longleftrightarrow> wrap_i64 \<bar>wrap_i64 (now - timestamp)\<bar> > MAX_SKEW_SECS"

definition verify_handshake :: "lib \<Rightarrow> handshake \<Rightarrow> i64 \<Rightarrow> reject_reason + verified_client" where
  "verify_handshake L hs now =
     (if hs_user_id hs = [] \<or> hs_device_id hs = [] then Inl RUnauthorized
      else if outside_skew now (hs_timestamp hs) then Inl RUnauthorized
      else case ed_from_bytes L (hs_device_signing_pub hs) of
        None \<Rightarrow> Inl RUnauthorized
      | Some device_key \<Rightarrow>
          let msg = handshake_canonical_bytes L (hs_user_id hs) (hs_device_id hs) (hs_timestamp hs) (hs_nonce hs)
          in if \<not> ed_verify L device_key msg (hs_signature hs) then Inl RUnauthorized
             else bind_res (map_err (\<lambda>_. RUnauthorized) (verify_device_cert L (dm_account_id_pub (hs_cert hs)) (hs_device_id hs)
                    (hs_device_signing_pub hs) (dm_identity_version (hs_cert hs)) (dm_issued_at (hs_cert hs)) (dm_device_cert (hs_cert hs)))) (\<lambda>_.
                  Inr \<lparr>vc_user_id = hs_user_id hs, vc_account_id_pub = dm_account_id_pub (hs_cert hs)\<rparr>))"

section \<open>Frames\<close>

definition write_string :: "string \<Rightarrow> proto_error + bytes" where
  "write_string s = (if length s > MAX_STRING_LEN then Inl (Malformed ''string too long'')
     else Inr (be_bytes 2 (word_of_nat (length s) :: u16) @ as_bytes s))"

definition read_string :: "(proto_error, string) reader" where
  "read_string s = bind_res (read_be ProtoIo 2 s) (\<lambda>(w :: u16, r).
     if unat w > MAX_STRING_LEN then Inl (Malformed ''string too long'')
     else bind_res (read_exact ProtoIo (unat w) r) (\<lambda>(buf, r).
       case from_utf8 buf of None \<Rightarrow> Inl (Malformed ''invalid utf-8'') | Some t \<Rightarrow> Inr (t, r)))"

definition write_handshake :: "handshake \<Rightarrow> proto_error + bytes" where
  "write_handshake hs =
     bind_res (write_string (hs_user_id hs)) (\<lambda>user_id.
     bind_res (write_string (hs_device_id hs)) (\<lambda>device_id.
       Inr (PROTOCOL_VERSION # MSG_HANDSHAKE # user_id @ device_id @ hs_device_signing_pub hs @ dm_account_id_pub (hs_cert hs)
         @ be_bytes 4 (dm_identity_version (hs_cert hs)) @ be_bytes 8 (dm_issued_at (hs_cert hs)) @ dm_device_cert (hs_cert hs)
         @ i64_bytes (hs_timestamp hs) @ word_of_nat NONCE_LEN # hs_nonce hs @ hs_signature hs)))"

definition read_header :: "byte \<Rightarrow> (proto_error, unit) reader" where
  "read_header msg s =
     bind_res (read_u8 ProtoIo s) (\<lambda>(version, s).
     if version \<noteq> PROTOCOL_VERSION then Inl (BadVersion version)
     else bind_res (read_u8 ProtoIo s) (\<lambda>(msg_type, s). if msg_type \<noteq> msg then Inl (BadMessageType msg_type) else Inr ((), s)))"

definition read_handshake :: "(proto_error, handshake) reader" where
  "read_handshake s =
     bind_res (read_header MSG_HANDSHAKE s) (\<lambda>(_, s).
     bind_res (read_string s) (\<lambda>(user_id, s).
     bind_res (read_string s) (\<lambda>(device_id, s).
     bind_res (read_exact ProtoIo 32 s) (\<lambda>(device_signing_pub, s).
     bind_res (read_exact ProtoIo 32 s) (\<lambda>(account_id_pub, s).
     bind_res (read_be ProtoIo 4 s) (\<lambda>(identity_version, s).
     bind_res (read_be ProtoIo 8 s) (\<lambda>(issued_at, s).
     bind_res (read_exact ProtoIo 64 s) (\<lambda>(device_cert, s).
     bind_res (read_i64 ProtoIo s) (\<lambda>(timestamp, s).
     bind_res (read_u8 ProtoIo s) (\<lambda>(nonce_len, s).
     if unat nonce_len \<noteq> NONCE_LEN then Inl (Malformed ''bad nonce length'')
     else bind_res (read_exact ProtoIo NONCE_LEN s) (\<lambda>(nonce, s).
     bind_res (read_exact ProtoIo 64 s) (\<lambda>(signature, s).
       Inr (\<lparr>hs_user_id = user_id, hs_device_id = device_id, hs_device_signing_pub = device_signing_pub,
         hs_cert = \<lparr>dm_account_id_pub = account_id_pub, dm_device_cert = device_cert, dm_identity_version = identity_version,
           dm_issued_at = issued_at\<rparr>, hs_timestamp = timestamp, hs_nonce = nonce, hs_signature = signature\<rparr>, s)))))))))))))"

definition write_connect :: "connect \<Rightarrow> proto_error + bytes" where
  "write_connect c = bind_res (write_string (cn_host c)) (\<lambda>host. Inr (PROTOCOL_VERSION # MSG_CONNECT # host @ be_bytes 2 (cn_port c)))"

definition read_connect :: "(proto_error, connect) reader" where
  "read_connect s =
     bind_res (read_header MSG_CONNECT s) (\<lambda>(_, s).
     bind_res (read_string s) (\<lambda>(host, s).
     bind_res (read_be ProtoIo 2 s) (\<lambda>(port, s). Inr (\<lparr>cn_host = host, cn_port = port\<rparr>, s))))"

definition write_response :: "reject_reason + unit \<Rightarrow> proto_error + bytes" where
  "write_response result =
     (case result of
        Inr _ \<Rightarrow> Inr [PROTOCOL_VERSION, STATUS_OK]
      | Inl reason \<Rightarrow> bind_res (write_string []) (\<lambda>detail. Inr (PROTOCOL_VERSION # STATUS_REJECTED # to_code reason # detail)))"

text \<open>\<open>read_response\<close> answers \<open>Ok\<close> or the rejection as an error, and here also what is left of the stream.\<close>

definition read_response :: "bytes \<Rightarrow> proto_error + bytes" where
  "read_response s =
     bind_res (read_u8 ProtoIo s) (\<lambda>(version, s).
     if version \<noteq> PROTOCOL_VERSION then Inl (BadVersion version)
     else bind_res (read_u8 ProtoIo s) (\<lambda>(status, s).
       if status = STATUS_OK then Inr s
       else if status = STATUS_REJECTED
       then bind_res (read_u8 ProtoIo s) (\<lambda>(code, s). bind_res (read_string s) (\<lambda>(_, s). Inl (ProtoRejected (from_code code))))
       else Inl (Malformed ''bad status'')))"

section \<open>Round trips\<close>

definition string_ok :: "string \<Rightarrow> bool" where
  "string_ok s \<longleftrightarrow> length s \<le> MAX_STRING_LEN \<and> utf8_valid (as_bytes s)"

definition handshake_wf :: "handshake \<Rightarrow> bool" where
  "handshake_wf hs \<longleftrightarrow> string_ok (hs_user_id hs) \<and> string_ok (hs_device_id hs) \<and> length (hs_device_signing_pub hs) = 32
     \<and> length (dm_account_id_pub (hs_cert hs)) = 32 \<and> length (dm_device_cert (hs_cert hs)) = 64
     \<and> - (2 ^ 63) \<le> hs_timestamp hs \<and> hs_timestamp hs < 2 ^ 63 \<and> length (hs_nonce hs) = NONCE_LEN \<and> length (hs_signature hs) = 64"

lemma unat_len_u16: "n \<le> MAX_STRING_LEN \<Longrightarrow> unat (word_of_nat n :: u16) = n"
  by (simp add: MAX_STRING_LEN_def unat_of_nat)

interpretation fstring: frame_format write_string read_string string_ok
proof
  fix x b r
  assume ok: "string_ok x"
  then show "\<exists>b. write_string x = Inr b" by (simp add: write_string_def string_ok_def)
  assume "write_string x = Inr b"
  with ok have "b = be_bytes 2 (word_of_nat (length x) :: u16) @ as_bytes x" by (simp add: write_string_def string_ok_def)
  with ok show "read_string (b @ r) = Inr (x, r)"
    by (simp add: read_string_def string_ok_def unat_len_u16)
qed

lemma read_written_string: "write_string x = Inr b \<Longrightarrow> string_ok x \<Longrightarrow> read_string (b @ r) = Inr (x, r)"
  using fstring.get_put by blast

lemma write_string_ok: "string_ok x \<Longrightarrow> \<exists>b. write_string x = Inr b"
  using fstring.put_total by blast

interpretation fhandshake: frame_format write_handshake read_handshake handshake_wf
proof
  fix x b r
  assume wf: "handshake_wf x"
  then obtain u d where ud: "write_string (hs_user_id x) = Inr u" "write_string (hs_device_id x) = Inr d"
    using write_string_ok unfolding handshake_wf_def by metis
  then show "\<exists>b. write_handshake x = Inr b" by (simp add: write_handshake_def)
  assume "write_handshake x = Inr b"
  with ud wf show "read_handshake (b @ r) = Inr (x, r)"
    by (auto simp: write_handshake_def read_handshake_def read_header_def handshake_wf_def read_written_string NONCE_LEN_def)
qed

interpretation fconnect: frame_format write_connect read_connect "\<lambda>c. string_ok (cn_host c)"
proof
  fix x :: connect and b r
  assume ok: "string_ok (cn_host x)"
  then obtain h where h: "write_string (cn_host x) = Inr h" using write_string_ok by blast
  then show "\<exists>b. write_connect x = Inr b" by (simp add: write_connect_def)
  assume "write_connect x = Inr b"
  with h ok show "read_connect (b @ r) = Inr (x, r)"
    by (auto simp: write_connect_def read_connect_def read_header_def read_written_string)
qed

interpretation fpipe: frame_pair write_handshake read_handshake handshake_wf write_connect read_connect "\<lambda>c. string_ok (cn_host c)"
  by unfold_locales

lemma from_to_code [simp]: "from_code (to_code r) = r"
  by (cases r) (simp_all add: from_code_def)

lemma read_written_response:
  "\<exists>b. write_response res = Inr b \<and> (\<forall>r. read_response (b @ r) = (case res of Inr _ \<Rightarrow> Inr r | Inl reason \<Rightarrow> Inl (ProtoRejected reason)))"
proof (cases res)
  case (Inl reason)
  obtain d where d: "write_string [] = Inr d" "\<And>r. read_string (d @ r) = Inr ([], r)"
    using fstring.frame_roundtrip [of "[]"] by (auto simp: string_ok_def as_bytes_def)
  then show ?thesis using Inl by (simp add: write_response_def read_response_def proto_consts)
next
  case (Inr _)
  then show ?thesis by (simp add: write_response_def read_response_def proto_consts)
qed

text \<open>C36. The frames of the relay protocol survive the wire: a handshake and a connect frame written one after the other are read back in that order,
  whatever follows them on the stream, and the client reads from a response frame the outcome the relay wrote.\<close>

theorem relay_frames_roundtrip:
  assumes "handshake_wf hs" "string_ok (cn_host c)"
  shows "\<exists>b b' b''. write_handshake hs = Inr b \<and> write_connect c = Inr b' \<and> write_response res = Inr b''
    \<and> read_handshake (b @ b' @ r) = Inr (hs, b' @ r) \<and> read_connect (b' @ r) = Inr (c, r)
    \<and> read_response (b'' @ r) = (case res of Inr _ \<Rightarrow> Inr r | Inl reason \<Rightarrow> Inl (ProtoRejected reason))"
  using fpipe.frames_pipelined [OF assms, of r] read_written_response [of res] by blast

definition demo_material :: device_cert_material where
  "demo_material = \<lparr>dm_account_id_pub = replicate 32 1, dm_device_cert = replicate 64 2, dm_identity_version = 3, dm_issued_at = 4\<rparr>"

definition demo_handshake :: handshake where
  "demo_handshake = \<lparr>hs_user_id = ''u'', hs_device_id = ''d'', hs_device_signing_pub = replicate 32 1, hs_cert = demo_material,
     hs_timestamp = -5, hs_nonce = replicate 32 0, hs_signature = replicate 64 0\<rparr>"

theorem relay_frames_roundtrip_witness:
  "\<exists>b b'. write_handshake demo_handshake = Inr b \<and> write_connect \<lparr>cn_host = ''turso.io'', cn_port = 443\<rparr> = Inr b'
     \<and> read_handshake (b @ b' @ [9]) = Inr (demo_handshake, b' @ [9]) \<and> read_connect (b' @ [9]) = Inr (\<lparr>cn_host = ''turso.io'', cn_port = 443\<rparr>, [9])"
proof -
  have "handshake_wf demo_handshake"
    by (simp add: handshake_wf_def demo_handshake_def demo_material_def string_ok_def proto_consts as_bytes_def byte_of_char_def)
  moreover have "string_ok (cn_host \<lparr>cn_host = ''turso.io'', cn_port = 443\<rparr>)"
    by (simp add: string_ok_def proto_consts as_bytes_def byte_of_char_def)
  ultimately show ?thesis using relay_frames_roundtrip [of demo_handshake "\<lparr>cn_host = ''turso.io'', cn_port = 443\<rparr>" "Inr ()" "[9]"] by blast
qed

section \<open>Handshakes\<close>

lemma within_skew:
  assumes "\<bar>now - ts\<bar> \<le> 300"
  shows "\<not> outside_skew now ts"
proof -
  have "wrap_i64 (now - ts) = now - ts" "wrap_i64 \<bar>now - ts\<bar> = \<bar>now - ts\<bar>" using assms by (intro wrap_i64_id; simp)+
  then show ?thesis using assms by (simp add: outside_skew_def MAX_SKEW_SECS_def)
qed

lemma verify_handshake_iff:
  "verify_handshake L hs now = Inr vc \<longleftrightarrow>
     hs_user_id hs \<noteq> [] \<and> hs_device_id hs \<noteq> [] \<and> \<not> outside_skew now (hs_timestamp hs)
     \<and> (\<exists>key. ed_from_bytes L (hs_device_signing_pub hs) = Some key
          \<and> ed_verify L key (handshake_canonical_bytes L (hs_user_id hs) (hs_device_id hs) (hs_timestamp hs) (hs_nonce hs)) (hs_signature hs))
     \<and> verify_device_cert L (dm_account_id_pub (hs_cert hs)) (hs_device_id hs) (hs_device_signing_pub hs)
          (dm_identity_version (hs_cert hs)) (dm_issued_at (hs_cert hs)) (dm_device_cert (hs_cert hs)) = Inr ()
     \<and> vc = \<lparr>vc_user_id = hs_user_id hs, vc_account_id_pub = dm_account_id_pub (hs_cert hs)\<rparr>"
  by (auto simp: verify_handshake_def Let_def bind_res_eq_Inr split: if_splits option.splits)

lemma handshake_accepted:
  assumes "lib_ok L" "user \<noteq> []" "device \<noteq> []" "length device \<le> 255" "\<bar>now - ts\<bar> \<le> 300"
  shows "\<exists>cert. mint_cert L account device (ed_public L key) v t = Some cert
    \<and> verify_handshake L (sign_handshake L key user device cert ts nonce) now = Inr \<lparr>vc_user_id = user, vc_account_id_pub = ed_public L account\<rparr>"
proof -
  have ed: "length (ed_public L key) = 32" "\<And>k m. ed_from_bytes L (ed_public L k) = Some (ed_public L k) \<and> ed_verify L (ed_public L k) m (ed_sign L k m)"
    "\<And>k m. length (ed_public L k) = 32 \<and> length (ed_sign L k m) = 64"
    using assms(1) by (simp_all add: lib_ok_def ed25519_ok_def)
  with assms(4) obtain m where m: "device_cert_signed_payload device (ed_public L key) v t = Inr m"
    by (simp add: device_cert_signed_payload_def)
  moreover have "verify_device_cert L (ed_public L account) device (ed_public L key) v t (ed_sign L account m) = Inr ()"
    using m ed by (auto simp: verify_device_cert_iff)
  ultimately show ?thesis using ed assms(2,3) within_skew [OF assms(5)]
    by (simp add: mint_cert_def verify_handshake_iff sign_handshake_def)
qed

text \<open>A handshake signed by a device whose certificate its account key minted is accepted while the clocks differ by at most 300 seconds, and yields
  the account key of the certificate. The user id is whatever the client wrote: nothing binds it to the account.\<close>

theorem relay_accepts_any_user_id:
  assumes "lib_ok L" "user \<noteq> []" "device \<noteq> []" "length device \<le> 255" "\<bar>now - ts\<bar> \<le> 300"
  shows "\<exists>cert. mint_cert L account device (ed_public L key) v t = Some cert
    \<and> verify_handshake L (sign_handshake L key user device cert ts nonce) now = Inr \<lparr>vc_user_id = user, vc_account_id_pub = ed_public L account\<rparr>"
  using handshake_accepted [OF assms] .

theorem relay_accepts_any_user_id_witness:
  "\<exists>cert. mint_cert demo_lib [7] ''d'' (ed_public demo_lib [8]) 1 5 = Some cert
    \<and> verify_handshake demo_lib (sign_handshake demo_lib [8] ''somebody else'' ''d'' cert 900 []) 1000
        = Inr \<lparr>vc_user_id = ''somebody else'', vc_account_id_pub = ed_public demo_lib [7]\<rparr>"
  using relay_accepts_any_user_id [OF lib_ok_demo, of "''somebody else''" "''d''" 1000 900 "[7]" "[8]" 1 5 "[]"] by simp

end
