(* ===== verification/Relay_Limit.thy ===== *)
theory Relay_Limit
  imports Complex_Main Relay_Proto Text
begin

text \<open>Abuse control of the relay (\<open>pollis-relay/src/ratelimit.rs\<close>, the rate limits of \<open>config.rs\<close>): a token bucket and a cap on open
  circuits for every source address and every account. Floating-point results are exact rationals rounded by an argument \<open>rnd\<close>, one rounding per
  operation of the source; an \<open>Instant\<close> is a number of nanoseconds. The four maps have locks of their own, so concurrent admissions interleave
  between the statements of \<open>admit\<close>: \<open>circuits_reach\<close> steps through them one at a time.\<close>

section \<open>Configuration\<close>

record rate_limit_config =
  new_circuits_per_min_per_ip :: u32
  new_circuits_per_min_per_account :: u32
  max_concurrent_per_ip :: u32
  max_concurrent_per_account :: u32

definition rate_limit_default :: rate_limit_config where
  "rate_limit_default = \<lparr>new_circuits_per_min_per_ip = 600, new_circuits_per_min_per_account = 600,
     max_concurrent_per_ip = 256, max_concurrent_per_account = 128\<rparr>"

record rate_limit_file_config =
  rf_new_circuits_per_min_per_ip :: "u32 option"
  rf_new_circuits_per_min_per_account :: "u32 option"
  rf_max_concurrent_per_ip :: "u32 option"
  rf_max_concurrent_per_account :: "u32 option"

definition rate_limits :: "rate_limit_file_config option \<Rightarrow> rate_limit_config" where
  "rate_limits f =
     (let d = rate_limit_default in
      case f of
        None \<Rightarrow> d
      | Some r \<Rightarrow> \<lparr>new_circuits_per_min_per_ip = unwrap_or (new_circuits_per_min_per_ip d) (rf_new_circuits_per_min_per_ip r),
          new_circuits_per_min_per_account = unwrap_or (new_circuits_per_min_per_account d) (rf_new_circuits_per_min_per_account r),
          max_concurrent_per_ip = unwrap_or (max_concurrent_per_ip d) (rf_max_concurrent_per_ip r),
          max_concurrent_per_account = unwrap_or (max_concurrent_per_account d) (rf_max_concurrent_per_account r)\<rparr>)"

section \<open>Token buckets\<close>

record token_bucket =
  tb_tokens :: rat
  tb_capacity :: rat
  tb_refill_per_sec :: rat
  tb_last :: nat

definition token_bucket_new :: "(rat \<Rightarrow> rat) \<Rightarrow> u32 \<Rightarrow> nat \<Rightarrow> token_bucket" where
  "token_bucket_new rnd per_min now =
     (let capacity = rnd (of_nat (unat (max per_min 1)))
      in \<lparr>tb_tokens = capacity, tb_capacity = capacity, tb_refill_per_sec = rnd (capacity / 60), tb_last = now\<rparr>)"

text \<open>\<open>as_secs_f64\<close>: whole seconds plus the nanoseconds divided by a billion.\<close>

definition as_secs_f64 :: "(rat \<Rightarrow> rat) \<Rightarrow> nat \<Rightarrow> rat" where
  "as_secs_f64 rnd ns = rnd (rnd (of_nat (ns div 1000000000)) + rnd (rnd (of_nat (ns mod 1000000000)) / 1000000000))"

definition try_take :: "(rat \<Rightarrow> rat) \<Rightarrow> nat \<Rightarrow> token_bucket \<Rightarrow> bool \<times> token_bucket" where
  "try_take rnd now b =
     (let dt = as_secs_f64 rnd (now - tb_last b);
          tokens = min (rnd (tb_tokens b + rnd (dt * tb_refill_per_sec b))) (tb_capacity b)
      in if tokens \<ge> 1 then (True, b\<lparr>tb_last := now, tb_tokens := rnd (tokens - 1)\<rparr>)
         else (False, b\<lparr>tb_last := now, tb_tokens := tokens\<rparr>))"

section \<open>The limiter\<close>

type_synonym ip_addr = bytes

record limiter =
  rl_cfg :: rate_limit_config
  rl_ip_buckets :: "ip_addr \<rightharpoonup> token_bucket"
  rl_account_buckets :: "bytes \<rightharpoonup> token_bucket"
  rl_ip_active :: "ip_addr \<rightharpoonup> u32"
  rl_account_active :: "bytes \<rightharpoonup> u32"

definition limiter_new :: "rate_limit_config \<Rightarrow> limiter" where
  "limiter_new cfg = \<lparr>rl_cfg = cfg, rl_ip_buckets = Map.empty, rl_account_buckets = Map.empty, rl_ip_active = Map.empty, rl_account_active = Map.empty\<rparr>"

text \<open>The bodies \<open>reserve_ip\<close> and \<open>reserve_account\<close>, \<open>release_ip\<close> and \<open>release_account\<close> share, on the map of counters.\<close>

definition reserve_slot :: "u32 \<Rightarrow> bytes \<Rightarrow> (bytes \<rightharpoonup> u32) \<Rightarrow> bool \<times> (bytes \<rightharpoonup> u32)" where
  "reserve_slot cap k active =
     (let n = unwrap_or 0 (active k) in if n \<ge> cap then (False, active(k \<mapsto> n)) else (True, active(k \<mapsto> n + 1)))"

definition release_slot :: "bytes \<Rightarrow> (bytes \<rightharpoonup> u32) \<Rightarrow> (bytes \<rightharpoonup> u32)" where
  "release_slot k active =
     (case active k of
        None \<Rightarrow> active
      | Some n \<Rightarrow> let n' = (if n = 0 then 0 else n - 1) in if n' = 0 then active(k := None) else active(k \<mapsto> n'))"

definition reserve_ip :: "ip_addr \<Rightarrow> limiter \<Rightarrow> bool \<times> limiter" where
  "reserve_ip ip l = (let (ok, m) = reserve_slot (max_concurrent_per_ip (rl_cfg l)) ip (rl_ip_active l) in (ok, l\<lparr>rl_ip_active := m\<rparr>))"

definition reserve_account :: "bytes \<Rightarrow> limiter \<Rightarrow> bool \<times> limiter" where
  "reserve_account account l =
     (let (ok, m) = reserve_slot (max_concurrent_per_account (rl_cfg l)) account (rl_account_active l) in (ok, l\<lparr>rl_account_active := m\<rparr>))"

definition release_ip :: "ip_addr \<Rightarrow> limiter \<Rightarrow> limiter" where
  "release_ip ip l = l\<lparr>rl_ip_active := release_slot ip (rl_ip_active l)\<rparr>"

definition release_account :: "bytes \<Rightarrow> limiter \<Rightarrow> limiter" where
  "release_account account l = l\<lparr>rl_account_active := release_slot account (rl_account_active l)\<rparr>"

definition take_token :: "(rat \<Rightarrow> rat) \<Rightarrow> u32 \<Rightarrow> nat \<Rightarrow> bytes \<Rightarrow> (bytes \<rightharpoonup> token_bucket) \<Rightarrow> bool \<times> (bytes \<rightharpoonup> token_bucket)" where
  "take_token rnd per_min now k buckets =
     (let (ok, b) = try_take rnd now (unwrap_or (token_bucket_new rnd per_min now) (buckets k)) in (ok, buckets(k \<mapsto> b)))"

definition take_ip_token :: "(rat \<Rightarrow> rat) \<Rightarrow> nat \<Rightarrow> ip_addr \<Rightarrow> limiter \<Rightarrow> bool \<times> limiter" where
  "take_ip_token rnd now ip l =
     (let (ok, m) = take_token rnd (new_circuits_per_min_per_ip (rl_cfg l)) now ip (rl_ip_buckets l) in (ok, l\<lparr>rl_ip_buckets := m\<rparr>))"

definition take_account_token :: "(rat \<Rightarrow> rat) \<Rightarrow> nat \<Rightarrow> bytes \<Rightarrow> limiter \<Rightarrow> bool \<times> limiter" where
  "take_account_token rnd now account l =
     (let (ok, m) = take_token rnd (new_circuits_per_min_per_account (rl_cfg l)) now account (rl_account_buckets l) in (ok, l\<lparr>rl_account_buckets := m\<rparr>))"

definition admit :: "(rat \<Rightarrow> rat) \<Rightarrow> nat \<Rightarrow> ip_addr \<Rightarrow> bytes \<Rightarrow> limiter \<Rightarrow> bool \<times> limiter" where
  "admit rnd now ip account l =
     (let (got_ip, l) = reserve_ip ip l in
      if \<not> got_ip then (False, l)
      else let (got_account, l) = reserve_account account l in
      if \<not> got_account then (False, release_ip ip l)
      else let (ip_ok, l) = take_ip_token rnd now ip l;
               (account_ok, l) = take_account_token rnd now account l in
      if \<not> ip_ok \<or> \<not> account_ok then (False, release_account account (release_ip ip l))
      else (True, l))"

text \<open>\<open>Drop for CircuitGuard\<close>.\<close>

definition drop_guard :: "ip_addr \<Rightarrow> bytes \<Rightarrow> limiter \<Rightarrow> limiter" where
  "drop_guard ip account l = release_account account (release_ip ip l)"

section \<open>Concurrent admissions\<close>

datatype stage = HoldIp | HoldBoth | IpToken bool | Live | DropIp | DropBoth | DropAccount

record circuit =
  ci_ip :: ip_addr
  ci_account :: bytes
  ci_stage :: stage

inductive circuits_reach :: "(rat \<Rightarrow> rat) \<Rightarrow> rate_limit_config \<Rightarrow> limiter \<Rightarrow> circuit list \<Rightarrow> bool" for rnd cfg where
  cr_start: "circuits_reach rnd cfg (limiter_new cfg) []"
| cr_ip: "circuits_reach rnd cfg l cs \<Longrightarrow> reserve_ip ip l = (True, l') \<Longrightarrow> circuits_reach rnd cfg l' (\<lparr>ci_ip = ip, ci_account = a, ci_stage = HoldIp\<rparr> # cs)"
| cr_no_ip: "circuits_reach rnd cfg l cs \<Longrightarrow> reserve_ip ip l = (False, l') \<Longrightarrow> circuits_reach rnd cfg l' cs"
| cr_account: "circuits_reach rnd cfg l (xs @ c # ys) \<Longrightarrow> ci_stage c = HoldIp \<Longrightarrow> reserve_account (ci_account c) l = (ok, l') \<Longrightarrow>
    circuits_reach rnd cfg l' (xs @ c\<lparr>ci_stage := if ok then HoldBoth else DropIp\<rparr> # ys)"
| cr_ip_token: "circuits_reach rnd cfg l (xs @ c # ys) \<Longrightarrow> ci_stage c = HoldBoth \<Longrightarrow> take_ip_token rnd now (ci_ip c) l = (ok, l') \<Longrightarrow>
    circuits_reach rnd cfg l' (xs @ c\<lparr>ci_stage := IpToken ok\<rparr> # ys)"
| cr_account_token: "circuits_reach rnd cfg l (xs @ c # ys) \<Longrightarrow> ci_stage c = IpToken ok1 \<Longrightarrow> take_account_token rnd now (ci_account c) l = (ok2, l') \<Longrightarrow>
    circuits_reach rnd cfg l' (xs @ c\<lparr>ci_stage := if ok1 \<and> ok2 then Live else DropBoth\<rparr> # ys)"
| cr_close: "circuits_reach rnd cfg l (xs @ c # ys) \<Longrightarrow> ci_stage c = Live \<Longrightarrow> circuits_reach rnd cfg l (xs @ c\<lparr>ci_stage := DropBoth\<rparr> # ys)"
| cr_drop_ip: "circuits_reach rnd cfg l (xs @ c # ys) \<Longrightarrow> ci_stage c = DropIp \<Longrightarrow> circuits_reach rnd cfg (release_ip (ci_ip c) l) (xs @ ys)"
| cr_drop_both: "circuits_reach rnd cfg l (xs @ c # ys) \<Longrightarrow> ci_stage c = DropBoth \<Longrightarrow>
    circuits_reach rnd cfg (release_ip (ci_ip c) l) (xs @ c\<lparr>ci_stage := DropAccount\<rparr> # ys)"
| cr_drop_account: "circuits_reach rnd cfg l (xs @ c # ys) \<Longrightarrow> ci_stage c = DropAccount \<Longrightarrow>
    circuits_reach rnd cfg (release_account (ci_account c) l) (xs @ ys)"

definition holds_ip :: "ip_addr \<Rightarrow> circuit \<Rightarrow> bool" where
  "holds_ip ip c \<longleftrightarrow> ci_ip c = ip \<and> ci_stage c \<noteq> DropAccount"

definition holds_account :: "bytes \<Rightarrow> circuit \<Rightarrow> bool" where
  "holds_account a c \<longleftrightarrow> ci_account c = a \<and> ci_stage c \<noteq> HoldIp \<and> ci_stage c \<noteq> DropIp"

text \<open>A map of counters is exact for a predicate if every key's counter is the number of circuits that hold it, and within the cap.\<close>

definition counts :: "u32 \<Rightarrow> (bytes \<rightharpoonup> u32) \<Rightarrow> (bytes \<Rightarrow> nat) \<Rightarrow> bool" where
  "counts cap m f \<longleftrightarrow> (\<forall>k. unat (unwrap_or 0 (m k)) = f k \<and> f k \<le> unat cap)"

definition ip_count :: "circuit list \<Rightarrow> ip_addr \<Rightarrow> nat" where
  "ip_count cs ip = length (filter (holds_ip ip) cs)"

definition account_count :: "circuit list \<Rightarrow> bytes \<Rightarrow> nat" where
  "account_count cs a = length (filter (holds_account a) cs)"

definition limiter_inv :: "rate_limit_config \<Rightarrow> limiter \<Rightarrow> circuit list \<Rightarrow> bool" where
  "limiter_inv cfg l cs \<longleftrightarrow> rl_cfg l = cfg \<and> counts (max_concurrent_per_ip cfg) (rl_ip_active l) (ip_count cs)
     \<and> counts (max_concurrent_per_account cfg) (rl_account_active l) (account_count cs)"

lemma reserve_slot_counts:
  assumes "counts cap m f" "reserve_slot cap k m = (ok, m')"
  shows "counts cap m' (\<lambda>x. f x + (if ok \<and> x = k then 1 else 0))"
proof -
  have n: "unat (unwrap_or 0 (m k)) = f k" "f k \<le> unat cap" using assms(1) by (simp_all add: counts_def)
  have less: "f k < unat cap" if "\<not> cap \<le> unwrap_or 0 (m k)" using that n by (simp add: word_le_nat_alt)
  moreover have "unat (unwrap_or 0 (m k) + 1) = f k + 1" if "\<not> cap \<le> unwrap_or 0 (m k)"
  proof -
    have "unat (unwrap_or 0 (m k)) + unat (1 :: u32) < 2 ^ LENGTH(32)"
      using n(1) less [OF that] unsigned_less [of cap, where 'a = nat] by simp
    then show ?thesis using n(1) unat_add_lem [of "unwrap_or 0 (m k)" "1 :: u32"] by simp
  qed
  ultimately show ?thesis using assms n
    by (auto simp: counts_def reserve_slot_def Let_def unwrap_or_def split: if_splits)
qed

lemma release_slot_counts:
  assumes "counts cap m f" "0 < f k"
  shows "counts cap (release_slot k m) (\<lambda>x. f x - (if x = k then 1 else 0))"
proof -
  have n: "unat (unwrap_or 0 (m k)) = f k" "f k \<le> unat cap" using assms(1) by (simp_all add: counts_def)
  with assms(2) obtain v where v: "m k = Some v" "unat v = f k" by (cases "m k") (auto simp: unwrap_or_def)
  with assms(2) have "v \<noteq> 0" by auto
  then have "unat (v - 1) = f k - 1" using v(2) unat_minus_one [of v] by simp
  moreover have "v - 1 = 0 \<longleftrightarrow> f k - 1 = 0" using calculation by (metis unat_eq_zero)
  ultimately show ?thesis using assms(1) v \<open>v \<noteq> 0\<close>
    by (auto simp: counts_def release_slot_def Let_def unwrap_or_def intro: le_trans [OF diff_le_self])
qed

lemma count_simps [simp]:
  "ip_count (c # cs) ip = ip_count cs ip + (if holds_ip ip c then 1 else 0)"
  "ip_count (xs @ ys) ip = ip_count xs ip + ip_count ys ip"
  "account_count (c # cs) a = account_count cs a + (if holds_account a c then 1 else 0)"
  "account_count (xs @ ys) a = account_count xs a + account_count ys a"
  by (simp_all add: ip_count_def account_count_def)

lemma inv_reserve_ip:
  assumes "limiter_inv cfg l cs" "reserve_ip ip l = (ok, l')"
    and "ip_count cs' = (\<lambda>x. ip_count cs x + (if ok \<and> x = ip then 1 else 0))" "account_count cs' = account_count cs"
  shows "limiter_inv cfg l' cs'"
  using assms reserve_slot_counts [of "max_concurrent_per_ip cfg" "rl_ip_active l" "ip_count cs" ip ok]
  by (auto simp: limiter_inv_def reserve_ip_def split: prod.splits)

lemma inv_reserve_account:
  assumes "limiter_inv cfg l cs" "reserve_account a l = (ok, l')"
    and "account_count cs' = (\<lambda>x. account_count cs x + (if ok \<and> x = a then 1 else 0))" "ip_count cs' = ip_count cs"
  shows "limiter_inv cfg l' cs'"
  using assms reserve_slot_counts [of "max_concurrent_per_account cfg" "rl_account_active l" "account_count cs" a ok]
  by (auto simp: limiter_inv_def reserve_account_def split: prod.splits)

lemma inv_release_ip:
  assumes "limiter_inv cfg l cs" "0 < ip_count cs ip"
    and "ip_count cs' = (\<lambda>x. ip_count cs x - (if x = ip then 1 else 0))" "account_count cs' = account_count cs"
  shows "limiter_inv cfg (release_ip ip l) cs'"
  using assms release_slot_counts [of "max_concurrent_per_ip cfg" "rl_ip_active l" "ip_count cs" ip]
  by (simp add: limiter_inv_def release_ip_def)

lemma inv_release_account:
  assumes "limiter_inv cfg l cs" "0 < account_count cs a"
    and "account_count cs' = (\<lambda>x. account_count cs x - (if x = a then 1 else 0))" "ip_count cs' = ip_count cs"
  shows "limiter_inv cfg (release_account a l) cs'"
  using assms release_slot_counts [of "max_concurrent_per_account cfg" "rl_account_active l" "account_count cs" a]
  by (simp add: limiter_inv_def release_account_def)

lemma inv_stage:
  assumes "limiter_inv cfg l cs" "rl_cfg l' = rl_cfg l" "rl_ip_active l' = rl_ip_active l" "rl_account_active l' = rl_account_active l"
    and "ip_count cs' = ip_count cs" "account_count cs' = account_count cs"
  shows "limiter_inv cfg l' cs'"
  using assms by (simp add: limiter_inv_def)

lemma take_tokens_keep:
  "take_ip_token rnd now ip l = (ok, l') \<Longrightarrow> rl_cfg l' = rl_cfg l \<and> rl_ip_active l' = rl_ip_active l \<and> rl_account_active l' = rl_account_active l"
  "take_account_token rnd now a l = (ok, l') \<Longrightarrow> rl_cfg l' = rl_cfg l \<and> rl_ip_active l' = rl_ip_active l \<and> rl_account_active l' = rl_account_active l"
  by (auto simp: take_ip_token_def take_account_token_def split: prod.splits)

lemmas holds_defs = holds_ip_def holds_account_def

lemma circuits_inv: "circuits_reach rnd cfg l cs \<Longrightarrow> limiter_inv cfg l cs"
proof (induction rule: circuits_reach.induct)
  case cr_start
  show ?case by (simp add: limiter_inv_def limiter_new_def counts_def unwrap_or_def ip_count_def account_count_def)
next
  case (cr_ip l cs ip l' a)
  show ?case by (rule inv_reserve_ip [OF cr_ip.IH cr_ip.hyps(2)]) (auto simp: holds_defs fun_eq_iff)
next
  case (cr_no_ip l cs ip l')
  show ?case by (rule inv_reserve_ip [OF cr_no_ip.IH cr_no_ip.hyps(2)]) (auto simp: holds_defs fun_eq_iff)
next
  case (cr_account l xs c ys ok l')
  show ?case by (rule inv_reserve_account [OF cr_account.IH cr_account.hyps(3)]) (use cr_account.hyps(2) in \<open>auto simp: holds_defs fun_eq_iff\<close>)
next
  case (cr_ip_token l xs c ys now ok l')
  show ?case by (rule inv_stage [OF cr_ip_token.IH]) (use cr_ip_token.hyps(2,3) take_tokens_keep(1) in \<open>auto simp: holds_defs fun_eq_iff\<close>)
next
  case (cr_account_token l xs c ys ok1 now ok2 l')
  show ?case by (rule inv_stage [OF cr_account_token.IH]) (use cr_account_token.hyps(2,3) take_tokens_keep(2) in \<open>auto simp: holds_defs fun_eq_iff\<close>)
next
  case (cr_close l xs c ys)
  show ?case by (rule inv_stage [OF cr_close.IH]) (use cr_close.hyps(2) in \<open>auto simp: holds_defs fun_eq_iff\<close>)
next
  case (cr_drop_ip l xs c ys)
  show ?case by (rule inv_release_ip [OF cr_drop_ip.IH]) (use cr_drop_ip.hyps(2) in \<open>auto simp: holds_defs fun_eq_iff\<close>)
next
  case (cr_drop_both l xs c ys)
  show ?case by (rule inv_release_ip [OF cr_drop_both.IH]) (use cr_drop_both.hyps(2) in \<open>auto simp: holds_defs fun_eq_iff\<close>)
next
  case (cr_drop_account l xs c ys)
  show ?case by (rule inv_release_account [OF cr_drop_account.IH]) (use cr_drop_account.hyps(2) in \<open>auto simp: holds_defs fun_eq_iff\<close>)
qed

text \<open>An undisturbed call of \<open>admit\<close> is a run of the steps.\<close>

lemma admit_steps:
  assumes reach: "circuits_reach rnd cfg l cs" and adm: "admit rnd now ip a l = (ok, l')"
  shows "circuits_reach rnd cfg l' (if ok then \<lparr>ci_ip = ip, ci_account = a, ci_stage = Live\<rparr> # cs else cs)"
proof -
  let ?c = "\<lambda>st. \<lparr>ci_ip = ip, ci_account = a, ci_stage = st\<rparr>"
  obtain ok1 l1 where r1: "reserve_ip ip l = (ok1, l1)" by fastforce
  obtain ok2 l2 where r2: "reserve_account a l1 = (ok2, l2)" by fastforce
  obtain ok3 l3 where r3: "take_ip_token rnd now ip l2 = (ok3, l3)" by fastforce
  obtain ok4 l4 where r4: "take_account_token rnd now a l3 = (ok4, l4)" by fastforce
  show ?thesis
  proof (cases ok1)
    case False
    then show ?thesis using adm r1 cr_no_ip [OF reach, of ip] by (simp add: admit_def)
  next
    case True
    with r1 have s1: "circuits_reach rnd cfg l1 ([] @ ?c HoldIp # cs)" using cr_ip [OF reach, of ip l1 a] by simp
    have s2: "circuits_reach rnd cfg l2 ([] @ ?c (if ok2 then HoldBoth else DropIp) # cs)"
      using cr_account [OF s1, of ok2 l2] r2 by simp
    show ?thesis
    proof (cases ok2)
      case False
      then show ?thesis using adm r1 r2 True cr_drop_ip [OF s2] by (simp add: admit_def)
    next
      case ok2: True
      with s2 have s2': "circuits_reach rnd cfg l2 ([] @ ?c HoldBoth # cs)" by simp
      have s3: "circuits_reach rnd cfg l3 ([] @ ?c (IpToken ok3) # cs)" using cr_ip_token [OF s2', of now ok3 l3] r3 by simp
      have s4: "circuits_reach rnd cfg l4 ([] @ ?c (if ok3 \<and> ok4 then Live else DropBoth) # cs)"
        using cr_account_token [OF s3, of ok3 now ok4 l4] r4 by simp
      show ?thesis
      proof (cases "ok3 \<and> ok4")
        case True
        then show ?thesis using adm r1 r2 r3 r4 \<open>ok1\<close> ok2 s4 by (auto simp: admit_def)
      next
        case False
        with s4 have s5: "circuits_reach rnd cfg l4 ([] @ ?c DropBoth # cs)" by auto
        have s6: "circuits_reach rnd cfg (release_ip ip l4) ([] @ ?c DropAccount # cs)" using cr_drop_both [OF s5] by simp
        show ?thesis using adm r1 r2 r3 r4 \<open>ok1\<close> ok2 False cr_drop_account [OF s6] by (auto simp: admit_def)
      qed
    qed
  qed
qed

section \<open>Bounds\<close>

text \<open>What is used of binary floating point: rounding is monotone and exact on small whole numbers.\<close>

definition f64_rounding :: "(rat \<Rightarrow> rat) \<Rightarrow> bool" where
  "f64_rounding rnd \<longleftrightarrow> mono rnd \<and> (\<forall>n < 2 ^ 53. rnd (of_nat n) = of_nat n)"

lemma f64_rounding_0: "f64_rounding rnd \<Longrightarrow> rnd 0 = 0"
  unfolding f64_rounding_def by (elim conjE allE [of _ 0]) simp

definition bucket_ok :: "u32 \<Rightarrow> token_bucket \<Rightarrow> bool" where
  "bucket_ok per_min b \<longleftrightarrow> tb_capacity b = of_nat (unat (max per_min 1)) \<and> 0 \<le> tb_refill_per_sec b \<and> 0 \<le> tb_tokens b \<and> tb_tokens b \<le> tb_capacity b"

lemma capacity_exact: "f64_rounding rnd \<Longrightarrow> rnd (unsigned (w :: u32)) = unsigned w"
proof -
  assume f: "f64_rounding rnd"
  have "unat w < 2 ^ 53" using unsigned_less [of w, where 'a = nat] by simp
  with f have "rnd (of_nat (unat w)) = of_nat (unat w)" unfolding f64_rounding_def by blast
  then show ?thesis by simp
qed

lemma f64_rounding_nonneg: "f64_rounding rnd \<Longrightarrow> 0 \<le> x \<Longrightarrow> 0 \<le> rnd x"
  using f64_rounding_0 by (metis f64_rounding_def monoD)

lemma unsigned_rat_nonneg: "0 \<le> (unsigned (w :: u32) :: rat)"
  using of_nat_0_le_iff [of "unat w", where 'a = rat] by simp

lemma bucket_ok_new: "f64_rounding rnd \<Longrightarrow> bucket_ok per_min (token_bucket_new rnd per_min now)"
  by (simp add: bucket_ok_def token_bucket_new_def Let_def capacity_exact f64_rounding_nonneg unsigned_rat_nonneg)

lemma bucket_ok_take:
  assumes f: "f64_rounding rnd" and b: "bucket_ok per_min b"
  shows "bucket_ok per_min (snd (try_take rnd now b))"
proof -
  let ?t = "min (rnd (tb_tokens b + rnd (as_secs_f64 rnd (now - tb_last b) * tb_refill_per_sec b))) (tb_capacity b)"
  have "0 \<le> as_secs_f64 rnd (now - tb_last b)" by (simp add: as_secs_f64_def f64_rounding_nonneg f)
  then have t: "0 \<le> ?t" "?t \<le> tb_capacity b" using b by (simp_all add: bucket_ok_def f64_rounding_nonneg f)
  have "rnd (?t - 1) \<le> tb_capacity b"
  proof -
    have "rnd (?t - 1) \<le> rnd (tb_capacity b)" using f t by (intro monoD [of rnd]) (simp_all add: f64_rounding_def)
    then show ?thesis using b f by (simp add: bucket_ok_def capacity_exact)
  qed
  moreover have "0 \<le> rnd (?t - 1)" if "1 \<le> ?t" using that f by (simp add: f64_rounding_nonneg)
  ultimately show ?thesis using t b by (auto simp: try_take_def Let_def bucket_ok_def)
qed

text \<open>C37. However admissions, refusals and closing circuits interleave, the counter of every source address and of every account is exactly the number of
  circuits that hold a slot of it; so no address and no account ever has more open circuits than its cap, a slot is refused only when the cap is
  reached, and no slot is left behind once all circuits are gone.\<close>

theorem relay_circuits_bounded:
  assumes "circuits_reach rnd cfg l cs"
  shows "length (filter (\<lambda>c. ci_ip c = ip \<and> ci_stage c = Live) cs) \<le> unat (max_concurrent_per_ip cfg)
    \<and> length (filter (\<lambda>c. ci_account c = a \<and> ci_stage c = Live) cs) \<le> unat (max_concurrent_per_account cfg)
    \<and> (fst (reserve_ip ip l) \<longleftrightarrow> ip_count cs ip < unat (max_concurrent_per_ip cfg))
    \<and> (fst (reserve_account a l) \<longleftrightarrow> account_count cs a < unat (max_concurrent_per_account cfg))
    \<and> (cs = [] \<longrightarrow> unwrap_or 0 (rl_ip_active l ip) = 0 \<and> unwrap_or 0 (rl_account_active l a) = 0)"
proof -
  have inv: "limiter_inv cfg l cs" using circuits_inv [OF assms] .
  then have n: "unat (unwrap_or 0 (rl_ip_active l ip)) = ip_count cs ip" "ip_count cs ip \<le> unat (max_concurrent_per_ip cfg)"
    "unat (unwrap_or 0 (rl_account_active l a)) = account_count cs a" "account_count cs a \<le> unat (max_concurrent_per_account cfg)" "rl_cfg l = cfg"
    by (simp_all add: limiter_inv_def counts_def)
  have "length (filter (\<lambda>c. ci_ip c = ip \<and> ci_stage c = Live) cs) \<le> ip_count cs ip"
    "length (filter (\<lambda>c. ci_account c = a \<and> ci_stage c = Live) cs) \<le> account_count cs a"
    by (induction cs) (auto simp: holds_defs)
  moreover have "fst (reserve_ip ip l) \<longleftrightarrow> ip_count cs ip < unat (max_concurrent_per_ip cfg)"
    "fst (reserve_account a l) \<longleftrightarrow> account_count cs a < unat (max_concurrent_per_account cfg)"
    using n by (auto simp: reserve_ip_def reserve_account_def reserve_slot_def Let_def word_le_nat_alt)
  moreover have "unwrap_or 0 (rl_ip_active l ip) = 0 \<and> unwrap_or 0 (rl_account_active l a) = 0" if "cs = []"
    using n(1,3) that by (simp add: ip_count_def account_count_def unat_eq_zero)
  ultimately show ?thesis using n by linarith
qed

theorem relay_circuits_bounded_witness:
  "\<exists>l. circuits_reach id (rate_limit_default\<lparr>max_concurrent_per_account := 1\<rparr>) l [\<lparr>ci_ip = [1], ci_account = [2], ci_stage = Live\<rparr>]
     \<and> fst (reserve_ip [1] l) \<and> \<not> fst (reserve_account [2] l)"
proof -
  let ?cfg = "rate_limit_default\<lparr>max_concurrent_per_account := 1\<rparr>"
  obtain ok l where adm: "admit id 0 [1] [2] (limiter_new ?cfg) = (ok, l)" by fastforce
  then have ok: ok
    by (simp add: admit_def reserve_ip_def reserve_account_def reserve_slot_def take_ip_token_def take_account_token_def take_token_def
        try_take_def token_bucket_new_def as_secs_f64_def limiter_new_def rate_limit_default_def unwrap_or_def Let_def)
  have r: "circuits_reach id ?cfg l [\<lparr>ci_ip = [1], ci_account = [2], ci_stage = Live\<rparr>]"
    using admit_steps [OF cr_start adm] ok by simp
  show ?thesis using relay_circuits_bounded [OF r, of "[1]" "[2]"] r
    by (auto simp: ip_count_def account_count_def holds_defs rate_limit_default_def)
qed

end
