(* ===== verification/Relay_Server.thy ===== *)
theory Relay_Server
  imports Relay_Limit
begin

text \<open>The relay server (\<open>pollis-relay/src/server.rs\<close>) on one stream of an accepted connection, the client side of that stream (\<open>client.rs\<close>),
  and the health endpoint (\<open>health.rs\<close>). A stream is the bytes the client sent; \<open>tcp\<close> tells which dials succeed. A stream that is
  spliced keeps its slots until it ends (\<open>drop_guard\<close>).\<close>

section \<open>The allowlist\<close>

datatype host_pattern = HExact string | HSuffix string | HAny

definition parse_pattern :: "string \<Rightarrow> host_pattern" where
  "parse_pattern s =
     (if s = ''*'' then HAny
      else case strip_prefix ''*.'' s of
        Some rest \<Rightarrow> HSuffix (''.'' @ ascii_lower rest)
      | None \<Rightarrow> HExact (ascii_lower s))"

fun pattern_matches :: "host_pattern \<Rightarrow> string \<Rightarrow> bool" where
  "pattern_matches HAny host = True"
| "pattern_matches (HExact h) host = (h = ascii_lower host)"
| "pattern_matches (HSuffix suf) host = ends_with suf (ascii_lower host)"

type_synonym allowlist = "host_pattern list"

definition from_patterns :: "string list \<Rightarrow> allowlist" where
  "from_patterns ps = map parse_pattern ps"

definition permits :: "allowlist \<Rightarrow> string \<Rightarrow> bool" where
  "permits al host = list_ex (\<lambda>p. pattern_matches p host) al"

section \<open>Streams\<close>

record relay_stats =
  st_authorized :: u64
  st_rejected :: u64
  st_rate_limited :: u64
  st_dials :: u64

record relay =
  rs_allowlist :: allowlist
  rs_resolve_overrides :: "string \<rightharpoonup> ip_addr"
  rs_rate_limiter :: limiter
  rs_stats :: relay_stats

datatype dial_addr = ToIp ip_addr | ToHost string

definition dial_target :: "(dial_addr \<Rightarrow> u16 \<Rightarrow> bool) \<Rightarrow> connect \<Rightarrow> (string \<rightharpoonup> ip_addr) \<Rightarrow> bool" where
  "dial_target tcp c overrides =
     (case overrides (cn_host c) of Some ip \<Rightarrow> tcp (ToIp ip) (cn_port c) | None \<Rightarrow> tcp (ToHost (cn_host c)) (cn_port c))"

definition sent :: "reject_reason + unit \<Rightarrow> bytes" where
  "sent res = (case write_response res of Inr b \<Rightarrow> b | Inl _ \<Rightarrow> [])"

definition count_rejected :: "relay \<Rightarrow> relay" where
  "count_rejected r = r\<lparr>rs_stats := (rs_stats r)\<lparr>st_rejected := st_rejected (rs_stats r) + 1\<rparr>\<rparr>"

text \<open>The result is the response, the spliced target with what is left of the stream, if any, and the new state.\<close>

definition handle_stream :: "lib \<Rightarrow> (rat \<Rightarrow> rat) \<Rightarrow> i64 \<Rightarrow> nat \<Rightarrow> (dial_addr \<Rightarrow> u16 \<Rightarrow> bool) \<Rightarrow> bytes \<Rightarrow> ip_addr \<Rightarrow> relay \<Rightarrow>
    bytes \<times> (connect \<times> bytes) option \<times> relay" where
  "handle_stream L rnd now_unix instant tcp recv peer_ip r =
     (case read_handshake recv of
        Inl _ \<Rightarrow> (sent (Inl RBadRequest), None, count_rejected r)
      | Inr (handshake, recv) \<Rightarrow>
     (case verify_handshake L handshake now_unix of
        Inl reason \<Rightarrow> (sent (Inl reason), None, count_rejected r)
      | Inr verified \<Rightarrow>
          let r = r\<lparr>rs_stats := (rs_stats r)\<lparr>st_authorized := st_authorized (rs_stats r) + 1\<rparr>\<rparr>;
              (admitted, limiter) = admit rnd instant peer_ip (vc_account_id_pub verified) (rs_rate_limiter r);
              r = r\<lparr>rs_rate_limiter := limiter\<rparr>
          in if \<not> admitted
             then (sent (Inl RRateLimited), None,
                   let r = count_rejected r in r\<lparr>rs_stats := (rs_stats r)\<lparr>st_rate_limited := st_rate_limited (rs_stats r) + 1\<rparr>\<rparr>)
             else let released = r\<lparr>rs_rate_limiter := drop_guard peer_ip (vc_account_id_pub verified) limiter\<rparr>
                  in case read_connect recv of
                       Inl _ \<Rightarrow> (sent (Inl RBadRequest), None, released)
                     | Inr (c, recv) \<Rightarrow>
                         if \<not> permits (rs_allowlist r) (cn_host c) then (sent (Inl RNotAllowed), None, count_rejected released)
                         else if \<not> dial_target tcp c (rs_resolve_overrides r) then (sent (Inl RDialFailed), None, released)
                         else (sent (Inr ()), Some (c, recv), r\<lparr>rs_stats := (rs_stats r)\<lparr>st_dials := st_dials (rs_stats r) + 1\<rparr>\<rparr>)))"

text \<open>The accept loop: a connection is refused at the cap, otherwise counted until it ends.\<close>

definition accept_connection :: "u32 \<Rightarrow> u64 \<Rightarrow> bool \<times> u64" where
  "accept_connection max_concurrent live = (if live \<ge> ucast (max max_concurrent 1) then (False, live) else (True, live + 1))"

section \<open>The client\<close>

record client_identity =
  id_user_id :: string
  id_device_id :: string
  id_signing_key :: bytes
  id_cert :: device_cert_material

text \<open>\<open>transport\<close> is the relay: what it answers to the bytes sent.\<close>

definition relay_client_connect :: "lib \<Rightarrow> client_identity \<Rightarrow> i64 \<Rightarrow> bytes \<Rightarrow> string \<Rightarrow> u16 \<Rightarrow> (bytes \<Rightarrow> bytes) \<Rightarrow> proto_error + bytes" where
  "relay_client_connect L identity now nonce host port transport =
     bind_res (write_handshake (sign_handshake L (id_signing_key identity) (id_user_id identity) (id_device_id identity) (id_cert identity) now nonce)) (\<lambda>b.
     bind_res (write_connect \<lparr>cn_host = host, cn_port = port\<rparr>) (\<lambda>c.
       read_response (transport (b @ c))))"

section \<open>The health endpoint\<close>

definition split_at :: "char \<Rightarrow> string \<Rightarrow> string \<times> string option" where
  "split_at ch s = (takeWhile (\<lambda>c. c \<noteq> ch) s, case dropWhile (\<lambda>c. c \<noteq> ch) s of [] \<Rightarrow> None | _ # r \<Rightarrow> Some r)"

definition parse_request_line :: "bytes \<Rightarrow> string \<times> string" where
  "parse_request_line req =
     (let line = unwrap_or [] (from_utf8 (takeWhile (\<lambda>b. b \<noteq> 13 \<and> b \<noteq> 10) req));
          (meth, rest) = split_at (CHR '' '') line
      in (meth, case rest of None \<Rightarrow> [] | Some r \<Rightarrow> fst (split_at (CHR '' '') r)))"

definition crlf :: string where "crlf = [CHR 0x0D, CHR 0x0A]"

definition http_response :: "nat \<Rightarrow> string \<Rightarrow> string \<Rightarrow> string \<Rightarrow> string" where
  "http_response status reason content_type body =
     ''HTTP/1.1 '' @ show_nat status @ '' '' @ reason @ crlf @ ''Content-Type: '' @ content_type @ crlf
     @ ''Content-Length: '' @ show_nat (length body) @ crlf @ ''Connection: close'' @ crlf @ crlf @ body"

definition version_body :: "string \<Rightarrow> string" where
  "version_body git_sha = [CHR ''{'', CHR 0x22] @ ''service'' @ [CHR 0x22, CHR '':'', CHR 0x22] @ ''pollis-relay'' @ [CHR 0x22, CHR '','', CHR 0x22]
     @ ''sha'' @ [CHR 0x22, CHR '':'', CHR 0x22] @ git_sha @ [CHR 0x22, CHR ''}'']"

definition route :: "string \<Rightarrow> string \<Rightarrow> string \<Rightarrow> string" where
  "route git_sha meth path =
     (if meth \<noteq> ''GET'' then http_response 405 ''Method Not Allowed'' ''text/plain'' ''method not allowed''
      else let path = fst (split_at (CHR ''?'') path)
           in if path = ''/health'' then http_response 200 ''OK'' ''text/plain'' ''ok''
              else if path = ''/version'' then http_response 200 ''OK'' ''application/json'' (version_body git_sha)
              else http_response 404 ''Not Found'' ''text/plain'' ''not found'')"

text \<open>One connection: an empty read is closed without an answer; only the first 1024 bytes are looked at.\<close>

definition handle_conn :: "string \<Rightarrow> bytes \<Rightarrow> string option" where
  "handle_conn git_sha req =
     (if req = [] then None else let (meth, path) = parse_request_line (take 1024 req) in Some (route git_sha meth path))"

section \<open>Slots of refused streams\<close>

definition same_slots :: "limiter \<Rightarrow> limiter \<Rightarrow> bool" where
  "same_slots l l' \<longleftrightarrow> (\<forall>k. unwrap_or 0 (rl_ip_active l' k) = unwrap_or 0 (rl_ip_active l k)
     \<and> unwrap_or 0 (rl_account_active l' k) = unwrap_or 0 (rl_account_active l k))"

lemma release_reserve_slot:
  assumes "reserve_slot cap k m = (ok, m')"
  shows "unwrap_or 0 ((if ok then release_slot k m' else m') x) = unwrap_or 0 (m x)"
proof -
  have "unwrap_or 0 (m k) + 1 \<noteq> 0" if "\<not> cap \<le> unwrap_or 0 (m k)"
    using that by (metis add.commute add_eq_0_iff word_n1_ge)
  then show ?thesis using assms
    by (auto simp: reserve_slot_def release_slot_def Let_def unwrap_or_def split: if_splits option.splits)
qed

lemma admit_slots:
  "admit rnd now ip a l = (True, l') \<Longrightarrow> same_slots l (drop_guard ip a l')"
  "admit rnd now ip a l = (False, l') \<Longrightarrow> same_slots l l'"
proof -
  obtain ok1 m1 where r1: "reserve_slot (max_concurrent_per_ip (rl_cfg l)) ip (rl_ip_active l) = (ok1, m1)" by fastforce
  obtain ok2 m2 where r2: "reserve_slot (max_concurrent_per_account (rl_cfg l)) a (rl_account_active l) = (ok2, m2)" by fastforce
  show "admit rnd now ip a l = (True, l') \<Longrightarrow> same_slots l (drop_guard ip a l')"
    "admit rnd now ip a l = (False, l') \<Longrightarrow> same_slots l l'"
    using r1 r2 release_reserve_slot [OF r1] release_reserve_slot [OF r2]
    by (auto simp: same_slots_def admit_def drop_guard_def reserve_ip_def reserve_account_def release_ip_def release_account_def
        take_ip_token_def take_account_token_def split: prod.splits if_splits)
qed

lemma read_sent: "read_response (sent res @ r) = (case res of Inr _ \<Rightarrow> Inr r | Inl reason \<Rightarrow> Inl (ProtoRejected reason))"
  using read_written_response [of res] by (auto simp: sent_def)

section \<open>A concrete stream\<close>

lemma minted_handshake_wf:
  assumes "lib_ok L" "mint_cert L account device (ed_public L key) v t = Some cert" "string_ok user" "string_ok device"
    and "- (2 ^ 63) \<le> ts" "ts < 2 ^ 63" "length nonce = NONCE_LEN"
  shows "handshake_wf (sign_handshake L key user device cert ts nonce)"
  using assms by (auto simp: handshake_wf_def sign_handshake_def mint_cert_def lib_ok_def ed25519_ok_def split: sum.splits)

definition demo_relay :: relay where
  "demo_relay = \<lparr>rs_allowlist = from_patterns [''*.pollis.com''], rs_resolve_overrides = Map.empty, rs_rate_limiter = limiter_new rate_limit_default,
     rs_stats = \<lparr>st_authorized = 0, st_rejected = 0, st_rate_limited = 0, st_dials = 0\<rparr>\<rparr>"

lemma demo_admit: "\<exists>l. admit id 0 [1] a (rs_rate_limiter demo_relay) = (True, l)"
  by (simp add: admit_def reserve_ip_def reserve_account_def reserve_slot_def take_ip_token_def take_account_token_def take_token_def
      try_take_def token_bucket_new_def as_secs_f64_def limiter_new_def rate_limit_default_def unwrap_or_def Let_def demo_relay_def)

lemma demo_permits: "permits (rs_allowlist demo_relay) ''API.pollis.com''" "\<not> permits (rs_allowlist demo_relay) ''notpollis.com''"
  by (simp_all add: permits_def demo_relay_def from_patterns_def parse_pattern_def strip_prefix_def ends_with_def ascii_lower_def)

lemma demo_string_ok: "string_ok ''u''" "string_ok ''d''" "string_ok ''API.pollis.com''" "string_ok ''notpollis.com''"
  by (simp_all add: string_ok_def proto_consts as_bytes_def byte_of_char_def)

lemma demo_stream:
  "\<exists>recv c rest r'. handle_stream demo_lib id 1000 0 (\<lambda>_ _. True) recv [1] demo_relay = (sent (Inr ()), Some (c, rest), r')"
proof -
  let ?c = "\<lparr>cn_host = ''API.pollis.com'', cn_port = 443\<rparr>"
  obtain cert where cert: "mint_cert demo_lib [7] ''d'' (ed_public demo_lib [8]) 1 5 = Some cert"
    "verify_handshake demo_lib (sign_handshake demo_lib [8] ''u'' ''d'' cert 900 (replicate 32 0)) 1000
       = Inr \<lparr>vc_user_id = ''u'', vc_account_id_pub = ed_public demo_lib [7]\<rparr>"
    using handshake_accepted [OF lib_ok_demo, of "''u''" "''d''" 1000 900 "[7]" "[8]" 1 5 "replicate 32 0"] by auto
  have wf: "handshake_wf (sign_handshake demo_lib [8] ''u'' ''d'' cert 900 (replicate 32 0))"
    by (rule minted_handshake_wf [OF lib_ok_demo cert(1)]) (simp_all add: demo_string_ok NONCE_LEN_def)
  obtain b c where "read_handshake (b @ c) = Inr (sign_handshake demo_lib [8] ''u'' ''d'' cert 900 (replicate 32 0), c)" "read_connect c = Inr (?c, [])"
    using fpipe.frames_pipelined [OF wf, of ?c "[]"] demo_string_ok by auto
  moreover obtain l where "admit id 0 [1] (ed_public demo_lib [7]) (rs_rate_limiter demo_relay) = (True, l)" using demo_admit by blast
  moreover have "dial_target (\<lambda>_ _. True) ?c (rs_resolve_overrides demo_relay)" by (simp add: dial_target_def demo_relay_def)
  ultimately show ?thesis using cert(2) demo_permits(1)
    by (intro exI [of _ "b @ c"]) (simp add: handle_stream_def Let_def)
qed

section \<open>Properties\<close>

text \<open>C38. The relay never fails open: it opens a pipe only for a stream whose handshake carries a fresh signature of the presented device key and a certificate of that
  key by the presented account key, that the limiter admitted, and whose host the allowlist names exactly or by a suffix at a label boundary. A stream
  without a pipe leaves every slot of the limiter as it was.\<close>

theorem relay_never_fails_open:
  assumes "handle_stream L rnd now_unix instant tcp recv ip r = (resp, out, r')"
  shows "(case out of
      Some (c, rest) \<Rightarrow> \<exists>hs s key p. read_handshake recv = Inr (hs, s) \<and> read_connect s = Inr (c, rest) \<and> \<not> outside_skew now_unix (hs_timestamp hs)
        \<and> ed_from_bytes L (hs_device_signing_pub hs) = Some key
        \<and> ed_verify L key (handshake_canonical_bytes L (hs_user_id hs) (hs_device_id hs) (hs_timestamp hs) (hs_nonce hs)) (hs_signature hs)
        \<and> verify_device_cert L (dm_account_id_pub (hs_cert hs)) (hs_device_id hs) (hs_device_signing_pub hs)
            (dm_identity_version (hs_cert hs)) (dm_issued_at (hs_cert hs)) (dm_device_cert (hs_cert hs)) = Inr ()
        \<and> admit rnd instant ip (dm_account_id_pub (hs_cert hs)) (rs_rate_limiter r) = (True, rs_rate_limiter r')
        \<and> p \<in> set (rs_allowlist r) \<and> pattern_matches p (cn_host c) \<and> dial_target tcp c (rs_resolve_overrides r)
    | None \<Rightarrow> (\<exists>reason. resp = sent (Inl reason)) \<and> same_slots (rs_rate_limiter r) (rs_rate_limiter r'))"
proof (cases out)
  case (Some cr)
  obtain c rest where cr: "cr = (c, rest)" by fastforce
  from assms Some cr obtain hs s vc where p: "read_handshake recv = Inr (hs, s)" "verify_handshake L hs now_unix = Inr vc"
    "read_connect s = Inr (c, rest)" "permits (rs_allowlist r) (cn_host c)" "dial_target tcp c (rs_resolve_overrides r)"
    and adm: "admit rnd instant ip (vc_account_id_pub vc) (rs_rate_limiter r) = (True, rs_rate_limiter r')"
    by (auto simp: handle_stream_def Let_def split: sum.splits prod.splits if_splits)
  from p(2) have "vc_account_id_pub vc = dm_account_id_pub (hs_cert hs)" by (auto simp: verify_handshake_iff)
  with p adm Some cr show ?thesis by (auto simp: verify_handshake_iff permits_def list_ex_iff)
next
  case None
  have "same_slots l l" for l by (simp add: same_slots_def)
  with None assms show ?thesis
    by (auto simp: handle_stream_def Let_def count_rejected_def intro: admit_slots split: sum.splits prod.splits if_splits)
qed

theorem relay_never_fails_open_witness:
  "\<exists>recv c rest resp r' p. handle_stream demo_lib id 1000 0 (\<lambda>_ _. True) recv [1] demo_relay = (resp, Some (c, rest), r')
     \<and> p \<in> set (rs_allowlist demo_relay) \<and> pattern_matches p (cn_host c)"
proof -
  obtain recv c rest r' where h: "handle_stream demo_lib id 1000 0 (\<lambda>_ _. True) recv [1] demo_relay = (sent (Inr ()), Some (c, rest), r')"
    using demo_stream by blast
  obtain p where "p \<in> set (rs_allowlist demo_relay)" "pattern_matches p (cn_host c)" using relay_never_fails_open [OF h] by auto
  with h show ?thesis by blast
qed

text \<open>A device with a minted certificate, whose clock differs from the relay's by at most 300 seconds, is told exactly why a circuit failed: rate limited, host not
  allowed or dial failed, in this order; otherwise it gets the pipe.\<close>

theorem relay_client_outcome:
  assumes lib: "lib_ok L" and mint: "mint_cert L account (id_device_id idn) (ed_public L (id_signing_key idn)) v t = Some (id_cert idn)"
    and ids: "id_user_id idn \<noteq> []" "id_device_id idn \<noteq> []" "string_ok (id_user_id idn)" "string_ok (id_device_id idn)" "length (id_device_id idn) \<le> 255"
    and clock: "\<bar>relay_now - ts\<bar> \<le> 300" "- (2 ^ 63) \<le> ts" "ts < 2 ^ 63" and rest: "length nonce = NONCE_LEN" "string_ok host"
  shows "relay_client_connect L idn ts nonce host port (\<lambda>b. fst (handle_stream L rnd relay_now instant tcp b ip r)) =
    (if \<not> fst (admit rnd instant ip (ed_public L account) (rs_rate_limiter r)) then Inl (ProtoRejected RRateLimited)
     else if \<not> permits (rs_allowlist r) host then Inl (ProtoRejected RNotAllowed)
     else if \<not> dial_target tcp \<lparr>cn_host = host, cn_port = port\<rparr> (rs_resolve_overrides r) then Inl (ProtoRejected RDialFailed)
     else Inr [])"
proof -
  let ?hs = "sign_handshake L (id_signing_key idn) (id_user_id idn) (id_device_id idn) (id_cert idn) ts nonce"
  let ?c = "\<lparr>cn_host = host, cn_port = port\<rparr>"
  have wf: "handshake_wf ?hs" using minted_handshake_wf [OF lib mint ids(3,4) clock(2,3) rest(1)] .
  obtain b c where frames: "write_handshake ?hs = Inr b" "write_connect ?c = Inr c" "read_handshake (b @ c) = Inr (?hs, c)" "read_connect c = Inr (?c, [])"
    using fpipe.frames_pipelined [OF wf, of ?c "[]"] rest(2) by auto
  have "verify_handshake L ?hs relay_now = Inr \<lparr>vc_user_id = id_user_id idn, vc_account_id_pub = ed_public L account\<rparr>"
    using handshake_accepted [OF lib ids(1,2,5) clock(1), of account "id_signing_key idn" v t nonce] mint by simp
  then show ?thesis using frames read_sent [where r = "[]"]
    by (auto simp: relay_client_connect_def handle_stream_def Let_def split: prod.splits)
qed

theorem relay_client_outcome_witness:
  "\<exists>idn. relay_client_connect demo_lib idn 900 (replicate 32 0) ''API.pollis.com'' 443
       (\<lambda>b. fst (handle_stream demo_lib id 1000 0 (\<lambda>_ _. True) b [1] demo_relay)) = Inr []
     \<and> relay_client_connect demo_lib idn 900 (replicate 32 0) ''notpollis.com'' 443
       (\<lambda>b. fst (handle_stream demo_lib id 1000 0 (\<lambda>_ _. True) b [1] demo_relay)) = Inl (ProtoRejected RNotAllowed)"
proof -
  obtain cert where cert: "mint_cert demo_lib [7] ''d'' (ed_public demo_lib [8]) 1 5 = Some cert"
    using handshake_accepted [OF lib_ok_demo, of "''u''" "''d''" 1000 900 "[7]" "[8]" 1 5 "[]"] by auto
  let ?id = "\<lparr>id_user_id = ''u'', id_device_id = ''d'', id_signing_key = [8], id_cert = cert\<rparr>"
  have mint: "mint_cert demo_lib [7] (id_device_id ?id) (ed_public demo_lib (id_signing_key ?id)) 1 5 = Some (id_cert ?id)" using cert by simp
  have adm: "fst (admit id 0 [1] (ed_public demo_lib [7]) (rs_rate_limiter demo_relay))" using demo_admit [of "ed_public demo_lib [7]"] by auto
  have dial: "dial_target (\<lambda>_ _. True) c (rs_resolve_overrides demo_relay)" for c by (simp add: dial_target_def demo_relay_def)
  have "relay_client_connect demo_lib ?id 900 (replicate 32 0) ''API.pollis.com'' 443
       (\<lambda>b. fst (handle_stream demo_lib id 1000 0 (\<lambda>_ _. True) b [1] demo_relay)) = Inr []"
    by (subst relay_client_outcome [OF lib_ok_demo mint]) (simp_all add: demo_string_ok NONCE_LEN_def demo_permits adm dial)
  moreover have "relay_client_connect demo_lib ?id 900 (replicate 32 0) ''notpollis.com'' 443
       (\<lambda>b. fst (handle_stream demo_lib id 1000 0 (\<lambda>_ _. True) b [1] demo_relay)) = Inl (ProtoRejected RNotAllowed)"
    by (subst relay_client_outcome [OF lib_ok_demo mint]) (simp_all add: demo_string_ok NONCE_LEN_def demo_permits adm dial)
  ultimately show ?thesis by blast
qed

end
