(* ===== verification/Relay_Shim.thy ===== *)
theory Relay_Shim
  imports Relay_Server
begin

text \<open>The loopback side of the overlay: routing policy (\<open>pollis-relay/src/policy.rs\<close>), circuits (\<open>circuit.rs\<close>) and the SOCKS5 shim
  (\<open>shim.rs\<close>), with the SOCKS5 client of \<open>pollis-core/src/net/overlay.rs\<close>. The shim is a function of the bytes its client sent; \<open>overlay\<close> and
  \<open>direct\<close> tell which upstream connections can be made, and every attempt is recorded.\<close>

section \<open>Routing policy\<close>

datatype overlay_mode = OverlayOff | OverlayPrefer | OverlayStrict

fun as_u8 :: "overlay_mode \<Rightarrow> byte" where
  "as_u8 OverlayOff = 0"
| "as_u8 OverlayPrefer = 1"
| "as_u8 OverlayStrict = 2"

definition from_u8 :: "byte \<Rightarrow> overlay_mode" where
  "from_u8 v = (if v = 1 then OverlayPrefer else if v = 2 then OverlayStrict else OverlayOff)"

datatype planned_route = RouteDirect | RouteOverlay bool

datatype final_action = FinalDirect | FinalOverlay | FinalDegraded

record routing_policy =
  rp_mode :: byte
  rp_overlay_hosts :: "host_pattern list"
  rp_direct_hosts :: "host_pattern list"

definition routing_policy_new :: "overlay_mode \<Rightarrow> allowlist \<Rightarrow> allowlist \<Rightarrow> routing_policy" where
  "routing_policy_new mode overlay_hosts direct_hosts =
     \<lparr>rp_mode = as_u8 mode, rp_overlay_hosts = overlay_hosts, rp_direct_hosts = direct_hosts\<rparr>"

definition policy_mode :: "routing_policy \<Rightarrow> overlay_mode" where
  "policy_mode p = from_u8 (rp_mode p)"

definition set_mode :: "overlay_mode \<Rightarrow> routing_policy \<Rightarrow> routing_policy" where
  "set_mode mode p = p\<lparr>rp_mode := as_u8 mode\<rparr>"

definition is_direct_host :: "routing_policy \<Rightarrow> string \<Rightarrow> bool" where
  "is_direct_host p host = list_ex (\<lambda>q. pattern_matches q host) (rp_direct_hosts p)"

definition is_overlay_host :: "routing_policy \<Rightarrow> string \<Rightarrow> bool" where
  "is_overlay_host p host = list_ex (\<lambda>q. pattern_matches q host) (rp_overlay_hosts p)"

definition plan :: "routing_policy \<Rightarrow> string \<Rightarrow> planned_route" where
  "plan p host =
     (if is_direct_host p host then RouteDirect
      else case policy_mode p of
        OverlayOff \<Rightarrow> RouteDirect
      | OverlayPrefer \<Rightarrow> if is_overlay_host p host then RouteOverlay True else RouteDirect
      | OverlayStrict \<Rightarrow> if is_overlay_host p host then RouteOverlay False else RouteDirect)"

fun reconcile :: "planned_route \<Rightarrow> bool option \<Rightarrow> final_action" where
  "reconcile RouteDirect overlay_ok = FinalDirect"
| "reconcile (RouteOverlay fallback) (Some True) = FinalOverlay"
| "reconcile (RouteOverlay fallback) (Some False) = (if fallback then FinalDirect else FinalDegraded)"
| "reconcile (RouteOverlay fallback) None = FinalDegraded"

section \<open>Circuits\<close>

text \<open>A circuit of one hop is connected by the relay client; none and several are errors.\<close>

definition circuit_connect :: "('hop \<Rightarrow> string + 'stream) \<Rightarrow> 'hop list \<Rightarrow> string + 'stream" where
  "circuit_connect relay_connect hops =
     (case hops of
        [] \<Rightarrow> Inl ''circuit has no hops''
      | [hop] \<Rightarrow> relay_connect hop
      | _ \<Rightarrow> Inl (''multi-hop circuits (n='' @ show_nat (length hops) @ '') are a v1 feature; v0 is single-hop''))"

section \<open>Addresses as text\<close>

definition show_ipv4 :: "bytes \<Rightarrow> string" where
  "show_ipv4 a = (case map (\<lambda>b. show_nat (unat b)) a of [a, b, c, d] \<Rightarrow> a @ ''.'' @ b @ ''.'' @ c @ ''.'' @ d | _ \<Rightarrow> [])"

fun show_hex :: "nat \<Rightarrow> string" where
  "show_hex n = (if n < 16 then [HEX_DIGITS ! n] else show_hex (n div 16) @ [HEX_DIGITS ! (n mod 16)])"

declare show_hex.simps [simp del]

fun segments :: "bytes \<Rightarrow> nat list" where
  "segments (a # b # r) = (256 * unat a + unat b) # segments r"
| "segments _ = []"

text \<open>The first longest run of zero segments, as start and length.\<close>

fun longest_zeroes :: "nat \<Rightarrow> nat list \<Rightarrow> nat \<times> nat \<Rightarrow> nat \<times> nat \<Rightarrow> nat \<times> nat" where
  "longest_zeroes i [] current longest = longest"
| "longest_zeroes i (s # ss) current longest =
     (if s = 0 then
        let current = (if snd current = 0 then i else fst current, snd current + 1)
        in longest_zeroes (i + 1) ss current (if snd current > snd longest then current else longest)
      else longest_zeroes (i + 1) ss (0, 0) longest)"

fun show_segments :: "nat list \<Rightarrow> string" where
  "show_segments [] = []"
| "show_segments [s] = show_hex s"
| "show_segments (s # ss) = show_hex s @ '':'' @ show_segments ss"

definition show_ipv6 :: "bytes \<Rightarrow> string" where
  "show_ipv6 a =
     (if take 12 a = replicate 10 0 @ [255, 255] then ''::ffff:'' @ show_ipv4 (drop 12 a)
      else let ss = segments a; (start, n) = longest_zeroes 0 ss (0, 0) (0, 0)
           in if n > 1 then show_segments (take start ss) @ ''::'' @ show_segments (drop (start + n) ss) else show_segments ss)"

section \<open>The shim\<close>

definition SOCKS5_VERSION :: byte where "SOCKS5_VERSION = 0x05"
definition SOCKS5_NO_AUTH :: byte where "SOCKS5_NO_AUTH = 0x00"
definition SOCKS5_CMD_CONNECT :: byte where "SOCKS5_CMD_CONNECT = 0x01"
definition ATYP_IPV4 :: byte where "ATYP_IPV4 = 0x01"
definition ATYP_DOMAIN :: byte where "ATYP_DOMAIN = 0x03"
definition ATYP_IPV6 :: byte where "ATYP_IPV6 = 0x04"
definition REP_SUCCESS :: byte where "REP_SUCCESS = 0x00"
definition REP_GENERAL_FAILURE :: byte where "REP_GENERAL_FAILURE = 0x01"
definition REP_HOST_UNREACHABLE :: byte where "REP_HOST_UNREACHABLE = 0x04"
definition REP_CMD_NOT_SUPPORTED :: byte where "REP_CMD_NOT_SUPPORTED = 0x07"

lemmas socks_consts = SOCKS5_VERSION_def SOCKS5_NO_AUTH_def SOCKS5_CMD_CONNECT_def ATYP_IPV4_def ATYP_DOMAIN_def ATYP_IPV6_def
  REP_SUCCESS_def REP_GENERAL_FAILURE_def REP_HOST_UNREACHABLE_def REP_CMD_NOT_SUPPORTED_def

definition socks_reply :: "byte \<Rightarrow> bytes" where
  "socks_reply code = [SOCKS5_VERSION, code, 0x00, ATYP_IPV4, 0, 0, 0, 0, 0, 0]"

text \<open>The two readers fail with what was written to the client before giving up.\<close>

definition read_greeting :: "(bytes, unit) reader" where
  "read_greeting s =
     bind_res (read_u8 [] s) (\<lambda>(ver, s).
     if ver \<noteq> SOCKS5_VERSION then Inl []
     else bind_res (read_u8 [] s) (\<lambda>(nmethods, s).
     bind_res (read_exact [] (unat nmethods) s) (\<lambda>(methods, s).
       if SOCKS5_NO_AUTH \<notin> set methods then Inl [SOCKS5_VERSION, 0xFF] else Inr ((), s))))"

definition read_host :: "byte \<Rightarrow> (bytes, string) reader" where
  "read_host atyp s =
     (if atyp = ATYP_IPV4 then bind_res (read_exact [] 4 s) (\<lambda>(addr, s). Inr (show_ipv4 addr, s))
      else if atyp = ATYP_IPV6 then bind_res (read_exact [] 16 s) (\<lambda>(addr, s). Inr (show_ipv6 addr, s))
      else if atyp = ATYP_DOMAIN then
        bind_res (read_u8 [] s) (\<lambda>(len, s).
        bind_res (read_exact [] (unat len) s) (\<lambda>(name, s).
          case from_utf8 name of None \<Rightarrow> Inl [] | Some host \<Rightarrow> Inr (host, s)))
      else Inl (socks_reply REP_CMD_NOT_SUPPORTED))"

definition read_socks_request :: "(bytes, byte \<times> string \<times> u16) reader" where
  "read_socks_request s =
     bind_res (read_u8 [] s) (\<lambda>(ver, s).
     bind_res (read_u8 [] s) (\<lambda>(cmd, s).
     bind_res (read_u8 [] s) (\<lambda>(rsv, s).
     bind_res (read_u8 [] s) (\<lambda>(atyp, s).
     if ver \<noteq> SOCKS5_VERSION then Inl []
     else bind_res (read_host atyp s) (\<lambda>(host, s).
     bind_res (read_be [] 2 s) (\<lambda>(port, s). Inr ((cmd, host, port), s)))))))"

datatype attempt = TriedOverlay string u16 | TriedDirect string u16

datatype upstream = UpOverlay | UpDirect

definition establish_upstream :: "(string \<Rightarrow> u16 \<Rightarrow> bool) \<Rightarrow> (string \<Rightarrow> u16 \<Rightarrow> bool) \<Rightarrow> planned_route \<Rightarrow> string \<Rightarrow> u16 \<Rightarrow>
    attempt list \<times> (final_action + upstream)" where
  "establish_upstream overlay direct pl host port =
     (case pl of
        RouteDirect \<Rightarrow> ([TriedDirect host port], if direct host port then Inr UpDirect else Inl FinalDirect)
      | RouteOverlay fallback_to_direct \<Rightarrow>
          if overlay host port then ([TriedOverlay host port], Inr UpOverlay)
          else if fallback_to_direct
          then ([TriedOverlay host port, TriedDirect host port], if direct host port then Inr UpDirect else Inl FinalDirect)
          else ([TriedOverlay host port], Inl FinalDegraded))"

text \<open>One connection of the shim: what it writes, which upstream connections it tries, and the pipe it ends in, with the bytes already received for it.\<close>

definition serve_conn :: "routing_policy \<Rightarrow> (string \<Rightarrow> u16 \<Rightarrow> bool) \<Rightarrow> (string \<Rightarrow> u16 \<Rightarrow> bool) \<Rightarrow> bytes \<Rightarrow>
    bytes \<times> attempt list \<times> (upstream \<times> bytes) option" where
  "serve_conn policy overlay direct s =
     (case read_greeting s of
        Inl w \<Rightarrow> (w, [], None)
      | Inr (_, s) \<Rightarrow>
          (case read_socks_request s of
             Inl w \<Rightarrow> ([SOCKS5_VERSION, SOCKS5_NO_AUTH] @ w, [], None)
           | Inr ((cmd, host, port), s) \<Rightarrow>
               if cmd \<noteq> SOCKS5_CMD_CONNECT then ([SOCKS5_VERSION, SOCKS5_NO_AUTH] @ socks_reply REP_CMD_NOT_SUPPORTED, [], None)
               else (case establish_upstream overlay direct (plan policy host) host port of
                  (tried, Inr up) \<Rightarrow> ([SOCKS5_VERSION, SOCKS5_NO_AUTH] @ socks_reply REP_SUCCESS, tried, Some (up, s))
                | (tried, Inl action) \<Rightarrow>
                    ([SOCKS5_VERSION, SOCKS5_NO_AUTH] @ socks_reply (if action = FinalDegraded then REP_GENERAL_FAILURE else REP_HOST_UNREACHABLE), tried, None))))"

section \<open>The client of the shim\<close>

definition socks_greeting :: bytes where "socks_greeting = [0x05, 0x01, 0x00]"

definition socks_connect_request :: "string \<Rightarrow> u16 \<Rightarrow> bytes" where
  "socks_connect_request host port = [0x05, 0x01, 0x00, 0x03, word_of_nat (length host)] @ as_bytes host @ be_bytes 2 port"

text \<open>\<open>shim\<close> gives what the shim has written once it received the argument. The error is the message of the client, \<open>None\<close> a closed connection.\<close>

definition drain_bound :: "byte \<Rightarrow> (string option, unit) reader" where
  "drain_bound atyp s =
     (if atyp = 0x01 then bind_res (read_exact None 4 s) (\<lambda>(_, s). Inr ((), s))
      else if atyp = 0x04 then bind_res (read_exact None 16 s) (\<lambda>(_, s). Inr ((), s))
      else if atyp = 0x03 then bind_res (read_u8 None s) (\<lambda>(len, s). bind_res (read_exact None (unat len) s) (\<lambda>(_, s). Inr ((), s)))
      else Inl (Some (''overlay shim replied with unknown ATYP '' @ show_nat (unat atyp))))"

definition socks5_connect :: "(bytes \<Rightarrow> bytes) \<Rightarrow> string \<Rightarrow> u16 \<Rightarrow> string option + unit" where
  "socks5_connect shim host port =
     bind_res (read_exact None 2 (shim socks_greeting)) (\<lambda>(meth, _).
     if meth ! 0 \<noteq> 0x05 \<or> meth ! 1 \<noteq> 0x00 then Inl (Some ''overlay shim declined SOCKS5 no-auth'')
     else if length host > 255 then Inl (Some ''overlay connector: host too long for SOCKS5'')
     else bind_res (read_exact None 4 (drop 2 (shim (socks_greeting @ socks_connect_request host port)))) (\<lambda>(head, s).
     if head ! 1 \<noteq> 0x00 then Inl (Some (''overlay shim CONNECT failed (SOCKS reply code '' @ show_nat (unat (head ! 1)) @ '')''))
     else bind_res (drain_bound (head ! 3) s) (\<lambda>(_, s).
     bind_res (read_exact None 2 s) (\<lambda>_. Inr ()))))"

section \<open>Client and shim\<close>

lemma from_as_u8 [simp]: "from_u8 (as_u8 m) = m"
  by (cases m) (simp_all add: from_u8_def)

lemma policy_mode_set [simp]: "policy_mode (set_mode m p) = m"
  by (simp add: policy_mode_def set_mode_def)

lemma read_client_greeting: "read_greeting (socks_greeting @ s) = Inr ((), s)"
  by (simp add: read_greeting_def socks_greeting_def socks_consts read_exact_def)

lemma read_client_request:
  assumes "length host \<le> 255" "utf8_valid (as_bytes host)"
  shows "read_socks_request (socks_connect_request host port @ r) = Inr ((SOCKS5_CMD_CONNECT, host, port), r)"
proof -
  have "unat (word_of_nat (length host) :: byte) = length host" using assms(1) by (simp add: unat_of_nat)
  with assms(2) show ?thesis
    by (simp add: read_socks_request_def socks_connect_request_def read_host_def socks_consts)
qed

lemma serve_client:
  assumes "length host \<le> 255" "utf8_valid (as_bytes host)"
  shows "serve_conn p overlay direct (socks_greeting @ socks_connect_request host port @ r) =
    (case establish_upstream overlay direct (plan p host) host port of
       (tried, Inr up) \<Rightarrow> ([SOCKS5_VERSION, SOCKS5_NO_AUTH] @ socks_reply REP_SUCCESS, tried, Some (up, r))
     | (tried, Inl action) \<Rightarrow> ([SOCKS5_VERSION, SOCKS5_NO_AUTH]
         @ socks_reply (if action = FinalDegraded then REP_GENERAL_FAILURE else REP_HOST_UNREACHABLE), tried, None))"
  by (simp add: serve_conn_def read_client_greeting read_client_request [OF assms] split: prod.splits sum.splits)

lemma client_greeted: "read_exact None 2 (fst (serve_conn p overlay direct socks_greeting)) = Inr ([5, 0], [])"
proof -
  have "read_greeting socks_greeting = Inr ((), [])" using read_client_greeting [of "[]"] by simp
  then show ?thesis
    by (simp add: serve_conn_def read_socks_request_def read_u8_def read_exact_def socks_consts)
qed

lemma client_connected:
  assumes "length host \<le> 255" "utf8_valid (as_bytes host)"
  shows "socks5_connect (\<lambda>b. fst (serve_conn p overlay direct b)) host port = Inr ()
    \<longleftrightarrow> (\<exists>up. snd (establish_upstream overlay direct (plan p host) host port) = Inr up)"
proof -
  obtain tried res where e: "establish_upstream overlay direct (plan p host) host port = (tried, res)" by fastforce
  have "serve_conn p overlay direct (socks_greeting @ socks_connect_request host port) =
    (case res of Inr up \<Rightarrow> ([SOCKS5_VERSION, SOCKS5_NO_AUTH] @ socks_reply REP_SUCCESS, tried, Some (up, []))
      | Inl action \<Rightarrow> ([SOCKS5_VERSION, SOCKS5_NO_AUTH]
         @ socks_reply (if action = FinalDegraded then REP_GENERAL_FAILURE else REP_HOST_UNREACHABLE), tried, None))"
    using serve_client [OF assms, of p overlay direct port "[]"] e by (simp split: sum.splits)
  then show ?thesis using assms(1) e unfolding socks5_connect_def client_greeted
    by (cases res) (auto simp: read_exact_def drain_bound_def socks_reply_def socks_consts)
qed

lemma establish_reconciles:
  "establish_upstream overlay direct pl host port = (tried, res) \<Longrightarrow>
     (case res of Inr UpOverlay \<Rightarrow> FinalOverlay | Inr UpDirect \<Rightarrow> FinalDirect | Inl action \<Rightarrow> action)
       = reconcile pl (case pl of RouteDirect \<Rightarrow> None | RouteOverlay _ \<Rightarrow> Some (overlay host port))"
  by (auto simp: establish_upstream_def split: planned_route.splits if_splits)

text \<open>A planned overlay route without fallback is tried through the overlay only; a direct one only directly.\<close>

lemma serve_strict_route:
  assumes "length host \<le> 255" "utf8_valid (as_bytes host)" "plan p host = RouteOverlay False"
  shows "snd (serve_conn p overlay direct (socks_greeting @ socks_connect_request host port @ r))
      = ([TriedOverlay host port], if overlay host port then Some (UpOverlay, r) else None)"
    "socks5_connect (\<lambda>b. fst (serve_conn p overlay direct b)) host port = Inr () \<longleftrightarrow> overlay host port"
  using client_connected [OF assms(1,2), of p overlay direct port] assms(3)
  by (auto simp: serve_client [OF assms(1,2)] establish_upstream_def)

lemma serve_direct_route:
  assumes "length host \<le> 255" "utf8_valid (as_bytes host)" "plan p host = RouteDirect"
  shows "fst (snd (serve_conn p overlay direct (socks_greeting @ socks_connect_request host port @ r))) = [TriedDirect host port]"
  using assms(3) by (auto simp: serve_client [OF assms(1,2)] establish_upstream_def)

end
