(* ===== verification/Overlay.thy ===== *)
theory Overlay
  imports Relay_Shim
begin

text \<open>The client side of the overlay (\<open>pollis-core/src/net/overlay.rs\<close>, \<open>net/directory.rs\<close>, \<open>commands/overlay.rs\<close>, the overlay
  settings of \<open>config.rs\<close>, \<open>set_overlay_shim\<close> of \<open>db/remote.rs\<close>): which hosts are routed through the relay, the pool of relays with failover, the signed directory that lists the pool, its
  refresh, and switching the mode while the app runs. Strings are their UTF-8 bytes; files, the network, base64, JSON and strict signature verification are
  arguments.\<close>

section \<open>Configuration and policy\<close>

record overlay_config =
  oc_turso_url :: string
  oc_log_db_url :: "string option"
  oc_pollis_delivery_url :: "string option"
  oc_r2_endpoint :: string
  oc_r2_public_url :: string
  oc_livekit_url :: string
  oc_overlay_relay_url :: "string option"
  oc_overlay_relay_cert :: "string option"
  oc_overlay_directory_url :: "string option"
  oc_overlay_directory_key :: "string option"

definition overlay_directory_configured :: "overlay_config \<Rightarrow> bool" where
  "overlay_directory_configured c \<longleftrightarrow> oc_overlay_directory_url c \<noteq> None \<and> oc_overlay_directory_key c \<noteq> None"

definition overlay_relay_endpoints :: "overlay_config \<Rightarrow> string list" where
  "overlay_relay_endpoints c =
     (case oc_overlay_relay_url c of None \<Rightarrow> [] | Some s \<Rightarrow> filter (\<lambda>e. e \<noteq> []) (map trim (split_on (CHR '','') s)))"

definition parse_overlay_mode :: "string \<Rightarrow> overlay_mode" where
  "parse_overlay_mode s =
     (let t = ascii_lower (trim s) in if t = ''prefer'' then OverlayPrefer else if t = ''strict'' then OverlayStrict else OverlayOff)"

definition host_of :: "string \<Rightarrow> string option" where
  "host_of url =
     (let after_scheme = (case split_once ''://'' url of Some (_, rest) \<Rightarrow> rest | None \<Rightarrow> url);
          host = takeWhile (\<lambda>c. c \<notin> {CHR ''/'', CHR '':'', CHR ''?'', CHR ''#''}) after_scheme
      in if host = [] then None else Some (ascii_lower host))"

definition control_urls :: "overlay_config \<Rightarrow> string list" where
  "control_urls c = List.map_filter id
     [Some (oc_turso_url c), oc_log_db_url c, oc_pollis_delivery_url c, Some (oc_r2_endpoint c), Some (oc_r2_public_url c)]"

definition control_hosts :: "overlay_config \<Rightarrow> string list" where
  "control_hosts c =
     foldl (\<lambda>hosts url. case host_of url of None \<Rightarrow> hosts | Some host \<Rightarrow> if host \<in> set hosts then hosts else hosts @ [host]) [] (control_urls c)"

definition overlay_policy :: "overlay_config \<Rightarrow> overlay_mode \<Rightarrow> routing_policy" where
  "overlay_policy c mode =
     routing_policy_new mode (from_patterns (control_hosts c))
       (from_patterns (case host_of (oc_livekit_url c) of None \<Rightarrow> [] | Some h \<Rightarrow> [h]))"

section \<open>The relay pool\<close>

definition OVERLAY_CERT_IDENTITY_VERSION :: u32 where "OVERLAY_CERT_IDENTITY_VERSION = 1"
definition RELAY_DEAD_COOLDOWN :: nat where "RELAY_DEAD_COOLDOWN = 30 * 10 ^ 9"

record relay_endpoint =
  ep_addr :: string
  ep_cert :: bytes

text \<open>Instants and durations are nanoseconds. The index is an \<open>AtomicUsize\<close>: it wraps at \<open>2 ^ 64\<close>.\<close>

record relay_factory =
  rf_endpoints :: "relay_endpoint list"
  rf_identity :: "client_identity option"
  rf_health :: "nat option list"
  rf_next_start :: nat
  rf_cooldown :: nat

definition relay_factory_new :: "relay_endpoint list \<Rightarrow> nat \<Rightarrow> relay_factory" where
  "relay_factory_new endpoints cooldown =
     \<lparr>rf_endpoints = endpoints, rf_identity = None, rf_health = replicate (length endpoints) None, rf_next_start = 0, rf_cooldown = cooldown\<rparr>"

definition in_cooldown :: "nat \<Rightarrow> nat option \<Rightarrow> bool" where
  "in_cooldown now h = (case h of None \<Rightarrow> False | Some until \<Rightarrow> until > now)"

definition candidate_order :: "nat \<Rightarrow> relay_factory \<Rightarrow> nat list \<times> relay_factory" where
  "candidate_order now f =
     (let n = length (rf_endpoints f);
          start = rf_next_start f mod n;
          idxs = map (\<lambda>i. (start + i) mod n) [0..<n]
      in (filter (\<lambda>i. \<not> in_cooldown now (rf_health f ! i)) idxs @ filter (\<lambda>i. in_cooldown now (rf_health f ! i)) idxs,
          f\<lparr>rf_next_start := (rf_next_start f + 1) mod 2 ^ 64\<rparr>))"

definition mark_dead :: "nat \<Rightarrow> nat \<Rightarrow> relay_factory \<Rightarrow> relay_factory" where
  "mark_dead now idx f = f\<lparr>rf_health := (rf_health f)[idx := Some (now + rf_cooldown f)]\<rparr>"

definition mark_healthy :: "nat \<Rightarrow> relay_factory \<Rightarrow> relay_factory" where
  "mark_healthy idx f = f\<lparr>rf_health := (rf_health f)[idx := None]\<rparr>"

text \<open>\<open>dial\<close> gives the outcome of one dial, a timeout included, and the time when it ended.\<close>

fun try_pool :: "(relay_endpoint \<Rightarrow> (string + unit) \<times> nat) \<Rightarrow> nat list \<Rightarrow> string option \<Rightarrow> relay_factory \<Rightarrow> (string + nat) \<times> relay_factory" where
  "try_pool dial [] last_err f =
     (Inl (unwrap_or ''overlay: relay pool exhausted with no endpoints'' last_err), f)"
| "try_pool dial (idx # idxs) last_err f =
     (case dial (rf_endpoints f ! idx) of
        (Inr _, t) \<Rightarrow> (Inr idx, mark_healthy idx f)
      | (Inl e, t) \<Rightarrow> try_pool dial idxs (Some e) (mark_dead t idx f))"

text \<open>\<open>build\<close> is the identity of the logged-in device, if it can be loaded; it is cached once loaded.\<close>

definition load_identity :: "(string + client_identity) \<Rightarrow> relay_factory \<Rightarrow> string + client_identity \<times> relay_factory" where
  "load_identity build f =
     (case rf_identity f of
        Some idn \<Rightarrow> Inr (idn, f)
      | None \<Rightarrow> bind_res build (\<lambda>idn. Inr (idn, f\<lparr>rf_identity := Some idn\<rparr>)))"

definition factory_connect :: "(string + client_identity) \<Rightarrow> (client_identity \<Rightarrow> relay_endpoint \<Rightarrow> (string + unit) \<times> nat) \<Rightarrow> nat \<Rightarrow> relay_factory \<Rightarrow>
    (string + nat) \<times> relay_factory" where
  "factory_connect build dial now f =
     (if rf_endpoints f = [] then (Inl ''overlay: no relay endpoint / pinned cert configured'', f)
      else case load_identity build f of
        Inl e \<Rightarrow> (Inl e, f)
      | Inr (idn, f) \<Rightarrow> (let (order, f) = candidate_order now f in try_pool (dial idn) order None f))"

text \<open>The configured list: one pinned certificate for all addresses, and no endpoint without it.\<close>

definition load_pinned_cert :: "b64 \<Rightarrow> (string \<Rightarrow> bool) \<Rightarrow> (string \<Rightarrow> bytes option) \<Rightarrow> string \<Rightarrow> bytes option" where
  "load_pinned_cert E is_file read_file s =
     (let s = trim s in if s = [] then None else if is_file s then read_file s else b64_dec E s)"

definition load_relay_endpoints :: "b64 \<Rightarrow> (string \<Rightarrow> bool) \<Rightarrow> (string \<Rightarrow> bytes option) \<Rightarrow> overlay_config \<Rightarrow> relay_endpoint list" where
  "load_relay_endpoints E is_file read_file c =
     (let addrs = overlay_relay_endpoints c in
      if addrs = [] then []
      else case Option.bind (oc_overlay_relay_cert c) (load_pinned_cert E is_file read_file) of
        None \<Rightarrow> []
      | Some cert \<Rightarrow> map (\<lambda>addr. \<lparr>ep_addr = addr, ep_cert = cert\<rparr>) addrs)"

section \<open>The signed directory\<close>

datatype directory_error =
    DFetch
  | DMalformedEnvelope
  | DMalformedPayload
  | DBadBase64 string
  | DBadPinnedKey
  | DBadSignatureLen
  | DBadSignature
  | DUnsupportedVersion u32
  | DExpired i64 i64
  | DEmptyRelays
  | DNoUsableCert

record envelope =
  ev_payload_b64 :: string
  ev_signature_b64 :: string

record directory_relay =
  dr_addr :: string
  dr_region :: string
  dr_cert_b64 :: string

record directory =
  di_version :: u32
  di_issued_at :: i64
  di_expires_at :: i64
  di_relays :: "directory_relay list"

text \<open>The crates the check uses: base64, JSON of the two documents, and \<open>verify_strict\<close>.\<close>

record dir_env =
  de_b64 :: b64
  de_envelope :: "bytes \<Rightarrow> envelope option"
  de_directory :: "bytes \<Rightarrow> directory option"
  de_verify_strict :: "bytes \<Rightarrow> bytes \<Rightarrow> bytes \<Rightarrow> bool"

definition verifying_key_from_b64 :: "lib \<Rightarrow> b64 \<Rightarrow> string \<Rightarrow> directory_error + bytes" where
  "verifying_key_from_b64 L E pinned =
     (case b64_dec E (trim pinned) of
        None \<Rightarrow> Inl (DBadBase64 ''pinned key'')
      | Some raw \<Rightarrow>
          if length raw \<noteq> 32 then Inl DBadPinnedKey
          else (case ed_from_bytes L raw of None \<Rightarrow> Inl DBadPinnedKey | Some key \<Rightarrow> Inr key))"

definition verify_directory :: "lib \<Rightarrow> dir_env \<Rightarrow> bytes \<Rightarrow> string \<Rightarrow> i64 \<Rightarrow> directory_error + directory" where
  "verify_directory L D envelope_bytes pinned now_secs =
     (case de_envelope D envelope_bytes of
        None \<Rightarrow> Inl DMalformedEnvelope
      | Some env \<Rightarrow>
     (case b64_dec (de_b64 D) (ev_payload_b64 env) of
        None \<Rightarrow> Inl (DBadBase64 ''payload_b64'')
      | Some payload \<Rightarrow>
     (case b64_dec (de_b64 D) (ev_signature_b64 env) of
        None \<Rightarrow> Inl (DBadBase64 ''signature_b64'')
      | Some signature \<Rightarrow>
     bind_res (verifying_key_from_b64 L (de_b64 D) pinned) (\<lambda>key.
       if length signature \<noteq> 64 then Inl DBadSignatureLen
       else if \<not> de_verify_strict D key payload signature then Inl DBadSignature
       else case de_directory D payload of
         None \<Rightarrow> Inl DMalformedPayload
       | Some dir \<Rightarrow>
           if di_version dir \<noteq> 1 then Inl (DUnsupportedVersion (di_version dir))
           else if now_secs \<ge> di_expires_at dir then Inl (DExpired now_secs (di_expires_at dir))
           else if di_relays dir = [] then Inl DEmptyRelays
           else Inr dir))))"

definition directory_to_endpoints :: "b64 \<Rightarrow> directory \<Rightarrow> relay_endpoint list" where
  "directory_to_endpoints E dir =
     List.map_filter (\<lambda>r. map_option (\<lambda>der. \<lparr>ep_addr = dr_addr r, ep_cert = der\<rparr>) (b64_dec E (trim (dr_cert_b64 r)))) (di_relays dir)"

definition DIRECTORY_REFRESH_SKEW :: i64 where "DIRECTORY_REFRESH_SKEW = 5 * 60"
definition DIRECTORY_MIN_REFRESH :: int where "DIRECTORY_MIN_REFRESH = 30"
definition DIRECTORY_MAX_REFRESH :: int where "DIRECTORY_MAX_REFRESH = 55 * 60"
definition DIRECTORY_RETRY_BACKOFF :: int where "DIRECTORY_RETRY_BACKOFF = 60"

text \<open>The pause until the next refresh, in seconds; \<open>saturating_sub\<close> stops at the least \<open>i64\<close>.\<close>

definition until_refresh :: "i64 \<Rightarrow> i64 \<Rightarrow> int" where
  "until_refresh expires_at now =
     (let secs = max (wrap_i64 (expires_at - now) - DIRECTORY_REFRESH_SKEW) (- (2 ^ 63))
      in min (max (max secs 0) DIRECTORY_MIN_REFRESH) DIRECTORY_MAX_REFRESH)"

text \<open>\<open>fetched\<close> is what the directory URL answered, if it did.\<close>

definition fetch_and_build_pool :: "lib \<Rightarrow> dir_env \<Rightarrow> string \<Rightarrow> nat \<Rightarrow> bytes option \<Rightarrow> i64 \<Rightarrow> directory_error + relay_factory \<times> i64" where
  "fetch_and_build_pool L D key cooldown fetched now =
     (case fetched of
        None \<Rightarrow> Inl DFetch
      | Some bytes \<Rightarrow>
          bind_res (verify_directory L D bytes key now) (\<lambda>dir.
            let endpoints = directory_to_endpoints (de_b64 D) dir
            in if endpoints = [] then Inl DNoUsableCert
               else Inr (relay_factory_new endpoints cooldown, di_expires_at dir)))"

record overlay_pool =
  op_factory :: relay_factory
  op_next_sleep :: int

definition build_directory_factory :: "nat \<Rightarrow> (directory_error + relay_factory \<times> i64) \<Rightarrow> i64 \<Rightarrow> overlay_pool" where
  "build_directory_factory cooldown built now =
     (case built of
        Inr (factory, expires_at) \<Rightarrow> \<lparr>op_factory = factory, op_next_sleep = until_refresh expires_at now\<rparr>
      | Inl _ \<Rightarrow> \<lparr>op_factory = relay_factory_new [] cooldown, op_next_sleep = DIRECTORY_RETRY_BACKOFF\<rparr>)"

text \<open>One turn of \<open>directory_refresh_loop\<close>.\<close>

definition refresh_pool :: "(directory_error + relay_factory \<times> i64) \<Rightarrow> i64 \<Rightarrow> overlay_pool \<Rightarrow> overlay_pool" where
  "refresh_pool built now pool =
     (case built of
        Inr (factory, expires_at) \<Rightarrow> \<lparr>op_factory = factory, op_next_sleep = until_refresh expires_at now\<rparr>
      | Inl _ \<Rightarrow> pool\<lparr>op_next_sleep := DIRECTORY_RETRY_BACKOFF\<rparr>)"

text \<open>The life of a directory-backed pool: what was fetched and when is arbitrary, and connections change its health marks in between.\<close>

inductive pool_reach :: "lib \<Rightarrow> dir_env \<Rightarrow> string \<Rightarrow> nat \<Rightarrow> overlay_pool \<Rightarrow> bool" for L D key cooldown where
  pool_built: "pool_reach L D key cooldown (build_directory_factory cooldown (fetch_and_build_pool L D key cooldown fetched now) now')"
| pool_refreshed: "pool_reach L D key cooldown pool \<Longrightarrow>
    pool_reach L D key cooldown (refresh_pool (fetch_and_build_pool L D key cooldown fetched now) now' pool)"
| pool_connected: "pool_reach L D key cooldown pool \<Longrightarrow>
    pool_reach L D key cooldown (pool\<lparr>op_factory := snd (factory_connect build dial now (op_factory pool))\<rparr>)"

section \<open>Switching the mode\<close>

text \<open>A remote database: the shim it is to use, and the one its live handle was built with. The argument \<open>ok\<close> tells whether rebuilding succeeds.\<close>

record routed_db =
  rd_shim :: "nat option"
  rd_built :: "nat option"

definition set_overlay_shim :: "nat option \<Rightarrow> bool \<Rightarrow> routed_db \<Rightarrow> bool \<times> routed_db" where
  "set_overlay_shim shim ok db =
     (if rd_shim db = shim then (True, db)
      else if ok then (True, db\<lparr>rd_shim := shim, rd_built := shim\<rparr>) else (False, db\<lparr>rd_shim := shim\<rparr>))"

record overlay_state =
  os_handle :: "(nat \<times> byte) option"
  os_remote_db :: routed_db
  os_log_db :: "routed_db option"

text \<open>\<open>os_log_db\<close> is \<open>None\<close> when the commit-log database is the main one.\<close>

definition reconnect_dbs :: "nat option \<Rightarrow> bool \<Rightarrow> bool \<Rightarrow> overlay_state \<Rightarrow> bool \<times> overlay_state" where
  "reconnect_dbs shim ok1 ok2 st =
     (let (r1, main) = set_overlay_shim shim ok1 (os_remote_db st); st = st\<lparr>os_remote_db := main\<rparr>
      in if \<not> r1 then (False, st)
         else case os_log_db st of
           None \<Rightarrow> (True, st)
         | Some ldb \<Rightarrow> (let (r2, ldb) = set_overlay_shim shim ok2 ldb in (r2, st\<lparr>os_log_db := Some ldb\<rparr>)))"

definition current_mode :: "overlay_state \<Rightarrow> overlay_mode" where
  "current_mode st = (case os_handle st of None \<Rightarrow> OverlayOff | Some (_, m) \<Rightarrow> from_u8 m)"

text \<open>\<open>started\<close> is the address of the new shim, if it starts; the four booleans the rebuilds of the two databases, there and back.\<close>

definition start_and_route :: "nat option \<Rightarrow> bool \<Rightarrow> bool \<Rightarrow> bool \<Rightarrow> bool \<Rightarrow> overlay_mode \<Rightarrow> overlay_state \<Rightarrow> bool \<times> overlay_state" where
  "start_and_route started ok1 ok2 ok3 ok4 mode st =
     (case started of
        None \<Rightarrow> (False, st)
      | Some addr \<Rightarrow>
          let (ok, st) = reconnect_dbs (Some addr) ok1 ok2 (st\<lparr>os_handle := Some (addr, as_u8 mode)\<rparr>)
          in if ok then (True, st) else (False, snd (reconnect_dbs None ok3 ok4 (st\<lparr>os_handle := None\<rparr>))))"

definition stop_and_go_direct :: "bool \<Rightarrow> bool \<Rightarrow> overlay_state \<Rightarrow> bool \<times> overlay_state" where
  "stop_and_go_direct ok1 ok2 st =
     (let (ok, st) = reconnect_dbs None ok1 ok2 st in if ok then (True, st\<lparr>os_handle := None\<rparr>) else (False, st))"

definition apply_overlay_mode :: "nat option \<Rightarrow> bool \<Rightarrow> bool \<Rightarrow> bool \<Rightarrow> bool \<Rightarrow> overlay_mode \<Rightarrow> overlay_state \<Rightarrow> bool \<times> overlay_state" where
  "apply_overlay_mode started ok1 ok2 ok3 ok4 mode st =
     (if current_mode st = mode then (True, st)
      else if current_mode st = OverlayOff then start_and_route started ok1 ok2 ok3 ok4 mode st
      else if mode = OverlayOff then stop_and_go_direct ok1 ok2 st
      else case os_handle st of
        Some (addr, _) \<Rightarrow> (True, st\<lparr>os_handle := Some (addr, as_u8 mode)\<rparr>)
      | None \<Rightarrow> start_and_route started ok1 ok2 ok3 ok4 mode st)"

definition parse_mode :: "string \<Rightarrow> string + overlay_mode" where
  "parse_mode s =
     (let t = ascii_lower (trim s)
      in if t = ''off'' then Inr OverlayOff else if t = ''prefer'' then Inr OverlayPrefer else if t = ''strict'' then Inr OverlayStrict else Inl t)"

fun mode_to_str :: "overlay_mode \<Rightarrow> string" where
  "mode_to_str OverlayOff = ''off''"
| "mode_to_str OverlayPrefer = ''prefer''"
| "mode_to_str OverlayStrict = ''strict''"

definition set_overlay_mode :: "nat option \<Rightarrow> bool \<Rightarrow> bool \<Rightarrow> bool \<Rightarrow> bool \<Rightarrow> string \<Rightarrow> overlay_state \<Rightarrow> bool \<times> overlay_state" where
  "set_overlay_mode started ok1 ok2 ok3 ok4 mode st =
     (case parse_mode mode of Inl _ \<Rightarrow> (False, st) | Inr m \<Rightarrow> apply_overlay_mode started ok1 ok2 ok3 ok4 m st)"

definition get_overlay_mode :: "overlay_state \<Rightarrow> string" where
  "get_overlay_mode st = mode_to_str (current_mode st)"

section \<open>The pool\<close>

lemma candidate_order_perm:
  assumes "rf_endpoints f \<noteq> []"
  shows "set (fst (candidate_order now f)) = {..<length (rf_endpoints f)}"
proof -
  let ?n = "length (rf_endpoints f)" and ?s = "rf_next_start f mod length (rf_endpoints f)"
  have n: "0 < ?n" using assms by simp
  have "i \<in> (\<lambda>i. (?s + i) mod ?n) ` {..<?n}" if "i < ?n" for i
  proof (rule image_eqI)
    have "?s < ?n" using n by simp
    then have "(?s + (i + (?n - ?s)) mod ?n) mod ?n = (i + ?n) mod ?n" by (simp add: mod_add_right_eq)
    then show "i = (?s + (i + (?n - ?s)) mod ?n) mod ?n" using that by simp
    show "(i + (?n - ?s)) mod ?n \<in> {..<?n}" using n by simp
  qed
  moreover have "(\<lambda>i. (?s + i) mod ?n) ` {..<?n} \<subseteq> {..<?n}" using n by auto
  ultimately have "(\<lambda>i. (?s + i) mod ?n) ` {..<?n} = {..<?n}" by blast
  then show ?thesis by (auto simp: candidate_order_def Let_def atLeast_upt lessThan_atLeast0)
qed

lemma rf_endpoints_marks [simp]: "rf_endpoints (mark_dead t i f) = rf_endpoints f" "rf_endpoints (mark_healthy i f) = rf_endpoints f"
  "rf_endpoints (snd (candidate_order now f)) = rf_endpoints f"
  by (simp_all add: mark_dead_def mark_healthy_def candidate_order_def Let_def)

lemma try_pool_result:
  "case try_pool dial idxs err f of
     (Inr i, f') \<Rightarrow> i \<in> set idxs \<and> (\<exists>t. dial (rf_endpoints f ! i) = (Inr (), t))
   | (Inl e, f') \<Rightarrow> \<forall>i \<in> set idxs. \<exists>e t. dial (rf_endpoints f ! i) = (Inl e, t)"
  by (induction dial idxs err f rule: try_pool.induct) (auto split: prod.splits sum.splits)

lemma try_pool_endpoints: "rf_endpoints (snd (try_pool dial idxs err f)) = rf_endpoints f"
  by (induction dial idxs err f rule: try_pool.induct) (auto split: prod.splits sum.splits)

lemma factory_connect_endpoints: "rf_endpoints (snd (factory_connect build dial now f)) = rf_endpoints f"
proof -
  have "rf_endpoints (snd (try_pool (dial idn) idxs None g)) = rf_endpoints g" for idn idxs g by (rule try_pool_endpoints)
  moreover have "candidate_order now g = (idxs, g') \<Longrightarrow> rf_endpoints g' = rf_endpoints g" for g idxs g'
    using rf_endpoints_marks(3) [of now g] by simp
  ultimately show ?thesis
    by (auto simp: factory_connect_def load_identity_def bind_res_def split: option.splits sum.splits prod.splits)
qed

lemma load_identity_endpoints: "load_identity build f = Inr (idn, g) \<Longrightarrow> rf_endpoints g = rf_endpoints f"
  by (auto simp: load_identity_def bind_res_eq_Inr split: option.splits)

text \<open>A pool of relays serves as long as one of its relays does: once the device identity can be loaded, a connection is made exactly if some
  relay of the pool answers, whatever relays are marked dead and whichever the rotation starts from, and it runs through a relay that answered.\<close>

theorem pool_connects_if_any_relay_answers:
  assumes idn: "load_identity build f = Inr (idn, g)" and some: "rf_endpoints f \<noteq> []"
  shows "case fst (factory_connect build dial now f) of
      Inr i \<Rightarrow> i < length (rf_endpoints f) \<and> (\<exists>t. dial idn (rf_endpoints f ! i) = (Inr (), t))
    | Inl e \<Rightarrow> \<forall>ep \<in> set (rf_endpoints f). \<exists>e t. dial idn ep = (Inl e, t)"
proof -
  obtain idxs h where ord: "candidate_order now g = (idxs, h)" by fastforce
  have eps: "rf_endpoints g = rf_endpoints f" using load_identity_endpoints [OF idn] .
  then have h: "rf_endpoints h = rf_endpoints f" using ord rf_endpoints_marks(3) [of now g] by simp
  have idxs: "set idxs = {..<length (rf_endpoints f)}" using candidate_order_perm [of g now] ord eps some by simp
  obtain res k where t: "try_pool (dial idn) idxs None h = (res, k)" by fastforce
  then have "fst (factory_connect build dial now f) = res" using idn some ord by (simp add: factory_connect_def)
  moreover have "case res of Inr i \<Rightarrow> i \<in> set idxs \<and> (\<exists>t. dial idn (rf_endpoints h ! i) = (Inr (), t))
      | Inl e \<Rightarrow> \<forall>i \<in> set idxs. \<exists>e t. dial idn (rf_endpoints h ! i) = (Inl e, t)"
    using try_pool_result [where dial = "dial idn" and idxs = idxs and err = None and f = h] t by (simp split: sum.splits)
  ultimately show ?thesis using h idxs
    by (auto simp: in_set_conv_nth split: sum.splits)
qed

definition demo_endpoint :: "string \<Rightarrow> relay_endpoint" where
  "demo_endpoint addr = \<lparr>ep_addr = addr, ep_cert = [1]\<rparr>"

text \<open>All relays are marked dead, and the second one answers.\<close>

definition demo_factory :: relay_factory where
  "demo_factory = mark_dead 5 1 (mark_dead 5 0 (relay_factory_new [demo_endpoint ''a'', demo_endpoint ''b''] RELAY_DEAD_COOLDOWN))"

theorem pool_connects_if_any_relay_answers_witness:
  "\<exists>i idn. fst (factory_connect (Inr idn) (\<lambda>_ ep. (if ep_addr ep = ''b'' then Inr () else Inl ''down'', 7)) 6 demo_factory) = Inr i \<and> i < 2"
proof -
  let ?dial = "\<lambda>(_ :: client_identity) ep. (if ep_addr ep = ''b'' then Inr () else Inl ''down'', 7 :: nat)"
  fix idn :: client_identity
  have idn: "load_identity (Inr idn) demo_factory = Inr (idn, demo_factory\<lparr>rf_identity := Some idn\<rparr>)"
    by (simp add: load_identity_def demo_factory_def mark_dead_def relay_factory_new_def)
  have eps: "rf_endpoints demo_factory = [demo_endpoint ''a'', demo_endpoint ''b'']" by (simp add: demo_factory_def relay_factory_new_def)
  show ?thesis
    using pool_connects_if_any_relay_answers [OF idn, of ?dial 6] eps
    by (intro exI [of _ "projr (fst (factory_connect (Inr idn) ?dial 6 demo_factory))"] exI [of _ idn])
      (auto simp: demo_endpoint_def split: sum.splits)
qed

section \<open>The directory\<close>

lemma verify_directory_Inr:
  "verify_directory L D bytes pinned now = Inr dir \<Longrightarrow>
     \<exists>env payload sig key. de_envelope D bytes = Some env \<and> b64_dec (de_b64 D) (ev_payload_b64 env) = Some payload
       \<and> b64_dec (de_b64 D) (ev_signature_b64 env) = Some sig \<and> verifying_key_from_b64 L (de_b64 D) pinned = Inr key
       \<and> de_verify_strict D key payload sig \<and> de_directory D payload = Some dir \<and> di_version dir = 1 \<and> now < di_expires_at dir"
  by (auto simp: verify_directory_def bind_res_eq_Inr split: option.splits if_splits)

text \<open>An endpoint is vouched for if a directory that was signed under the pinned key, and had not expired when it was read, lists it with its certificate.\<close>

definition vouched :: "lib \<Rightarrow> dir_env \<Rightarrow> string \<Rightarrow> relay_endpoint \<Rightarrow> bool" where
  "vouched L D pinned ep \<longleftrightarrow> (\<exists>key payload sig dir relay now. verifying_key_from_b64 L (de_b64 D) pinned = Inr key
     \<and> de_verify_strict D key payload sig \<and> de_directory D payload = Some dir \<and> now < di_expires_at dir
     \<and> relay \<in> set (di_relays dir) \<and> ep_addr ep = dr_addr relay \<and> b64_dec (de_b64 D) (trim (dr_cert_b64 relay)) = Some (ep_cert ep))"

lemma directory_endpoints_vouched:
  assumes "fetch_and_build_pool L D pinned cooldown fetched now = Inr (f, expires_at)" "ep \<in> set (rf_endpoints f)"
  shows "vouched L D pinned ep"
proof -
  from assms(1) obtain bytes dir where dir: "verify_directory L D bytes pinned now = Inr dir"
    and f: "rf_endpoints f = directory_to_endpoints (de_b64 D) dir"
    by (auto simp: fetch_and_build_pool_def bind_res_eq_Inr Let_def relay_factory_new_def split: option.splits if_splits)
  from f assms(2) obtain relay where relay: "relay \<in> set (di_relays dir)" "ep_addr ep = dr_addr relay"
    "b64_dec (de_b64 D) (trim (dr_cert_b64 relay)) = Some (ep_cert ep)"
    by (auto simp: directory_to_endpoints_def List.map_filter_def)
  from verify_directory_Inr [OF dir] obtain key payload sig where "verifying_key_from_b64 L (de_b64 D) pinned = Inr key"
    "de_verify_strict D key payload sig" "de_directory D payload = Some dir" "now < di_expires_at dir" by blast
  with relay show ?thesis unfolding vouched_def by blast
qed

lemma pool_reach_vouched: "pool_reach L D pinned cooldown pool \<Longrightarrow> \<forall>ep \<in> set (rf_endpoints (op_factory pool)). vouched L D pinned ep"
proof (induction rule: pool_reach.induct)
  case (pool_built fetched now now')
  show ?case using directory_endpoints_vouched [of L D pinned cooldown fetched now]
    by (auto simp: build_directory_factory_def relay_factory_new_def split: sum.splits)
next
  case (pool_refreshed pool fetched now now')
  then show ?case using directory_endpoints_vouched [of L D pinned cooldown fetched now]
    by (auto simp: refresh_pool_def split: sum.splits)
next
  case (pool_connected pool build dial now)
  then show ?case by (simp add: factory_connect_endpoints)
qed

lemma until_refresh_bounds: "30 \<le> until_refresh e now" "until_refresh e now \<le> 3300"
  by (simp_all add: until_refresh_def DIRECTORY_MIN_REFRESH_def DIRECTORY_MAX_REFRESH_def Let_def)

lemma pool_reach_sleep: "pool_reach L D pinned cooldown pool \<Longrightarrow> 30 \<le> op_next_sleep pool \<and> op_next_sleep pool \<le> 3300"
  by (induction rule: pool_reach.induct)
    (auto simp: build_directory_factory_def refresh_pool_def until_refresh_bounds DIRECTORY_RETRY_BACKOFF_def split: sum.splits)

text \<open>Whatever the directory host answers over the life of the overlay, every relay the client dials, and the certificate it pins for it, was listed by a
  directory signed under the pinned key and unexpired when it was read; an answer that fails the check changes nothing but the timer, so the pool
  outlives the expiry of the directory it came from; and the next refresh is always between 30 seconds and 55 minutes away.\<close>

theorem pool_only_from_signed_directory:
  assumes "pool_reach L D pinned cooldown pool"
  shows "(\<forall>ep \<in> set (rf_endpoints (op_factory pool)). vouched L D pinned ep)
    \<and> (verify_directory L D bytes pinned now = Inl err \<longrightarrow>
        op_factory (refresh_pool (fetch_and_build_pool L D pinned cooldown (Some bytes) now) now' pool) = op_factory pool)
    \<and> 30 \<le> op_next_sleep pool \<and> op_next_sleep pool \<le> 3300"
  using pool_reach_vouched [OF assms] pool_reach_sleep [OF assms]
  by (auto simp: fetch_and_build_pool_def refresh_pool_def)

definition demo_directory :: directory where
  "demo_directory = \<lparr>di_version = 1, di_issued_at = 0, di_expires_at = 2000, di_relays = [\<lparr>dr_addr = ''r:1'', dr_region = [], dr_cert_b64 = ''x''\<rparr>]\<rparr>"

definition demo_dir_env :: dir_env where
  "demo_dir_env = \<lparr>de_b64 = demo_b64, de_envelope = (\<lambda>b. if b = [] then None else Some \<lparr>ev_payload_b64 = [], ev_signature_b64 = replicate 64 CHR ''s''\<rparr>),
     de_directory = (\<lambda>_. Some demo_directory), de_verify_strict = (\<lambda>_ _ _. True)\<rparr>"

theorem pool_only_from_signed_directory_witness:
  "\<exists>pool. pool_reach demo_lib demo_dir_env (replicate 32 CHR ''k'') 5 pool \<and> rf_endpoints (op_factory pool) = [\<lparr>ep_addr = ''r:1'', ep_cert = as_bytes ''x''\<rparr>]
     \<and> vouched demo_lib demo_dir_env (replicate 32 CHR ''k'') \<lparr>ep_addr = ''r:1'', ep_cert = as_bytes ''x''\<rparr>"
proof -
  let ?k = "replicate 32 CHR ''k''"
  have "trim ?k = ?k" by (rule trim_plain) (simp_all add: char_codes_def eval_nat_numeral)
  moreover have "trim ''x'' = ''x''" by (rule trim_plain) (simp_all add: char_codes_def)
  ultimately have pool: "fetch_and_build_pool demo_lib demo_dir_env ?k 5 (Some [1]) 1000 = Inr (relay_factory_new [\<lparr>ep_addr = ''r:1'', ep_cert = as_bytes ''x''\<rparr>] 5, 2000)"
    by (simp add: fetch_and_build_pool_def verify_directory_def demo_dir_env_def demo_b64_def demo_directory_def verifying_key_from_b64_def demo_lib_def
        directory_to_endpoints_def List.map_filter_def)
  let ?pool = "build_directory_factory 5 (fetch_and_build_pool demo_lib demo_dir_env ?k 5 (Some [1]) 1000) 1000"
  have r: "pool_reach demo_lib demo_dir_env ?k 5 ?pool" by (rule pool_built)
  have eps: "rf_endpoints (op_factory ?pool) = [\<lparr>ep_addr = ''r:1'', ep_cert = as_bytes ''x''\<rparr>]"
    by (simp add: pool build_directory_factory_def relay_factory_new_def)
  show ?thesis using pool_only_from_signed_directory [OF r, of "[]" 0 DMalformedEnvelope 0] r eps by (intro exI [of _ ?pool]) simp
qed

section \<open>The plane split\<close>

text \<open>A lower-case host is matched by the pattern it is written as, be it exact or a glob.\<close>

lemma parse_pattern_self:
  assumes "ascii_lower h = h"
  shows "pattern_matches (parse_pattern h) h"
proof (cases "strip_prefix ''*.'' h")
  case None
  then show ?thesis using assms by (simp add: parse_pattern_def)
next
  case (Some r)
  then have h: "h = ''*.'' @ r" by (simp add: strip_prefix_Some)
  then have "ascii_lower r = r" using assms by (simp add: ascii_lower_def)
  then show ?thesis using Some h assms by (simp add: parse_pattern_def ends_with_def)
qed

lemma parse_pattern_exact: "hd h \<noteq> CHR ''*'' \<Longrightarrow> h \<noteq> [] \<Longrightarrow> parse_pattern h = HExact (ascii_lower h)"
  by (cases h) (auto simp: parse_pattern_def strip_prefix_def)

lemma host_of_lower: "host_of url = Some h \<Longrightarrow> ascii_lower h = h \<and> h \<noteq> []"
  by (auto simp: host_of_def Let_def ascii_lower_def [of "[]"] split: if_splits) (simp_all add: ascii_lower_def)

lemma foldl_hosts:
  "set (foldl (\<lambda>hosts url. case host_of url of None \<Rightarrow> hosts | Some host \<Rightarrow> if host \<in> set hosts then hosts else hosts @ [host]) acc urls)
     = set acc \<union> {h. \<exists>url \<in> set urls. host_of url = Some h}"
  by (induction urls arbitrary: acc) (auto split: option.splits)

lemma control_host_routed: "url \<in> set (control_urls c) \<Longrightarrow> host_of url = Some h \<Longrightarrow> is_overlay_host (overlay_policy c mode) h"
  using parse_pattern_self [of h] host_of_lower [of url h]
  by (auto simp: is_overlay_host_def overlay_policy_def routing_policy_new_def from_patterns_def control_hosts_def list_ex_iff foldl_hosts)

lemma control_host_not_direct:
  assumes "host_of url = Some h" "\<And>m. host_of (oc_livekit_url c) = Some m \<Longrightarrow> m \<noteq> h \<and> hd m \<noteq> CHR ''*''"
  shows "\<not> is_direct_host (overlay_policy c mode) h"
proof (cases "host_of (oc_livekit_url c)")
  case None
  then show ?thesis by (simp add: is_direct_host_def overlay_policy_def routing_policy_new_def from_patterns_def)
next
  case (Some m)
  with assms host_of_lower [OF Some] host_of_lower [OF assms(1)] show ?thesis
    by (auto simp: is_direct_host_def overlay_policy_def routing_policy_new_def from_patterns_def parse_pattern_exact)
qed


definition demo_overlay_config :: overlay_config where
  "demo_overlay_config = \<lparr>oc_turso_url = ''libsql://db.Turso.io:443/x'', oc_log_db_url = None, oc_pollis_delivery_url = None, oc_r2_endpoint = [], oc_r2_public_url = [],
     oc_livekit_url = ''wss://media.io'', oc_overlay_relay_url = None, oc_overlay_relay_cert = None, oc_overlay_directory_url = None, oc_overlay_directory_key = None\<rparr>"


section \<open>Switching\<close>

definition db_follows :: "nat option \<Rightarrow> routed_db \<Rightarrow> bool" where
  "db_follows shim db \<longleftrightarrow> rd_shim db = shim \<and> rd_built db = shim"

definition overlay_consistent :: "overlay_state \<Rightarrow> bool" where
  "overlay_consistent st \<longleftrightarrow> db_follows (map_option fst (os_handle st)) (os_remote_db st)
     \<and> (\<forall>db. os_log_db st = Some db \<longrightarrow> db_follows (map_option fst (os_handle st)) db)
     \<and> (\<forall>a m. os_handle st = Some (a, m) \<longrightarrow> from_u8 m \<noteq> OverlayOff)"

lemmas switch_defs = apply_overlay_mode_def start_and_route_def stop_and_go_direct_def reconnect_dbs_def set_overlay_shim_def current_mode_def

text \<open>A switch that succeeds leaves handle and databases on the same route.\<close>

lemma set_overlay_shim_follows:
  "set_overlay_shim shim ok db = (True, db') \<Longrightarrow> rd_shim db = rd_built db \<Longrightarrow> db_follows shim db'"
  by (auto simp: set_overlay_shim_def db_follows_def split: if_splits)

lemma reconnect_dbs_follow:
  assumes "reconnect_dbs shim ok1 ok2 st = (True, st')" "rd_shim (os_remote_db st) = rd_built (os_remote_db st)"
    "\<And>db. os_log_db st = Some db \<Longrightarrow> rd_shim db = rd_built db"
  shows "db_follows shim (os_remote_db st') \<and> (\<forall>db. os_log_db st' = Some db \<longrightarrow> db_follows shim db) \<and> os_handle st' = os_handle st"
proof (cases "os_log_db st")
  case None
  with assms(1) obtain main where m: "set_overlay_shim shim ok1 (os_remote_db st) = (True, main)" "st' = st\<lparr>os_remote_db := main\<rparr>"
    by (auto simp: reconnect_dbs_def Let_def split: prod.splits if_splits)
  with None show ?thesis using set_overlay_shim_follows [OF m(1) assms(2)] by simp
next
  case (Some ldb)
  with assms(1) obtain main ldb' where m: "set_overlay_shim shim ok1 (os_remote_db st) = (True, main)" "set_overlay_shim shim ok2 ldb = (True, ldb')"
      "st' = st\<lparr>os_remote_db := main, os_log_db := Some ldb'\<rparr>"
    by (auto simp: reconnect_dbs_def Let_def split: prod.splits if_splits)
  with Some show ?thesis using set_overlay_shim_follows [OF m(1) assms(2)] set_overlay_shim_follows [OF m(2) assms(3)] by simp
qed

lemma consistent_settled:
  "overlay_consistent st \<Longrightarrow> rd_shim (os_remote_db st) = rd_built (os_remote_db st)"
  "overlay_consistent st \<Longrightarrow> os_log_db st = Some db \<Longrightarrow> rd_shim db = rd_built db"
  by (auto simp: overlay_consistent_def db_follows_def)

lemma start_and_route_consistent:
  assumes "overlay_consistent st" "start_and_route started ok1 ok2 ok3 ok4 mode st = (True, st')" "mode \<noteq> OverlayOff"
  shows "overlay_consistent st' \<and> current_mode st' = mode"
proof -
  from assms(2) obtain a where a: "reconnect_dbs (Some a) ok1 ok2 (st\<lparr>os_handle := Some (a, as_u8 mode)\<rparr>) = (True, st')"
    by (auto simp: start_and_route_def Let_def split: option.splits prod.splits if_splits)
  have "db_follows (Some a) (os_remote_db st') \<and> (\<forall>db. os_log_db st' = Some db \<longrightarrow> db_follows (Some a) db) \<and> os_handle st' = Some (a, as_u8 mode)"
    using reconnect_dbs_follow [OF a] consistent_settled [OF assms(1)] by simp
  with assms(3) show ?thesis by (simp add: overlay_consistent_def current_mode_def)
qed

lemma stop_and_go_direct_consistent:
  assumes "overlay_consistent st" "stop_and_go_direct ok1 ok2 st = (True, st')"
  shows "overlay_consistent st' \<and> current_mode st' = OverlayOff"
proof -
  from assms(2) obtain st1 where a: "reconnect_dbs None ok1 ok2 st = (True, st1)" "st' = st1\<lparr>os_handle := None\<rparr>"
    by (auto simp: stop_and_go_direct_def Let_def split: prod.splits if_splits)
  have "db_follows None (os_remote_db st1) \<and> (\<forall>db. os_log_db st1 = Some db \<longrightarrow> db_follows None db)"
    using reconnect_dbs_follow [OF a(1)] consistent_settled [OF assms(1)] by simp
  with a(2) show ?thesis by (simp add: overlay_consistent_def current_mode_def)
qed

lemma overlay_switch_consistent:
  assumes "overlay_consistent st" "apply_overlay_mode started ok1 ok2 ok3 ok4 mode st = (True, st')"
  shows "overlay_consistent st' \<and> current_mode st' = mode"
proof -
  consider "current_mode st = mode" | "current_mode st \<noteq> mode" "current_mode st = OverlayOff" | "current_mode st \<noteq> OverlayOff" "mode = OverlayOff"
    | "current_mode st \<noteq> mode" "current_mode st \<noteq> OverlayOff" "mode \<noteq> OverlayOff" by blast
  then show ?thesis
  proof cases
    case 1
    then show ?thesis using assms by (simp add: apply_overlay_mode_def)
  next
    case 2
    then show ?thesis using start_and_route_consistent [OF assms(1)] assms(2) unfolding apply_overlay_mode_def by metis
  next
    case 3
    then show ?thesis using stop_and_go_direct_consistent [OF assms(1)] assms(2) unfolding apply_overlay_mode_def by metis
  next
    case 4
    then obtain a m where h: "os_handle st = Some (a, m)" unfolding current_mode_def by (cases "os_handle st") auto
    with 4 assms(2) have "st' = st\<lparr>os_handle := Some (a, as_u8 mode)\<rparr>" by (simp add: apply_overlay_mode_def)
    then show ?thesis using assms(1) h 4(3) by (simp add: overlay_consistent_def current_mode_def)
  qed
qed

text \<open>A failed switch to off does not: when the second database cannot be rebuilt, the first is already on a direct connection while the mode still reads strict.\<close>

lemma failed_stop_leaves_strict_direct:
  assumes "overlay_consistent st" "os_handle st = Some (a, as_u8 OverlayStrict)" "os_log_db st = Some ldb"
  shows "\<exists>st'. apply_overlay_mode started True False ok3 ok4 OverlayOff st = (False, st')
    \<and> current_mode st' = OverlayStrict \<and> rd_built (os_remote_db st') = None"
  using assms by (auto simp: switch_defs overlay_consistent_def db_follows_def Let_def from_u8_def)

end
