(* ===== verification/Client_Framing.thy ===== *)
theory Client_Framing
  imports Wire
begin

text \<open>Two decisions of the client's message path that touch no other component: the size padding inside a ciphertext
  (\<open>messages/framing.rs\<close>) and the delivery cursor of a conversation (\<open>messages/watermark.rs\<close>). The cursor is shown equal to its
  specification, the latest stamp below every message that has to be fetched again.\<close>

section \<open>Size padding\<close>

definition PAD_FRAMING_V1 :: byte where "PAD_FRAMING_V1 = 0xF5"
definition REDACT_FRAMING_V1 :: byte where "REDACT_FRAMING_V1 = 0xF6"
definition HEADER :: nat where "HEADER = 1 + 4"
definition MIN_BUCKET :: nat where "MIN_BUCKET = 256"

text \<open>\<open>usize::BITS - 1 - x.leading_zeros()\<close>, for \<open>x \<ge> 1\<close>.\<close>

fun floor_log2 :: "nat \<Rightarrow> nat" where
  "floor_log2 n = (if n < 2 then 0 else Suc (floor_log2 (n div 2)))"

declare floor_log2.simps [simp del]

definition padded_len :: "nat \<Rightarrow> nat" where
  "padded_len n =
     (if n \<le> MIN_BUCKET then MIN_BUCKET
      else let e = floor_log2 n;
               s = floor_log2 e + 1;
               last_bits = e - s;
               bucket = push_bit last_bits (1 :: int)
           in nat (and (int n + bucket - 1) (not (bucket - 1))))"

text \<open>\<open>u32::to_le_bytes\<close>, \<open>u32::from_le_bytes\<close> and \<open>Vec::resize\<close>.\<close>

definition le_bytes :: "nat \<Rightarrow> 'a::len word \<Rightarrow> bytes" where
  "le_bytes n w = rev (be_bytes n w)"

definition from_le_bytes :: "bytes \<Rightarrow> 'a::len word" where
  "from_le_bytes b = from_be_bytes (rev b)"

definition resize :: "nat \<Rightarrow> bytes \<Rightarrow> bytes" where
  "resize n b = take n b @ replicate (n - length b) 0"

definition pad :: "bytes \<Rightarrow> bytes" where
  "pad plaintext =
     (let buf = [PAD_FRAMING_V1] @ le_bytes 4 (word_of_nat (length plaintext) :: u32) @ plaintext
      in resize (padded_len (length buf)) buf)"

definition strip :: "bytes \<Rightarrow> bytes" where
  "strip buf =
     (case buf of
        [] \<Rightarrow> buf
      | b # _ \<Rightarrow>
          if b \<noteq> PAD_FRAMING_V1 then buf
          else if length buf < HEADER then buf
          else let len = unat (from_le_bytes (take 4 (drop 1 buf)) :: u32);
                   end = HEADER + len
               in if end > length buf then buf else drop HEADER (take end buf))"

datatype frame = Text bytes | Redaction string

definition pad_redaction :: "string \<Rightarrow> bytes" where
  "pad_redaction target_message_id =
     (let buf = [REDACT_FRAMING_V1] @ le_bytes 4 (word_of_nat (length target_message_id) :: u32) @ as_bytes target_message_id
      in resize (padded_len (length buf)) buf)"

definition classify_frame :: "bytes \<Rightarrow> frame" where
  "classify_frame buf =
     (let len = unat (from_le_bytes (take 4 (drop 1 buf)) :: u32);
          end = HEADER + len
      in if buf \<noteq> [] \<and> hd buf = REDACT_FRAMING_V1 \<and> length buf \<ge> HEADER \<and> end \<le> length buf
         then (case from_utf8 (drop HEADER (take end buf)) of Some target \<Rightarrow> Redaction target | None \<Rightarrow> Text (strip buf))
         else Text (strip buf))"

subsection \<open>Buckets\<close>

lemma floor_log2_bounds: "0 < n \<Longrightarrow> 2 ^ floor_log2 n \<le> n \<and> n < 2 ^ Suc (floor_log2 n)"
proof (induction n rule: floor_log2.induct)
  case (1 n)
  show ?case
  proof (cases "n < 2")
    case True
    with 1(2) show ?thesis by (simp add: floor_log2.simps [of n])
  next
    case False
    with 1(1) have "2 ^ floor_log2 (n div 2) \<le> n div 2" "n div 2 < 2 ^ Suc (floor_log2 (n div 2))" by auto
    then have "2 * 2 ^ floor_log2 (n div 2) \<le> n" "n < 2 * 2 ^ Suc (floor_log2 (n div 2))" by auto
    with False show ?thesis by (simp add: floor_log2.simps [of n])
  qed
qed

lemma pow2_less_Suc: "(2::nat) ^ a < 2 ^ Suc b \<Longrightarrow> a \<le> b"
  using power_less_imp_less_exp [of "2::nat" a "Suc b"] by (simp only: less_Suc_eq_le)

lemma floor_log2_eqI: "2 ^ k \<le> n \<Longrightarrow> n < 2 ^ Suc k \<Longrightarrow> floor_log2 n = k"
proof -
  assume a: "2 ^ k \<le> n" "n < 2 ^ Suc k"
  then have "0 < n" by (metis le_zero_eq neq0_conv power_not_zero zero_neq_numeral)
  with floor_log2_bounds have b: "2 ^ floor_log2 n \<le> n" "n < 2 ^ Suc (floor_log2 n)" by blast+
  show ?thesis
  proof (rule antisym)
    from b(1) a(2) have "(2::nat) ^ floor_log2 n < 2 ^ Suc k" by (rule le_less_trans)
    then show "floor_log2 n \<le> k" by (rule pow2_less_Suc)
    from a(1) b(2) have "(2::nat) ^ k < 2 ^ Suc (floor_log2 n)" by (rule le_less_trans)
    then show "k \<le> floor_log2 n" by (rule pow2_less_Suc)
  qed
qed

lemma floor_log2_mono: "m \<le> n \<Longrightarrow> floor_log2 m \<le> floor_log2 n"
proof (cases "m = 0")
  case False
  assume "m \<le> n"
  with False have "(2::nat) ^ floor_log2 m < 2 ^ Suc (floor_log2 n)"
    using floor_log2_bounds [of m] floor_log2_bounds [of n] by linarith
  then show ?thesis by (rule pow2_less_Suc)
qed (simp add: floor_log2.simps [of 0])

lemma round_up_mask:
  "nat (and (int n + push_bit k 1 - 1) (not (push_bit k 1 - 1))) = (n + 2 ^ k - 1) div 2 ^ k * 2 ^ k"
proof -
  define x where "x = n + 2 ^ k - 1"
  have x: "int n + push_bit k 1 - 1 = int x" by (simp add: x_def push_bit_eq_mult Suc_le_eq of_nat_diff)
  have "and (int x) (not (push_bit k 1 - 1)) = and (int x) (not (mask k))" by (simp add: mask_eq_exp_minus_1 push_bit_eq_mult)
  also have "\<dots> = push_bit k (drop_bit k (int x))" by (rule bit_eqI) (auto simp: bit_simps)
  also have "\<dots> = int (x div 2 ^ k * 2 ^ k)" by (simp add: push_bit_eq_mult drop_bit_eq_div zdiv_int)
  finally show ?thesis by (simp only: x nat_int x_def)
qed

text \<open>The exponent of the bucket of \<open>n\<close>, and the length as a rounding up to a multiple of the bucket.\<close>

definition bucket_bits :: "nat \<Rightarrow> nat" where
  "bucket_bits n = floor_log2 n - (floor_log2 (floor_log2 n) + 1)"

lemma padded_len_eq: "256 < n \<Longrightarrow> padded_len n = (n + 2 ^ bucket_bits n - 1) div 2 ^ bucket_bits n * 2 ^ bucket_bits n"
  using round_up_mask [of n "bucket_bits n"] by (simp add: padded_len_def MIN_BUCKET_def bucket_bits_def Let_def)

lemma round_up_bounds:
  assumes "0 < (b :: nat)"
  shows "n \<le> (n + b - 1) div b * b" "(n + b - 1) div b * b < n + b"
proof -
  have "(n + b - 1) mod b < b" using assms by simp
  moreover have "(n + b - 1) div b * b + (n + b - 1) mod b = n + b - 1" by simp
  ultimately show "n \<le> (n + b - 1) div b * b" "(n + b - 1) div b * b < n + b" using assms by linarith+
qed

lemma bucket_small:
  assumes "256 < n"
  shows "16 * 2 ^ bucket_bits n \<le> n"
proof -
  have e: "8 \<le> floor_log2 n" using floor_log2_mono [of 256 n] assms floor_log2_eqI [of 8 256] by simp
  have s: "3 \<le> floor_log2 (floor_log2 n)" using floor_log2_mono [OF e] floor_log2_eqI [of 3 8] by simp
  have "floor_log2 (floor_log2 n) < floor_log2 n"
    using floor_log2_bounds [of "floor_log2 n"] e less_exp [of "floor_log2 (floor_log2 n)"] by linarith
  with s have "4 + bucket_bits n \<le> floor_log2 n" by (simp add: bucket_bits_def)
  then have "(2::nat) ^ (4 + bucket_bits n) \<le> 2 ^ floor_log2 n" by (rule power_increasing) simp
  also have "\<dots> \<le> n" using floor_log2_bounds [of n] assms by simp
  finally show ?thesis by (simp add: power_add)
qed

lemma padded_len_bounds: "n \<le> padded_len n" "256 \<le> padded_len n" "256 < n \<Longrightarrow> 16 * padded_len n < 17 * n"
proof -
  have "n \<le> padded_len n \<and> 256 \<le> padded_len n \<and> (256 < n \<longrightarrow> 16 * padded_len n < 17 * n)"
  proof (cases "256 < n")
    case True
    with round_up_bounds [of "2 ^ bucket_bits n" n] bucket_small [OF True] show ?thesis by (simp add: padded_len_eq)
  qed (simp add: padded_len_def MIN_BUCKET_def)
  then show "n \<le> padded_len n" "256 \<le> padded_len n" "256 < n \<Longrightarrow> 16 * padded_len n < 17 * n" by blast+
qed

lemma padded_len_below_power:
  assumes "256 < n"
  shows "padded_len n \<le> 2 ^ Suc (floor_log2 n)"
proof -
  define b where "b = bucket_bits n"
  define c where "c = (2::nat) ^ (Suc (floor_log2 n) - b)"
  have cb: "c * 2 ^ b = 2 ^ Suc (floor_log2 n)"
    by (simp add: c_def b_def bucket_bits_def flip: power_add)
  have "n < c * 2 ^ b" unfolding cb using floor_log2_bounds [of n] assms by simp
  then have "n + 2 ^ b - 1 < Suc c * 2 ^ b" by (simp add: algebra_simps)
  then have "(n + 2 ^ b - 1) div 2 ^ b \<le> c" by (metis less_Suc_eq_le less_mult_imp_div_less)
  then have "(n + 2 ^ b - 1) div 2 ^ b * 2 ^ b \<le> c * 2 ^ b" by (rule mult_le_mono1)
  with assms cb show ?thesis by (simp add: padded_len_eq b_def)
qed

lemma padded_len_mono: "m \<le> n \<Longrightarrow> padded_len m \<le> padded_len n"
proof -
  assume le: "m \<le> n"
  show ?thesis
  proof (cases "256 < m")
    case True
    show ?thesis
    proof (cases "floor_log2 m = floor_log2 n")
      case eq: True
      then have "bucket_bits m = bucket_bits n" by (simp add: bucket_bits_def)
      with True le show ?thesis by (simp add: padded_len_eq div_le_mono diff_le_mono)
    next
      case False
      with floor_log2_mono [OF le] have "Suc (floor_log2 m) \<le> floor_log2 n" by simp
      then have "(2::nat) ^ Suc (floor_log2 m) \<le> 2 ^ floor_log2 n" by (rule power_increasing) simp
      also have "\<dots> \<le> n" using floor_log2_bounds [of n] True le by simp
      finally show ?thesis using padded_len_below_power [OF True] padded_len_bounds(1) [of n] by linarith
    qed
  next
    case False
    then show ?thesis using padded_len_bounds(2) [of n] by (simp add: padded_len_def MIN_BUCKET_def)
  qed
qed

subsection \<open>Frames\<close>

lemma from_le_bytes_inverse [simp]: "LENGTH('w::len) \<le> 8 * n \<Longrightarrow> from_le_bytes (le_bytes n (w :: 'w word)) = w"
  by (simp add: from_le_bytes_def le_bytes_def)

lemma length_le_bytes [simp]: "length (le_bytes n w) = n"
  by (simp add: le_bytes_def)

lemma resize_grow: "length b \<le> n \<Longrightarrow> resize n b = b @ replicate (n - length b) 0"
  by (simp add: resize_def)

text \<open>Both kinds of frame are a marker, the length of the body, the body and zeros.\<close>

lemma framed:
  fixes marker :: byte
  assumes "buf = [marker] @ le_bytes 4 (word_of_nat (length body) :: u32) @ body" "length body < 2 ^ 32"
    and "f = resize (padded_len (length buf)) buf"
  shows "hd f = marker" "f \<noteq> []" "length f = padded_len (HEADER + length body)" "HEADER + length body \<le> length f"
    and "unat (from_le_bytes (take 4 (drop 1 f)) :: u32) = length body" "drop HEADER (take (HEADER + length body) f) = body"
proof -
  have len: "length buf = HEADER + length body" using assms(1) by (simp add: HEADER_def)
  have f: "f = buf @ replicate (padded_len (length buf) - length buf) 0"
    using assms(3) padded_len_bounds(1) [of "length buf"] by (simp add: resize_grow)
  show "hd f = marker" "f \<noteq> []" using f assms(1) by simp_all
  show lf: "length f = padded_len (HEADER + length body)" using f len padded_len_bounds(1) [of "length buf"] by simp
  show "HEADER + length body \<le> length f" unfolding lf by (rule padded_len_bounds(1))
  have "unat (word_of_nat (length body) :: u32) = length body" using assms(2) by (simp add: unat_of_nat)
  then show "unat (from_le_bytes (take 4 (drop 1 f)) :: u32) = length body" using f assms(1) by simp
  have "take (HEADER + length body) f = buf" using f by (simp flip: len)
  then show "drop HEADER (take (HEADER + length body) f) = body" using assms(1) by (simp add: HEADER_def)
qed

lemma utf8_no_marker: "utf8_valid b \<Longrightarrow> b = [] \<or> hd b < 0xF5"
proof (cases b)
  case (Cons a s)
  assume v: "utf8_valid b"
  show ?thesis
  proof (rule ccontr)
    assume "\<not> ?thesis"
    with Cons have "0xF5 \<le> a" by (simp add: not_less)
    then have ge: "245 \<le> unat a" by (simp add: word_le_nat_alt)
    then have "\<not> a < 0x80" "\<not> a \<le> 0xDF" "\<not> a \<le> 0xEF" "\<not> a \<le> 0xF3" by (simp_all add: word_le_nat_alt word_less_nat_alt)
    moreover from ge have "a \<noteq> 0xE0" "a \<noteq> 0xED" "a \<noteq> 0xF0" "a \<noteq> 0xF4" by auto
    ultimately have "\<not> utf8_valid (a # s)" by (simp split: list.split)
    with v Cons show False by simp
  qed
qed simp

lemma strip_framed:
  assumes "f \<noteq> []" "hd f = PAD_FRAMING_V1" "HEADER + n \<le> length f" "unat (from_le_bytes (take 4 (drop 1 f)) :: u32) = n"
  shows "strip f = drop HEADER (take (HEADER + n) f)"
  using assms by (cases f) (simp_all add: strip_def)

lemma strip_pad: "length p < 2 ^ 32 \<Longrightarrow> strip (pad p) = p"
proof -
  assume p: "length p < 2 ^ 32"
  note f = framed [OF refl p pad_def [unfolded Let_def]]
  from strip_framed [OF f(2,1,4,5)] f(6) show ?thesis by (rule trans)
qed

lemma classify_text: "b = [] \<or> hd b \<noteq> REDACT_FRAMING_V1 \<Longrightarrow> classify_frame b = Text (strip b)"
  by (auto simp: classify_frame_def Let_def)

lemma length_pad: "length (pad p) = padded_len (HEADER + length p)" "length (pad_redaction t) = padded_len (HEADER + length t)"
  using padded_len_bounds(1) [of "5 + length p"] padded_len_bounds(1) [of "5 + length t"]
  by (simp_all add: pad_def pad_redaction_def Let_def resize_grow HEADER_def)

text \<open>C34. Padding can be undone: the padded form of a text reads as that text, a redaction frame as a redaction of its target, and an unpadded text
  (every text is valid UTF-8) as itself, so that clients with and without padding understand each other.\<close>

theorem message_frames_roundtrip:
  assumes "utf8_valid p" "length p < 2 ^ 32" "utf8_valid (as_bytes target)" "length target < 2 ^ 32"
  shows "classify_frame (pad p) = Text p \<and> classify_frame (pad_redaction target) = Redaction target \<and> classify_frame p = Text p \<and> strip p = p"
proof (intro conjI)
  have "hd (pad p) = PAD_FRAMING_V1" using framed(1) [OF refl assms(2) pad_def [unfolded Let_def]] .
  then show "classify_frame (pad p) = Text p"
    using strip_pad [OF assms(2)] by (simp add: classify_text PAD_FRAMING_V1_def REDACT_FRAMING_V1_def)
  show "classify_frame (pad_redaction target) = Redaction target"
    using framed [OF refl, of "as_bytes target" _ REDACT_FRAMING_V1] assms(3,4) add_leD1 [OF padded_len_bounds(1)]
    by (simp add: pad_redaction_def classify_frame_def Let_def)
  have m: "p = [] \<or> hd p < 0xF5" using utf8_no_marker [OF assms(1)] .
  then show s: "strip p = p" by (cases p) (auto simp: strip_def PAD_FRAMING_V1_def)
  from m have "p = [] \<or> hd p \<noteq> REDACT_FRAMING_V1" by (auto simp: REDACT_FRAMING_V1_def)
  with s show "classify_frame p = Text p" by (simp add: classify_text)
qed

theorem message_frames_roundtrip_witness:
  "classify_frame (pad (as_bytes ''hi'')) = Text (as_bytes ''hi'') \<and> classify_frame (pad_redaction ''m1'') = Redaction ''m1''"
  using message_frames_roundtrip [of "as_bytes ''hi''" "''m1''"] by (simp add: as_bytes_def byte_of_char_def)

text \<open>What a ciphertext's length shows: texts and redactions that fit the smallest bucket have one length, longer texts keep their order and gain
  less than a sixteenth.\<close>

theorem padding_hides_length:
  "(HEADER + length p \<le> MIN_BUCKET \<and> HEADER + length t \<le> MIN_BUCKET \<longrightarrow> length (pad p) = length (pad_redaction t))
   \<and> (length p \<le> length q \<longrightarrow> length (pad p) \<le> length (pad q))
   \<and> (MIN_BUCKET < HEADER + length p \<longrightarrow> 16 * length (pad p) < 17 * (HEADER + length p))"
proof (intro conjI impI)
  assume "HEADER + length p \<le> MIN_BUCKET \<and> HEADER + length t \<le> MIN_BUCKET"
  then show "length (pad p) = length (pad_redaction t)" by (simp add: length_pad padded_len_def)
next
  assume "length p \<le> length q"
  then show "length (pad p) \<le> length (pad q)" by (simp add: length_pad padded_len_mono)
next
  assume "MIN_BUCKET < HEADER + length p"
  then show "16 * length (pad p) < 17 * (HEADER + length p)"
    using padded_len_bounds(3) [of "HEADER + length p"] by (simp add: length_pad MIN_BUCKET_def)
qed

theorem padding_hides_length_witness:
  "length (pad [1, 2]) = length (pad_redaction ''m1'') \<and> length (pad [1, 2]) \<le> length (pad (replicate 300 7))
   \<and> 16 * length (pad (replicate 300 7)) < 17 * 305"
  using padding_hides_length [of "[1, 2]" "''m1''" "replicate 300 7"] padding_hides_length [of "replicate 300 7" "[]" "[]"]
  by (simp add: HEADER_def MIN_BUCKET_def)

section \<open>The delivery cursor\<close>

text \<open>\<open>S: Ord + Clone\<close> is the type of the stamps; an epoch is an \<open>Option<u64>\<close>.\<close>

datatype env_kind = Message | Edit | Delete | Other

definition from_type :: "string \<Rightarrow> env_kind" where
  "from_type env_type =
     (if env_type = ''message'' then Message else if env_type = ''edit'' then Edit else if env_type = ''delete'' then Delete else Other)"

fun is_handled :: "env_kind \<Rightarrow> u64 option \<Rightarrow> u64 option \<Rightarrow> bool" where
  "is_handled Delete _ _ = True"
| "is_handled Other _ _ = True"
| "is_handled _ (Some e) (Some m) = (e \<le> m)"
| "is_handled _ None _ = True"
| "is_handled _ (Some _) None = False"

type_synonym 's env_item = "'s \<times> env_kind \<times> u64 option"

fun watermark_loop :: "'s::linorder option \<Rightarrow> 's option \<Rightarrow> 's env_item list \<Rightarrow> 's option" where
  "watermark_loop stop_at candidate [] = candidate"
| "watermark_loop stop_at candidate ((sent_at, _) # envs) =
     (case stop_at of
        Some stop \<Rightarrow> if sent_at \<ge> stop then candidate else watermark_loop stop_at (Some sent_at) envs
      | None \<Rightarrow> watermark_loop stop_at (Some sent_at) envs)"

definition next_watermark :: "'s::linorder env_item list \<Rightarrow> u64 option \<Rightarrow> 's option" where
  "next_watermark envs max_fired_epoch =
     (let stop_at = map_option fst (List.find (\<lambda>(_, kind, epoch). \<not> is_handled kind epoch max_fired_epoch) envs)
      in watermark_loop stop_at None envs)"

text \<open>The specification: the stamps below every item that is not handled, and the greatest of them.\<close>

definition retry_stamps :: "'s::linorder env_item list \<Rightarrow> u64 option \<Rightarrow> 's set" where
  "retry_stamps envs m = {s. \<exists>k e. (s, k, e) \<in> set envs \<and> \<not> is_handled k e m}"

definition deliverable :: "'s::linorder env_item list \<Rightarrow> u64 option \<Rightarrow> 's set" where
  "deliverable envs m = {s \<in> fst ` set envs. \<forall>r \<in> retry_stamps envs m. s < r}"

definition greatest :: "'s::linorder set \<Rightarrow> 's option" where
  "greatest A = (if A = {} then None else Some (Max A))"

lemma watermark_loop_sorted:
  assumes "sorted (map fst envs)" "\<And>c s. cand = Some c \<Longrightarrow> s \<in> fst ` set envs \<Longrightarrow> c \<le> s"
  shows "watermark_loop stop cand envs =
    (let A = {s \<in> fst ` set envs. \<forall>st. stop = Some st \<longrightarrow> s < st} in if A = {} then cand else Some (Max A))"
  using assms
proof (induction envs arbitrary: cand)
  case (Cons x envs)
  obtain s k where x: "x = (s, k)" by (cases x)
  define A where "A = {s \<in> fst ` set envs. \<forall>st. stop = Some st \<longrightarrow> s < st}"
  define B where "B = {s \<in> fst ` set (x # envs). \<forall>st. stop = Some st \<longrightarrow> s < st}"
  have le: "s \<le> s'" if "s' \<in> fst ` set envs" for s' using Cons.prems(1) that x by auto
  show ?case
  proof (cases "\<exists>st. stop = Some st \<and> st \<le> s")
    case True
    then have "B = {}" using le x by (force simp: B_def)
    moreover from True x have "watermark_loop stop cand (x # envs) = cand" by auto
    ultimately show ?thesis by (simp only: B_def [symmetric] Let_def if_True simp_thms)
  next
    case False
    then have B: "B = insert s A" using x by (auto simp: A_def B_def not_le)
    from False x have "watermark_loop stop cand (x # envs) = watermark_loop stop (Some s) envs" by (auto split: option.split)
    also have "\<dots> = (if A = {} then Some s else Some (Max A))"
    proof -
      have "sorted (map fst envs)" using Cons.prems(1) by simp
      moreover have "c \<le> s'" if "Some s = Some c" "s' \<in> fst ` set envs" for c s' using le that by simp
      ultimately show ?thesis using Cons.IH [of "Some s"] by (simp only: A_def Let_def)
    qed
    also have "\<dots> = Some (Max B)"
    proof -
      have "finite A" by (simp add: A_def)
      moreover have "s \<le> Max A" if "A \<noteq> {}" using Max_in [OF \<open>finite A\<close> that] le by (simp add: A_def)
      ultimately show ?thesis using B by (auto simp: max_def)
    qed
    finally show ?thesis using B by (simp only: B_def [symmetric] Let_def if_False insert_not_empty)
  qed
qed simp

lemma find_first_retry:
  assumes "sorted (map fst envs)"
  shows "(\<forall>st. map_option fst (List.find (\<lambda>(_, k, e). \<not> is_handled k e m) envs) = Some st \<longrightarrow> s < st)
    \<longleftrightarrow> (\<forall>r \<in> retry_stamps envs m. s < r)"
  using assms
proof (induction envs)
  case (Cons x envs)
  obtain t k e where x: "x = (t, k, e)" by (cases x)
  have le: "t \<le> r" if "r \<in> retry_stamps envs m" for r
    using Cons.prems that x by (force simp: retry_stamps_def)
  have set: "retry_stamps (x # envs) m = (if is_handled k e m then retry_stamps envs m else insert t (retry_stamps envs m))"
    using x by (auto simp: retry_stamps_def)
  show ?case
  proof (cases "is_handled k e m")
    case True
    with Cons x set show ?thesis by simp
  next
    case False
    with x set show ?thesis using le less_le_trans by fastforce
  qed
qed (simp add: retry_stamps_def)

lemma next_watermark_spec:
  assumes "sorted (map fst envs)"
  shows "next_watermark envs m = greatest (deliverable envs m)"
  by (simp only: next_watermark_def greatest_def deliverable_def Let_def find_first_retry [OF assms, symmetric]
      watermark_loop_sorted [OF assms, of None, simplified option.distinct simp_thms])

lemma next_watermark_handled:
  assumes "sorted (map fst envs)" "next_watermark envs m = Some w" "(s, k, e) \<in> set envs" "s \<le> w"
  shows "is_handled k e m"
proof (rule ccontr)
  assume "\<not> ?thesis"
  with assms(3) have "s \<in> retry_stamps envs m" by (auto simp: retry_stamps_def)
  moreover have "w \<in> deliverable envs m"
  proof -
    have "finite (deliverable envs m)" by (simp add: deliverable_def)
    moreover from assms(1,2) have "greatest (deliverable envs m) = Some w" by (simp add: next_watermark_spec)
    ultimately show ?thesis by (auto simp: greatest_def dest: Max_in split: if_splits)
  qed
  ultimately have "w < s" by (simp add: deliverable_def)
  with assms(4) show False by simp
qed

text \<open>C33. On envelopes in the order of the query (\<open>ORDER BY sent_at\<close>) the cursor is the greatest stamp below every envelope that is still to be
  fetched again, and it stays where it is if there is none. In particular it never reaches such an envelope, ties included, and it is
  not held back by anything else.\<close>

theorem next_watermark_exact:
  assumes "sorted (map fst envs)"
  shows "next_watermark envs m = greatest (deliverable envs m)"
  using assms by (rule next_watermark_spec)

theorem next_watermark_exact_witness:
  "next_watermark [(1 :: nat, Message, Some 4), (2, Delete, None), (2, Edit, Some 7), (3, Message, Some 4)] (Some 5) = Some 1"
  using next_watermark_exact [of "[(1 :: nat, Message, Some 4), (2, Delete, None), (2, Edit, Some 7), (3, Message, Some 4)]" "Some 5"]
  by (simp add: next_watermark_def)

end
