(* ===== verification/Client_Replay.thy ===== *)
theory Client_Replay
  imports Client_Framing Delivery_Bootstrap
begin

text \<open>The client's replay of the commit log: the decisions of \<open>mls/invariants.rs\<close>, the certificate check of added devices (\<open>mls/device.rs\<close>), the gates of the
  recovery paths, the replay loop and the external join (\<open>mls/group_state.rs\<close>). The MLS library is an argument; what a read of a remote database
  sees is an argument of its own for each read, since other clients write in between, and is \<open>None\<close> where the read fails. The local databases do not fail.\<close>

section \<open>Pure decisions\<close>

definition may_rejoin :: "bool \<Rightarrow> bool \<Rightarrow> bool" where
  "may_rejoin registered member \<longleftrightarrow> registered \<and> member"

datatype join_recovery_kind = AwaitWelcome | ExternalJoin | StayOut

definition join_recovery :: "bool \<Rightarrow> bool \<Rightarrow> join_recovery_kind" where
  "join_recovery welcome_pending rejoin = (if welcome_pending then AwaitWelcome else if rejoin then ExternalJoin else StayOut)"

datatype submit_outcome = Committed | LostRace | Failed

datatype resolution = Adopt | Rollback

fun resolve_submit :: "submit_outcome \<Rightarrow> bytes \<Rightarrow> bytes option \<Rightarrow> resolution" where
  "resolve_submit Committed ours stored_at_epoch = Adopt"
| "resolve_submit _ ours stored_at_epoch = (if stored_at_epoch = Some ours then Adopt else Rollback)"

datatype replay_step = Apply | GapRecover | Wait

definition classify_step :: "u64 \<Rightarrow> u64 option \<Rightarrow> replay_step" where
  "classify_step current_epoch next_row_epoch =
     (case next_row_epoch of None \<Rightarrow> Wait | Some e \<Rightarrow> if e = current_epoch then Apply else GapRecover)"

section \<open>Credentials and certificates\<close>

text \<open>A credential is its serialized content, read by \<open>from_utf8_lossy\<close>.\<close>

definition make_credential :: "string \<Rightarrow> string \<Rightarrow> string" where
  "make_credential user_id device_id = user_id @ '':'' @ device_id"

definition parse_credential_user_id :: "string \<Rightarrow> string" where
  "parse_credential_user_id s = (case split_once '':'' s of Some (u, _) \<Rightarrow> u | None \<Rightarrow> s)"

definition parse_credential_device_id :: "string \<Rightarrow> string option" where
  "parse_credential_device_id s = map_option snd (split_once '':'' s)"

text \<open>\<open>str::parse::<u64>\<close>.\<close>

definition parse_u64 :: "string \<Rightarrow> u64 option" where
  "parse_u64 s =
     (let ds = (case s of c # r \<Rightarrow> if c = CHR ''+'' then r else s | [] \<Rightarrow> [])
      in case parse_nat ds of Some n \<Rightarrow> if n < 2 ^ 64 then Some (word_of_nat n) else None | None \<Rightarrow> None)"

datatype device_verify_outcome = Verified | Revoked | AbsentRetry

fun verify_devices :: "lib \<Rightarrow> main_db \<Rightarrow> bytes \<Rightarrow> string \<Rightarrow> string list \<Rightarrow> device_verify_outcome" where
  "verify_devices L db account_id_pub target_user_id [] = Verified"
| "verify_devices L db account_id_pub target_user_id (did # device_ids) =
     (case first_row (\<lambda>d. ud_device_id d = did \<and> ud_user_id d = target_user_id) (user_devices db) of
        None \<Rightarrow> AbsentRetry
      | Some row \<Rightarrow>
          if ud_revoked_at row \<noteq> None then Revoked
          else case (ud_device_cert row, ud_cert_issued_at row, ud_cert_identity_version row, ud_mls_signature_pub row) of
            (Some cert, Some issued_at_str, Some cert_identity_version, Some mls_sig_pub) \<Rightarrow>
              (case parse_u64 issued_at_str of
                 None \<Rightarrow> Revoked
               | Some issued_at \<Rightarrow>
                   (case verify_device_cert L account_id_pub did mls_sig_pub (word_of_int cert_identity_version) issued_at cert of
                      Inl _ \<Rightarrow> Revoked
                    | Inr _ \<Rightarrow> verify_devices L db account_id_pub target_user_id device_ids))
          | _ \<Rightarrow> AbsentRetry)"

definition verify_added_devices :: "lib \<Rightarrow> main_db \<Rightarrow> string \<Rightarrow> string list \<Rightarrow> device_verify_outcome" where
  "verify_added_devices L db target_user_id device_ids =
     (if device_ids = [] then Verified
      else case first_row (\<lambda>u. u_id u = target_user_id) (users db) of
        None \<Rightarrow> AbsentRetry
      | Some row \<Rightarrow>
          (case u_account_id_pub row of
             None \<Rightarrow> AbsentRetry
           | Some account_id_pub \<Rightarrow> verify_devices L db account_id_pub target_user_id device_ids))"

section \<open>Gates of the recovery paths\<close>

definition local_device_registered :: "string option \<Rightarrow> main_db option \<Rightarrow> string \<Rightarrow> bool" where
  "local_device_registered device_id conn user_id =
     (case device_id of
        None \<Rightarrow> True
      | Some d \<Rightarrow>
          (case conn of
             None \<Rightarrow> False
           | Some db \<Rightarrow> list_ex (\<lambda>r. ud_user_id r = user_id \<and> ud_device_id r = d \<and> ud_revoked_at r = None) (user_devices db)))"

definition local_user_is_member :: "main_db option \<Rightarrow> string \<Rightarrow> string \<Rightarrow> bool" where
  "local_user_is_member conn mls_group_id user_id =
     (case conn of
        None \<Rightarrow> False
      | Some db \<Rightarrow>
          list_ex (\<lambda>m. dcm_dm_channel_id m = mls_group_id \<and> dcm_user_id m = user_id) (dm_channel_members db)
          \<or> list_ex (\<lambda>m. gm_group_id m = mls_group_id \<and> gm_user_id m = user_id) (group_members db)
          \<or> list_ex (\<lambda>c. ch_id c = mls_group_id
                \<and> list_ex (\<lambda>gm. gm_group_id gm = ch_group_id c \<and> gm_user_id gm = user_id) (group_members db)) (channels db))"

definition has_pending_welcome :: "string option \<Rightarrow> log_db option \<Rightarrow> string \<Rightarrow> string \<Rightarrow> bool" where
  "has_pending_welcome device_id conn mls_group_id user_id =
     (case (device_id, conn) of
        (Some d, Some db) \<Rightarrow>
          list_ex (\<lambda>w. w_conversation_id w = mls_group_id \<and> w_recipient_id w = user_id \<and> \<not> w_delivered w
            \<and> (w_recipient_device_id w = Some d \<or> w_recipient_device_id w = None)) (welcomes db)
      | _ \<Rightarrow> False)"

definition may_rejoin_via_external_join :: "string option \<Rightarrow> main_db option \<Rightarrow> main_db option \<Rightarrow> string \<Rightarrow> string \<Rightarrow> bool" where
  "may_rejoin_via_external_join device_id conn1 conn2 mls_group_id user_id =
     (let registered = local_device_registered device_id conn1 user_id
      in if \<not> registered then may_rejoin False False
         else let member = local_user_is_member conn2 mls_group_id user_id
              in may_rejoin registered member)"

section \<open>The MLS library and the local state\<close>

text \<open>Of OpenMLS: the epoch of a group, the epoch a message carries once it is parsed, what processing a message yields (a plaintext with
  the credential of its sender, a commit with the group after merging it or \<open>None\<close> if merging fails, or something else; or an error text), the pending
  commit, whether bytes hold a group information, and an external commit from one (the group, the commit and the new group information). Of \<open>hex\<close>: decoding.\<close>

datatype 'g processed = ApplicationMessage bytes string 'g | StagedCommitMessage "'g option" | OtherContent

record 'g openmls =
  g_epoch :: "'g \<Rightarrow> u64"
  parse_message :: "bytes \<Rightarrow> u64 option"
  process_message :: "'g \<Rightarrow> bytes \<Rightarrow> string + 'g processed"
  pending_commit :: "'g \<Rightarrow> bool"
  merge_pending_commit :: "'g \<Rightarrow> 'g option"
  clear_pending_commit :: "'g \<Rightarrow> 'g"
  is_group_info :: "bytes \<Rightarrow> bool"
  external_commit :: "bytes \<Rightarrow> string \<Rightarrow> ('g \<times> bytes \<times> bytes option) option"
  hex_decode :: "string \<Rightarrow> bytes option"

record message_row =
  m_id :: string
  m_conversation_id :: string
  m_sender_id :: string
  m_ciphertext :: bytes
  m_content :: "string option"
  m_reply_to_id :: "string option"
  m_sent_at :: string
  m_edited_at :: "string option"
  m_deleted_at :: "string option"

text \<open>The local databases, the external commits the device has posted, and the variable that the hook of the ingest captures.\<close>

record 'g client =
  mls_kv :: "string \<Rightarrow> 'g option"
  message_table :: "message_row list"
  posted :: "(string \<times> i64 \<times> bytes) list"
  max_fired_epoch :: "u64 option"

definition forget_local_mls_group :: "string \<Rightarrow> 'g client \<Rightarrow> 'g client" where
  "forget_local_mls_group group_id st = st\<lparr>mls_kv := (mls_kv st)(group_id := None)\<rparr>"

definition store_group :: "string \<Rightarrow> 'g \<Rightarrow> 'g client \<Rightarrow> 'g client" where
  "store_group group_id g st = st\<lparr>mls_kv := (mls_kv st)(group_id := Some g)\<rparr>"

section \<open>Joining by an external commit\<close>

definition fetch_commit_at_epoch :: "log_db option \<Rightarrow> string \<Rightarrow> i64 \<Rightarrow> bytes option" where
  "fetch_commit_at_epoch conn conversation_id epoch =
     (case conn of
        None \<Rightarrow> None
      | Some db \<Rightarrow> map_option ml_commit_data (first_row (\<lambda>r. ml_conversation_id r = conversation_id \<and> ml_epoch r = epoch) (commit_log db)))"

definition our_commit_is_canonical :: "log_db option \<Rightarrow> string \<Rightarrow> i64 \<Rightarrow> bytes \<Rightarrow> bool" where
  "our_commit_is_canonical conn conversation_id epoch our_commit \<longleftrightarrow>
     resolve_submit LostRace our_commit (fetch_commit_at_epoch conn conversation_id epoch) = Adopt"

datatype external_join_result = Joined | JoinLostRace | DeferredToWelcome

datatype client_error = NotSignedIn | NoDeviceId | RemoteRead | NoGroupInfo | MlsError | SubmitError | Exhausted

text \<open>What attempt \<open>i\<close> meets: the log database when the group information, the pending welcomes and the canonical commit are read, and the reply to the
  submission (\<open>Failed\<close> for an error or a lost response).\<close>

record join_env =
  je_group_info :: "nat \<Rightarrow> log_db option"
  je_welcome :: "nat \<Rightarrow> log_db option"
  je_reply :: "nat \<Rightarrow> submit_outcome"
  je_stored :: "nat \<Rightarrow> log_db option"

definition external_join_attempt ::
  "'g openmls \<Rightarrow> string option \<Rightarrow> string \<Rightarrow> string \<Rightarrow> join_env \<Rightarrow> nat \<Rightarrow> 'g client \<Rightarrow> (client_error + external_join_result) \<times> 'g client" where
  "external_join_attempt M device_id conversation_id user_id env i st =
     (case device_id of
        None \<Rightarrow> (Inl NoDeviceId, st)
      | Some device \<Rightarrow>
     (case je_group_info env i of
        None \<Rightarrow> (Inl RemoteRead, st)
      | Some db \<Rightarrow>
     (case first_row (\<lambda>r. gi_conversation_id r = conversation_id) (group_infos db) of
        None \<Rightarrow> (Inl NoGroupInfo, st)
      | Some row \<Rightarrow>
          if has_pending_welcome device_id (je_welcome env i) conversation_id user_id then (Inr DeferredToWelcome, st)
          else if \<not> is_group_info M (gi_group_info row) then (Inl MlsError, st)
          else let st1 = forget_local_mls_group conversation_id st in
            case external_commit M (gi_group_info row) (make_credential user_id device) of
              None \<Rightarrow> (Inl MlsError, st1)
            | Some (joined, commit, _) \<Rightarrow>
                let st2 = (store_group conversation_id joined st1)\<lparr>posted := posted st @ [(conversation_id, gi_epoch row, commit)]\<rparr>;
                    canonical = our_commit_is_canonical (je_stored env i) conversation_id (gi_epoch row) commit
                in case je_reply env i of
                     Committed \<Rightarrow> (Inr Joined, st2)
                   | LostRace \<Rightarrow> if canonical then (Inr Joined, st2) else (Inr JoinLostRace, st2)
                   | Failed \<Rightarrow> if canonical then (Inr Joined, st2) else (Inl SubmitError, forget_local_mls_group conversation_id st2))))"

definition MAX_JOIN_ATTEMPTS :: nat where "MAX_JOIN_ATTEMPTS = 5"

fun external_join_loop ::
  "'g openmls \<Rightarrow> string option \<Rightarrow> string \<Rightarrow> string \<Rightarrow> join_env \<Rightarrow> nat \<Rightarrow> nat \<Rightarrow> 'g client \<Rightarrow> (client_error + unit) \<times> 'g client" where
  "external_join_loop M device_id conversation_id user_id env 0 attempt st = (Inl Exhausted, st)"
| "external_join_loop M device_id conversation_id user_id env (Suc n) attempt st =
     (case external_join_attempt M device_id conversation_id user_id env attempt st of
        (Inl e, st1) \<Rightarrow> (Inl e, st1)
      | (Inr Joined, st1) \<Rightarrow> (Inr (), st1)
      | (Inr DeferredToWelcome, st1) \<Rightarrow> (Inr (), st1)
      | (Inr JoinLostRace, st1) \<Rightarrow>
          external_join_loop M device_id conversation_id user_id env n (Suc attempt) (forget_local_mls_group conversation_id st1))"

definition external_join_group_inner ::
  "'g openmls \<Rightarrow> string option \<Rightarrow> string \<Rightarrow> string \<Rightarrow> join_env \<Rightarrow> 'g client \<Rightarrow> (client_error + unit) \<times> 'g client" where
  "external_join_group_inner M device_id conversation_id user_id env =
     external_join_loop M device_id conversation_id user_id env MAX_JOIN_ATTEMPTS 0"

section \<open>Replaying the commit log\<close>

text \<open>\<open>str::contains\<close>.\<close>

definition contains :: "string \<Rightarrow> string \<Rightarrow> bool" where
  "contains pat s \<longleftrightarrow> split_once pat s \<noteq> None"

definition added_device_ids :: "mls_commit_log \<Rightarrow> string list" where
  "added_device_ids commit =
     (case ml_added_device_ids commit of None \<Rightarrow> [] | Some s \<Rightarrow> filter (\<lambda>x. x \<noteq> []) (map trim (split_on (CHR '','') s)))"

text \<open>Whether the replay stops at a commit because a device it adds is not visible yet.\<close>

definition defers :: "lib \<Rightarrow> main_db option \<Rightarrow> mls_commit_log \<Rightarrow> bool" where
  "defers L conn commit =
     (case ml_added_user_id commit of
        None \<Rightarrow> False
      | Some added_user_id \<Rightarrow>
          (let outcome = (case conn of None \<Rightarrow> AbsentRetry | Some db \<Rightarrow> verify_added_devices L db added_user_id (added_device_ids commit))
           in case outcome of
                Verified \<Rightarrow> False
              | Revoked \<Rightarrow> False
              | AbsentRetry \<Rightarrow> ml_sender_id commit = added_user_id))"

definition apply_commit :: "'g openmls \<Rightarrow> string \<Rightarrow> bytes \<Rightarrow> 'g client \<Rightarrow> 'g client \<times> bool" where
  "apply_commit M mls_group_id commit_data st =
     (case mls_kv st mls_group_id of
        None \<Rightarrow> (st, False)
      | Some grp \<Rightarrow>
          (case parse_message M commit_data of
             None \<Rightarrow> (st, False)
           | Some _ \<Rightarrow>
               (case process_message M grp commit_data of
                  Inr (StagedCommitMessage (Some merged)) \<Rightarrow> (store_group mls_group_id merged st, True)
                | Inr (StagedCommitMessage None) \<Rightarrow> (st, False)
                | Inr (ApplicationMessage _ _ grp') \<Rightarrow> (store_group mls_group_id grp' st, True)
                | Inr OtherContent \<Rightarrow> (st, True)
                | Inl msg \<Rightarrow>
                    if contains ''created by this client'' msg
                    then (case merge_pending_commit M grp of
                            None \<Rightarrow> (forget_local_mls_group mls_group_id st, False)
                          | Some merged \<Rightarrow> (store_group mls_group_id merged st, True))
                    else (forget_local_mls_group mls_group_id st, False))))"

text \<open>The loop over the fetched commits; \<open>verify i\<close> is what the certificate check of commit \<open>i\<close> sees, and \<open>hook\<close> is what the caller runs when the group has
  reached an epoch.\<close>

fun replay_loop ::
  "lib \<Rightarrow> 'g openmls \<Rightarrow> (nat \<Rightarrow> main_db option) \<Rightarrow> string \<Rightarrow> (u64 \<Rightarrow> 'g client \<Rightarrow> 'g client)
   \<Rightarrow> nat \<Rightarrow> u64 \<Rightarrow> mls_commit_log list \<Rightarrow> 'g client \<Rightarrow> 'g client" where
  "replay_loop L M verify mls_group_id hook i current_epoch [] st = st"
| "replay_loop L M verify mls_group_id hook i current_epoch (commit # pending) st =
     (if classify_step current_epoch (Some (word_of_int (ml_epoch commit))) \<noteq> Apply then forget_local_mls_group mls_group_id st
      else if defers L (verify i) commit then st
      else case apply_commit M mls_group_id (ml_commit_data commit) st of
        (st1, False) \<Rightarrow> st1
      | (st1, True) \<Rightarrow>
          replay_loop L M verify mls_group_id hook (Suc i) (current_epoch + 1) pending (hook (current_epoch + 1) st1))"

definition pending_commits :: "log_db \<Rightarrow> string \<Rightarrow> u64 \<Rightarrow> mls_commit_log list" where
  "pending_commits db mls_group_id initial_epoch =
     sort_key ml_epoch (sort_key ml_seq (filter (\<lambda>r. ml_epoch r \<ge> sint initial_epoch) (conv_rows mls_group_id (commit_log db))))"

definition clear_dangling :: "'g openmls \<Rightarrow> string \<Rightarrow> 'g client \<Rightarrow> 'g client" where
  "clear_dangling M mls_group_id st =
     (case mls_kv st mls_group_id of
        Some grp \<Rightarrow> if pending_commit M grp then store_group mls_group_id (clear_pending_commit M grp) st else st
      | None \<Rightarrow> st)"

text \<open>What one pass meets at its remote reads, in their order.\<close>

record pass_env =
  p_device_id :: "string option"
  p_signed_in :: bool
  p_welcome :: "log_db option"
  p_gate :: "main_db option \<times> main_db option"
  p_log :: "log_db option"
  p_verify_conn :: bool
  p_verify :: "nat \<Rightarrow> main_db option"
  p_regate :: "main_db option \<times> main_db option"
  p_join :: join_env

definition process_pending_commits_locked_impl ::
  "lib \<Rightarrow> 'g openmls \<Rightarrow> pass_env \<Rightarrow> string \<Rightarrow> string \<Rightarrow> (u64 \<Rightarrow> 'g client \<Rightarrow> 'g client) \<Rightarrow> 'g client \<Rightarrow> (client_error + unit) \<times> 'g client" where
  "process_pending_commits_locked_impl L M env mls_group_id user_id hook st =
     (if \<not> p_signed_in env then (Inl NotSignedIn, st)
      else case mls_kv st mls_group_id of
        None \<Rightarrow>
          (let welcome_pending = has_pending_welcome (p_device_id env) (p_welcome env) mls_group_id user_id;
               rejoin = may_rejoin_via_external_join (p_device_id env) (fst (p_gate env)) (snd (p_gate env)) mls_group_id user_id
           in case join_recovery welcome_pending rejoin of
                AwaitWelcome \<Rightarrow> (Inr (), st)
              | ExternalJoin \<Rightarrow> (Inr (), snd (external_join_group_inner M (p_device_id env) mls_group_id user_id (p_join env) st))
              | StayOut \<Rightarrow> (Inr (), st))
      | Some grp \<Rightarrow>
          (let initial_epoch = g_epoch M grp;
               st1 = hook initial_epoch st
           in case p_log env of
                None \<Rightarrow> (Inl RemoteRead, st1)
              | Some log \<Rightarrow>
                  if \<not> p_verify_conn env then (Inl RemoteRead, st1)
                  else let st2 = replay_loop L M (p_verify env) mls_group_id hook 0 initial_epoch (pending_commits log mls_group_id initial_epoch) st1;
                           st3 = clear_dangling M mls_group_id st2
                       in if mls_kv st3 mls_group_id = None
                             \<and> may_rejoin_via_external_join (p_device_id env) (fst (p_regate env)) (snd (p_regate env)) mls_group_id user_id
                          then (Inr (), snd (external_join_group_inner M (p_device_id env) mls_group_id user_id (p_join env) st3))
                          else (Inr (), st3)))"

section \<open>Who climbs back into a group\<close>

lemma group_updates [simp]:
  "posted (forget_local_mls_group g st) = posted st" "message_table (forget_local_mls_group g st) = message_table st"
  "mls_kv (forget_local_mls_group g st) = (mls_kv st)(g := None)"
  "max_fired_epoch (forget_local_mls_group g st) = max_fired_epoch st" "max_fired_epoch (store_group g x st) = max_fired_epoch st"
  "posted (store_group g x st) = posted st" "message_table (store_group g x st) = message_table st"
  "mls_kv (store_group g x st) = (mls_kv st)(g := Some x)"
  by (simp_all add: forget_local_mls_group_def store_group_def)

lemma attempt_posts:
  assumes "external_join_attempt M d g u env i st = (r, st')"
  shows "posted st' = posted st \<or> \<not> has_pending_welcome d (je_welcome env i) g u \<and> (\<exists>e c. posted st' = posted st @ [(g, e, c)])"
  using assms by (auto simp: external_join_attempt_def Let_def split: option.splits if_splits submit_outcome.splits prod.splits)

lemma attempt_messages:
  "external_join_attempt M d g u env i st = (r, st') \<Longrightarrow> message_table st' = message_table st \<and> max_fired_epoch st' = max_fired_epoch st"
  by (auto simp: external_join_attempt_def Let_def split: option.splits if_splits submit_outcome.splits prod.splits)

lemma join_loop_posts:
  assumes "external_join_loop M d g u env n i st = (r, st')"
  shows "\<exists>new. posted st' = posted st @ new \<and> length new \<le> n \<and> (\<forall>x \<in> set new. fst x = g)
    \<and> (new \<noteq> [] \<longrightarrow> (\<exists>j. \<not> has_pending_welcome d (je_welcome env j) g u))"
  using assms
proof (induction n arbitrary: i st)
  case (Suc n)
  obtain a st1 where att: "external_join_attempt M d g u env i st = (a, st1)" by fastforce
  obtain new1 where new1: "posted st1 = posted st @ new1" "length new1 \<le> 1" "\<forall>x \<in> set new1. fst x = g"
      "new1 \<noteq> [] \<longrightarrow> (\<exists>j. \<not> has_pending_welcome d (je_welcome env j) g u)"
    using attempt_posts [OF att] by (metis append_Nil2 empty_iff empty_set fst_conv le_numeral_extra(4) length_Cons list.set_cases
        list.size(3) not_one_le_zero One_nat_def set_ConsD zero_le)
  show ?case
  proof (cases "a = Inr JoinLostRace")
    case True
    then have "external_join_loop M d g u env n (Suc i) (forget_local_mls_group g st1) = (r, st')" using Suc.prems att by simp
    from Suc.IH [OF this] obtain new where "posted st' = posted st1 @ new" "length new \<le> n" "\<forall>x \<in> set new. fst x = g"
        "new \<noteq> [] \<longrightarrow> (\<exists>j. \<not> has_pending_welcome d (je_welcome env j) g u)" by auto
    with new1 show ?thesis by (intro exI [of _ "new1 @ new"]) auto
  next
    case False
    then have "st' = st1" using Suc.prems att by (auto split: sum.splits external_join_result.splits)
    with new1 show ?thesis by (intro exI [of _ new1]) auto
  qed
qed simp

lemma join_loop_messages:
  "external_join_loop M d g u env n i st = (r, st') \<Longrightarrow> message_table st' = message_table st \<and> max_fired_epoch st' = max_fired_epoch st"
proof (induction n arbitrary: i st)
  case (Suc n)
  obtain a st1 where att: "external_join_attempt M d g u env i st = (a, st1)" by fastforce
  with Suc show ?case
    using attempt_messages [OF att] by (fastforce split: sum.splits external_join_result.splits)
qed simp

lemma apply_commit_frame:
  "apply_commit M g b st = (st', ok) \<Longrightarrow> posted st' = posted st \<and> message_table st' = message_table st \<and> max_fired_epoch st' = max_fired_epoch st"
  by (auto simp: apply_commit_def split: option.splits sum.splits processed.splits if_splits)

lemma clear_dangling_frame [simp]:
  "posted (clear_dangling M g st) = posted st" "message_table (clear_dangling M g st) = message_table st"
  "max_fired_epoch (clear_dangling M g st) = max_fired_epoch st"
  by (auto simp: clear_dangling_def split: option.split)

lemma replay_loop_posted:
  assumes "\<And>e s. posted (hook e s) = posted s"
  shows "posted (replay_loop L M verify g hook i cur pending st) = posted st"
proof (induction pending arbitrary: i cur st)
  case (Cons c pending)
  obtain st1 ok where ac: "apply_commit M g (ml_commit_data c) st = (st1, ok)" by fastforce
  show ?case using apply_commit_frame [OF ac] Cons.IH assms by (auto simp: ac split: bool.split)
qed simp


section \<open>An example\<close>

text \<open>A library whose groups are their epochs: bytes that start with 9 are application messages of the epoch in the next byte by \<open>u\<close>, all others are commits.\<close>

definition demo_mls :: "nat openmls" where
  "demo_mls = \<lparr>g_epoch = word_of_nat,
     parse_message = (\<lambda>b. case b of [] \<Rightarrow> None | [_] \<Rightarrow> Some 0 | _ # e # _ \<Rightarrow> Some (ucast e)),
     process_message = (\<lambda>g b. case b of
         m # e # p \<Rightarrow> if m = 9 then if ucast e = (word_of_nat g :: u64) then Inr (ApplicationMessage p ''u:d'' g) else Inl ''wrong epoch''
           else Inr (StagedCommitMessage (Some (Suc g)))
       | _ \<Rightarrow> Inr (StagedCommitMessage (Some (Suc g)))),
     pending_commit = (\<lambda>_. False), merge_pending_commit = (\<lambda>_. None), clear_pending_commit = (\<lambda>g. g), is_group_info = (\<lambda>_. False),
     external_commit = (\<lambda>_ _. None), hex_decode = (\<lambda>s. Some (as_bytes s))\<rparr>"

definition demo_join :: join_env where
  "demo_join = \<lparr>je_group_info = (\<lambda>_. None), je_welcome = (\<lambda>_. None), je_reply = (\<lambda>_. Failed), je_stored = (\<lambda>_. None)\<rparr>"

definition demo_pass :: pass_env where
  "demo_pass = \<lparr>p_device_id = Some ''d'', p_signed_in = True, p_welcome = None, p_gate = (None, None), p_log = Some demo_ds_log, p_verify_conn = True,
     p_verify = (\<lambda>_. None), p_regate = (None, None), p_join = demo_join\<rparr>"

definition demo_local :: "nat \<Rightarrow> nat client" where
  "demo_local epoch = \<lparr>mls_kv = (\<lambda>_. None)(''g'' := Some epoch), message_table = [], posted = [], max_fired_epoch = None\<rparr>"

lemma demo_pass_simps [simp]:
  "p_device_id demo_pass = Some ''d''" "p_signed_in demo_pass" "p_gate demo_pass = (None, None)" "p_regate demo_pass = (None, None)"
  "p_log demo_pass = Some demo_ds_log" "p_verify_conn demo_pass"
  by (simp_all add: demo_pass_def)


end
