(* ===== verification/Client_Sync.thy ===== *)
theory Client_Sync
  imports Client_Replay
begin

text \<open>The client against the delivery service: what a submission's outcome means for the commit log the service keeps, and where the replay of that log ends.\<close>

section \<open>The outcome of a submission\<close>

text \<open>\<open>http_submit\<close> (\<open>mls/delivery.rs\<close>): a success status is \<open>Committed\<close>, 409 is \<open>LostRace\<close>, anything else is an error; the client sees an error too if the response is lost.\<close>

fun submit_status :: "db_error + submit_response \<Rightarrow> submit_outcome" where
  "submit_status (Inr (Accepted _)) = Committed"
| "submit_status (Inr (Rejected _ _)) = LostRace"
| "submit_status (Inl _) = Failed"

lemma first_row_unique:
  assumes "r \<in> set rows" "P r" "\<And>x y. x \<in> set rows \<Longrightarrow> y \<in> set rows \<Longrightarrow> P x \<Longrightarrow> P y \<Longrightarrow> x = y"
  shows "first_row P rows = Some r"
proof (cases "first_row P rows")
  case None
  with assms(1,2) show ?thesis by (simp add: first_row_None)
next
  case (Some x)
  with first_row_Some [OF Some] assms show ?thesis by metis
qed

lemma epoch_unique:
  assumes "log_inv w c" "r \<in> set (commit_log (dw_log w))" "ml_conversation_id r = c" "s \<in> set (commit_log (dw_log w))"
    "ml_conversation_id s = c" "ml_epoch r = ml_epoch s"
  shows "r = s"
proof -
  obtain lo where lo: "conv_rows c (commit_log (dw_log w)) = drop lo (accepted w c)" using log_invD(2) [OF assms(1)] by blast
  have "r \<in> set (conv_rows c (commit_log (dw_log w)))" "s \<in> set (conv_rows c (commit_log (dw_log w)))"
    using assms(2-5) by (simp_all add: conv_rows_def)
  then have "r \<in> set (accepted w c)" "s \<in> set (accepted w c)" unfolding lo by (auto dest: in_set_dropD)
  then obtain i j where "i < length (accepted w c)" "r = accepted w c ! i" "j < length (accepted w c)" "s = accepted w c ! j"
    by (metis in_set_conv_nth)
  with assms(6) epochs_nth [OF log_invD(1) [OF assms(1)]] show ?thesis by simp
qed



section \<open>Where the replay ends\<close>

text \<open>A commit takes a group to another: it is processed and merged, or the library refuses it as the device's own and the pending commit is merged.\<close>

definition applies :: "'g openmls \<Rightarrow> 'g \<Rightarrow> bytes \<Rightarrow> 'g \<Rightarrow> bool" where
  "applies M g b g' \<longleftrightarrow> parse_message M b \<noteq> None
     \<and> (process_message M g b = Inr (StagedCommitMessage (Some g'))
        \<or> (\<exists>msg. process_message M g b = Inl msg \<and> contains ''created by this client'' msg \<and> merge_pending_commit M g = Some g'))"

text \<open>\<open>in_epoch i\<close> are the states of a member in epoch \<open>i\<close> of the history \<open>H\<close>: they carry that epoch, clearing a pending commit stays among them, and
  commit \<open>i\<close> leads to epoch \<open>i + 1\<close>.\<close>

definition follows :: "'g openmls \<Rightarrow> mls_commit_log list \<Rightarrow> (nat \<Rightarrow> 'g \<Rightarrow> bool) \<Rightarrow> bool" where
  "follows M H in_epoch \<longleftrightarrow> (\<forall>i g. in_epoch i g \<longrightarrow> g_epoch M g = word_of_nat i \<and> in_epoch i (clear_pending_commit M g)
     \<and> (i < length H \<longrightarrow> (\<exists>g'. applies M g (ml_commit_data (H ! i)) g' \<and> in_epoch (Suc i) g')))"

definition hook_stays :: "string \<Rightarrow> (nat \<Rightarrow> 'g \<Rightarrow> bool) \<Rightarrow> (u64 \<Rightarrow> 'g client \<Rightarrow> 'g client) \<Rightarrow> bool" where
  "hook_stays c in_epoch hook \<longleftrightarrow> (\<forall>e s i g. mls_kv s c = Some g \<and> in_epoch i g \<longrightarrow> (\<exists>g'. mls_kv (hook e s) c = Some g' \<and> in_epoch i g'))"

lemma apply_commit_applies: "mls_kv st c = Some g \<Longrightarrow> applies M g b g' \<Longrightarrow> apply_commit M c b st = (store_group c g' st, True)"
  by (auto simp: apply_commit_def applies_def)

lemma sint_word_of_nat: "n < 2 ^ 63 \<Longrightarrow> sint (word_of_nat n :: u64) = int n"
proof -
  assume "n < 2 ^ 63"
  then have "int n < 2 ^ 63" by (metis of_nat_less_iff of_nat_numeral of_nat_power)
  then show ?thesis using head_word [of "int n"] by simp
qed

lemma pending_commits_history:
  assumes "log_inv w c" "conv_rows c (commit_log (dw_log w)) = drop lo (accepted w c)" "lo \<le> n" "n < 2 ^ 63"
  shows "pending_commits (dw_log w) c (word_of_nat n) = drop n (accepted w c)"
proof -
  note eps = log_invD(1) [OF assms(1)]
  have "map ml_epoch (drop lo (accepted w c)) = map int [lo..<length (accepted w c)]" using eps by (metis drop_map drop_upt add_0)
  from sort_increasing_epochs [OF this] have "pending_commits (dw_log w) c (word_of_nat n) = filter (\<lambda>r. int n \<le> ml_epoch r) (drop lo (accepted w c))"
    using assms(2,4) by (simp add: pending_commits_def sint_word_of_nat)
  also have "\<dots> = drop n (accepted w c)" using filter_suffix [OF eps, of "int n" lo] assms(3) by (simp add: max_absorb2)
  finally show ?thesis .
qed

lemma replay_loop_follows:
  assumes "follows M H in_epoch" "hook_stays c in_epoch hook" "map ml_epoch H = map int [0..<length H]" "length H < 2 ^ 63"
    and "\<And>i r. r \<in> set H \<Longrightarrow> \<not> defers L (verify i) r"
    and "mls_kv st c = Some g" "in_epoch n g" "n \<le> length H"
  shows "\<exists>g'. mls_kv (replay_loop L M verify c hook k (word_of_nat n) (drop n H) st) c = Some g' \<and> in_epoch (length H) g'"
  using assms(6-8)
proof (induction "length H - n" arbitrary: n k st g)
  case 0
  then show ?case by simp
next
  case (Suc d)
  then have n: "n < length H" by simp
  then have drop: "drop n H = H ! n # drop (Suc n) H" by (simp add: Cons_nth_drop_Suc)
  obtain g1 where g1: "applies M g (ml_commit_data (H ! n)) g1" "in_epoch (Suc n) g1"
    using assms(1) Suc.prems(2) n unfolding follows_def by blast
  let ?st = "hook (word_of_nat (Suc n)) (store_group c g1 st)"
  obtain g2 where g2: "mls_kv ?st c = Some g2" "in_epoch (Suc n) g2"
    using assms(2) g1(2) unfolding hook_stays_def by (metis fun_upd_same group_updates(8))
  have step: "word_of_nat n + 1 = (word_of_nat (Suc n) :: u64)" by simp
  have "word_of_int (ml_epoch (H ! n)) = (word_of_nat n :: u64)" using epochs_nth [OF assms(3) n] by simp
  then have "replay_loop L M verify c hook k (word_of_nat n) (drop n H) st =
      replay_loop L M verify c hook (Suc k) (word_of_nat (Suc n)) (drop (Suc n) H) ?st"
    unfolding drop using assms(5) [OF nth_mem [OF n]] apply_commit_applies [OF Suc.prems(1) g1(1)]
    by (simp add: classify_step_def del: of_nat_Suc) (simp only: step)
  moreover have "d = length H - Suc n" using Suc.hyps(2) by simp
  ultimately show ?case using Suc.hyps(1) [OF _ g2] n by auto
qed

text \<open>C18. A member that is still within what the service stores reaches the head in one pass: whatever epoch of the history its group is in, if each canonical commit can be
  applied and no check defers one, the pass succeeds and leaves the group at the epoch the service calls the head.\<close>

theorem replay_reaches_head:
  assumes "ds_reach w" "length (dw_hist w) < 2 ^ 63"
    and "conv_rows c (commit_log (dw_log w)) = drop lo (accepted w c)" "lo \<le> n" "n \<le> length (accepted w c)"
    and "mls_kv st c = Some g" "in_epoch n g" "follows M (accepted w c) in_epoch" "hook_stays c in_epoch hook"
    and "p_signed_in env" "p_log env = Some (dw_log w)" "p_verify_conn env" "\<And>i r. r \<in> set (accepted w c) \<Longrightarrow> \<not> defers L (p_verify env i) r"
  shows "\<exists>st' g'. process_pending_commits_locked_impl L M env c u hook st = (Inr (), st') \<and> mls_kv st' c = Some g'
    \<and> in_epoch (length (accepted w c)) g' \<and> sint (g_epoch M g') = head_epoch (dw_log w) c"
proof -
  note inv = log_inv_reachable [OF assms(1,2), of c]
  note len = length_accepted [OF assms(2), of c]
  obtain g1 where g1: "mls_kv (hook (word_of_nat n) st) c = Some g1" "in_epoch n g1"
    using assms(6,7,9) unfolding hook_stays_def by blast
  have e: "g_epoch M g = word_of_nat n" using assms(7,8) unfolding follows_def by blast
  have pend: "pending_commits (dw_log w) c (word_of_nat n) = drop n (accepted w c)"
    using pending_commits_history [OF inv assms(3,4)] assms(5) len by simp
  define st2 where "st2 = replay_loop L M (p_verify env) c hook 0 (word_of_nat n) (drop n (accepted w c)) (hook (word_of_nat n) st)"
  obtain g2 where g2: "mls_kv st2 c = Some g2" "in_epoch (length (accepted w c)) g2"
    using replay_loop_follows [OF assms(8,9) log_invD(1) [OF inv] len, of L "p_verify env", OF assms(13) g1 assms(5)] unfolding st2_def by blast
  define st3 where "st3 = clear_dangling M c st2"
  have g3: "\<exists>g3. mls_kv st3 c = Some g3 \<and> in_epoch (length (accepted w c)) g3"
    using g2 assms(8) unfolding st3_def clear_dangling_def follows_def by auto
  then obtain g3 where g3: "mls_kv st3 c = Some g3" "in_epoch (length (accepted w c)) g3" by blast
  have "process_pending_commits_locked_impl L M env c u hook st = (Inr (), st3)"
    using assms(6,10-12) g3(1) e pend by (simp add: process_pending_commits_locked_impl_def Let_def st2_def [symmetric] st3_def [symmetric])
  moreover have "g_epoch M g3 = word_of_nat (length (accepted w c))" using assms(8) g3(2) unfolding follows_def by blast
  ultimately show ?thesis using g3 head_epoch_inv(1) [OF inv len] sint_word_of_nat [OF len] by auto
qed

lemma demo_follows: "follows demo_mls [demo_commit_row] (\<lambda>i g. g = i)" "hook_stays c (\<lambda>i g. g = i) (\<lambda>_ s. s)"
  by (auto simp: follows_def hook_stays_def applies_def demo_mls_def demo_commit_row_def as_bytes_def byte_of_char_def)

theorem replay_reaches_head_witness:
  "\<exists>st' g'. process_pending_commits_locked_impl demo_lib demo_mls demo_pass ''g'' ''u'' (\<lambda>_ s. s) (demo_local 0) = (Inr (), st')
     \<and> mls_kv st' ''g'' = Some g' \<and> sint (g_epoch demo_mls g') = head_epoch demo_ds_log ''g''"
proof -
  have acc: "accepted demo_world ''g'' = [demo_commit_row]" by (simp add: demo_world_def conv_rows_def demo_commit_row_def)
  have rows: "conv_rows ''g'' (commit_log (dw_log demo_world)) = drop 0 (accepted demo_world ''g'')"
    by (simp add: acc) (simp add: demo_world_def demo_ds_log_def conv_rows_def demo_commit_row_def)
  have log: "dw_log demo_world = demo_ds_log" by (simp add: demo_world_def)
  have nodefer: "\<not> defers demo_lib (p_verify demo_pass i) r" if "r \<in> set (accepted demo_world ''g'')" for i r
    using that by (simp add: acc) (simp add: defers_def demo_commit_row_def)
  have len: "length (dw_hist demo_world) < 2 ^ 63" by (simp add: demo_world_def)
  have "\<exists>st' g'. process_pending_commits_locked_impl demo_lib demo_mls demo_pass ''g'' ''u'' (\<lambda>_ s. s) (demo_local 0) = (Inr (), st') \<and> mls_kv st' ''g'' = Some g'
      \<and> g' = length (accepted demo_world ''g'') \<and> sint (g_epoch demo_mls g') = head_epoch (dw_log demo_world) ''g''"
    by (rule replay_reaches_head [OF demo_reach len rows, of 0 "demo_local 0" 0 "\<lambda>i g. g = i"])
      (use nodefer demo_follows in \<open>simp_all add: acc log demo_local_def\<close>)
  then show ?thesis unfolding log by blast
qed

end
