(* ===== verification/Client_Ingest.thy ===== *)
theory Client_Ingest
  imports Client_Sync
begin

text \<open>Receiving messages (\<open>messages/ingest.rs\<close>): fetching the envelopes of every conversation of a group, decrypting them as the replay reaches their epochs, applying
  edits, redactions and tombstones to the local history, and the cursors to advance to. A tuple \<open>EnvelopeRow\<close> is the row of \<open>message_envelope\<close> it was read from;
  \<open>now\<close> is the clock.\<close>

section \<open>One envelope\<close>

definition envelope_bytes :: "'g openmls \<Rightarrow> message_envelope \<Rightarrow> bytes option" where
  "envelope_bytes M env = Option.bind (strip_prefix ''mls:'' (me_ciphertext env)) (hex_decode M)"

definition try_mls_decrypt :: "'g openmls \<Rightarrow> string \<Rightarrow> bytes \<Rightarrow> 'g client \<Rightarrow> (bytes \<times> string) option \<times> 'g client" where
  "try_mls_decrypt M conversation_id ciphertext st =
     (case mls_kv st conversation_id of
        None \<Rightarrow> (None, st)
      | Some grp \<Rightarrow>
          (case parse_message M ciphertext of
             None \<Rightarrow> (None, st)
           | Some _ \<Rightarrow>
               (case process_message M grp ciphertext of
                  Inr (ApplicationMessage plain cred grp') \<Rightarrow> (Some (plain, parse_credential_user_id cred), store_group conversation_id grp' st)
                | _ \<Rightarrow> (None, st))))"

definition message_author :: "'g client \<Rightarrow> string \<Rightarrow> string option" where
  "message_author st target = map_option m_sender_id (first_row (\<lambda>m. m_id m = target) (message_table st))"

definition delete_message_row :: "string \<Rightarrow> string \<Rightarrow> 'g client \<Rightarrow> 'g client" where
  "delete_message_row now target st =
     st\<lparr>message_table := sql_update (\<lambda>m. m_id m = target \<and> m_deleted_at m = None) (\<lambda>m. m\<lparr>m_content := None, m_deleted_at := Some now\<rparr>) (message_table st)\<rparr>"

definition decrypt_and_persist_one :: "'g openmls \<Rightarrow> string \<Rightarrow> string \<Rightarrow> string \<Rightarrow> message_envelope \<Rightarrow> 'g client \<Rightarrow> 'g client" where
  "decrypt_and_persist_one M now conversation_id mls_group_id env st =
     (if me_type env = ''message'' then
        if list_ex (\<lambda>m. m_id m = me_id env) (message_table st) then st
        else (case envelope_bytes M env of
                None \<Rightarrow> st
              | Some b \<Rightarrow>
                  (case try_mls_decrypt M mls_group_id b st of
                     (None, st1) \<Rightarrow> st1
                   | (Some (plain, cred_sender), st1) \<Rightarrow>
                       (case classify_frame plain of
                          Redaction target_message_id \<Rightarrow>
                            if message_author st1 target_message_id = Some cred_sender then delete_message_row now target_message_id st1 else st1
                        | Text plaintext \<Rightarrow>
                            (case from_utf8 plaintext of
                               None \<Rightarrow> st1
                             | Some content \<Rightarrow>
                                 st1\<lparr>message_table := sql_insert_or_ignore (\<lambda>m. m_id m = me_id env)
                                   \<lparr>m_id = me_id env, m_conversation_id = conversation_id, m_sender_id = cred_sender, m_ciphertext = b,
                                    m_content = Some content, m_reply_to_id = me_reply_to_id env, m_sent_at = me_sent_at env,
                                    m_edited_at = None, m_deleted_at = None\<rparr> (message_table st1)\<rparr>))))
      else if me_type env = ''edit'' then
        (case me_target_message_id env of
           None \<Rightarrow> st
         | Some tid \<Rightarrow>
             (case envelope_bytes M env of
                None \<Rightarrow> st
              | Some b \<Rightarrow>
                  (case try_mls_decrypt M mls_group_id b st of
                     (None, st1) \<Rightarrow> st1
                   | (Some (plain, cred_sender), st1) \<Rightarrow>
                       if message_author st1 tid \<noteq> Some cred_sender then st1
                       else (case from_utf8 (strip plain) of
                               None \<Rightarrow> st1
                             | Some content \<Rightarrow>
                                 st1\<lparr>message_table := sql_update (\<lambda>m. m_id m = tid \<and> m_deleted_at m = None)
                                   (\<lambda>m. m\<lparr>m_content := Some content, m_edited_at := Some now\<rparr>) (message_table st1)\<rparr>))))
      else st)"

section \<open>A whole group\<close>

definition envelope_epoch :: "'g openmls \<Rightarrow> message_envelope \<Rightarrow> u64 option" where
  "envelope_epoch M env =
     (if me_type env = ''message'' \<or> me_type env = ''edit'' then Option.bind (envelope_bytes M env) (parse_message M) else None)"

text \<open>The envelopes of an epoch, in the order of the index.\<close>

definition by_epoch :: "'g openmls \<Rightarrow> (string \<times> message_envelope list) list \<Rightarrow> u64 \<Rightarrow> (string \<times> message_envelope) list" where
  "by_epoch M per_conv e = [(cid, env). (cid, envs) \<leftarrow> per_conv, env \<leftarrow> envs, envelope_epoch M env = Some e]"

definition on_epoch :: "'g openmls \<Rightarrow> string \<Rightarrow> string \<Rightarrow> (string \<times> message_envelope list) list \<Rightarrow> u64 \<Rightarrow> 'g client \<Rightarrow> 'g client" where
  "on_epoch M now mls_group_id per_conv e st =
     fold (\<lambda>(cid, env). decrypt_and_persist_one M now cid mls_group_id env) (by_epoch M per_conv e)
       (st\<lparr>max_fired_epoch := Some (case max_fired_epoch st of None \<Rightarrow> e | Some m \<Rightarrow> max m e)\<rparr>)"

definition apply_tombstones :: "string \<Rightarrow> (string \<times> message_envelope list) list \<Rightarrow> 'g client \<Rightarrow> 'g client" where
  "apply_tombstones now per_conv =
     fold (\<lambda>env st. if me_type env = ''delete'' then case me_target_message_id env of Some tid \<Rightarrow> delete_message_row now tid st | None \<Rightarrow> st else st)
       (concat (map snd per_conv))"

definition ingest_group_envelopes_interleaved ::
  "lib \<Rightarrow> 'g openmls \<Rightarrow> pass_env \<Rightarrow> string \<Rightarrow> string \<Rightarrow> string \<Rightarrow> (string \<times> message_envelope list) list \<Rightarrow> 'g client
   \<Rightarrow> (client_error + (string \<times> string option) list) \<times> 'g client" where
  "ingest_group_envelopes_interleaved L M env now user_id mls_group_id per_conv st =
     (let st1 = snd (process_pending_commits_locked_impl L M env mls_group_id user_id (on_epoch M now mls_group_id per_conv) (st\<lparr>max_fired_epoch := None\<rparr>))
      in if \<not> p_signed_in env then (Inl NotSignedIn, st1)
         else let st2 = apply_tombstones now per_conv st1
              in (Inr (map (\<lambda>(cid, envs). (cid, next_watermark (map (\<lambda>e. (me_sent_at e, from_type (me_type e), envelope_epoch M e)) envs) (max_fired_epoch st2)))
                     per_conv), st2))"

definition conversation_ids :: "main_db \<Rightarrow> string \<Rightarrow> string list" where
  "conversation_ids db mls_group_id =
     (if list_ex (\<lambda>d. dc_id d = mls_group_id) (dm_channels db) then [mls_group_id]
      else map ch_id (filter (\<lambda>c. ch_group_id c = mls_group_id) (channels db)))"

definition fetch_envelopes :: "main_db \<Rightarrow> string \<Rightarrow> string \<Rightarrow> string \<Rightarrow> message_envelope list" where
  "fetch_envelopes db cid user_id device_id =
     (let mark = (case first_row (\<lambda>w. cw_conversation_id w = cid \<and> cw_user_id w = user_id \<and> cw_device_id w = device_id) (watermarks db) of
                    Some w \<Rightarrow> cw_last_fetched_at w | None \<Rightarrow> '''')
      in sort_key me_sent_at (sort_key me_id (filter (\<lambda>e. me_conversation_id e = cid \<and> me_sent_at e > mark) (envelopes db))))"

text \<open>Returns the cursors to advance to, which the client posts for a known device, together with a request to collect garbage for each conversation.\<close>

definition catch_up_mls_group_interleaved ::
  "lib \<Rightarrow> 'g openmls \<Rightarrow> pass_env \<Rightarrow> main_db option \<Rightarrow> string \<Rightarrow> string \<Rightarrow> string \<Rightarrow> 'g client
   \<Rightarrow> (client_error + (string \<times> string option) list) \<times> 'g client" where
  "catch_up_mls_group_interleaved L M env conn now mls_group_id user_id st =
     (case conn of
        None \<Rightarrow> (Inl RemoteRead, st)
      | Some db \<Rightarrow>
          (let did = (case p_device_id env of Some d \<Rightarrow> d | None \<Rightarrow> '''');
               per_conv = map (\<lambda>cid. (cid, fetch_envelopes db cid user_id did)) (conversation_ids db mls_group_id)
           in ingest_group_envelopes_interleaved L M env now user_id mls_group_id per_conv st))"

section \<open>Who changes the local history\<close>

abbreviation ids :: "'g client \<Rightarrow> string list" where
  "ids st \<equiv> map m_id (message_table st)"

lemma decrypt_frame:
  assumes "try_mls_decrypt M g b st = (r, st1)"
  shows "message_table st1 = message_table st" "posted st1 = posted st" "max_fired_epoch st1 = max_fired_epoch st" "r = None \<Longrightarrow> st1 = st"
  using assms by (auto simp: try_mls_decrypt_def split: option.splits sum.splits processed.splits)

lemma message_author_cong: "message_table st = message_table st' \<Longrightarrow> message_author st t = message_author st' t"
  by (simp add: message_author_def)

lemma sql_update_nth: "i < length rows \<Longrightarrow> sql_update P f rows ! i = (if P (rows ! i) then f (rows ! i) else rows ! i)"
  by (simp add: sql_update_def)

lemma ids_update: "(\<And>m. m_id (f m) = m_id m) \<Longrightarrow> map m_id (sql_update P f rows) = map m_id rows"
  by (simp add: sql_update_def)

lemma ids_delete_row [simp]: "ids (delete_message_row now t st) = ids st"
  by (simp add: delete_message_row_def ids_update)

lemma delete_row_frame [simp]:
  "mls_kv (delete_message_row now t st) = mls_kv st" "posted (delete_message_row now t st) = posted st"
  "max_fired_epoch (delete_message_row now t st) = max_fired_epoch st"
  by (simp_all add: delete_message_row_def)

lemma list_ex_id: "list_ex (\<lambda>m. m_id m = x) rows \<longleftrightarrow> x \<in> set (map m_id rows)"
  by (induction rows) auto

lemma author_of_row:
  assumes "distinct (map m_id rows)" "i < length rows" "m_id (rows ! i) = t" "map_option m_sender_id (first_row (\<lambda>m. m_id m = t) rows) = Some s"
  shows "m_sender_id (rows ! i) = s"
proof -
  from assms(4) obtain r where r: "first_row (\<lambda>m. m_id m = t) rows = Some r" "m_sender_id r = s" by auto
  then obtain j where "j < length rows" "r = rows ! j" "m_id (rows ! j) = t" using first_row_Some [OF r(1)] by (metis in_set_conv_nth)
  with assms(1-3) have "j = i" by (metis length_map nth_eq_iff_index_eq nth_map)
  with \<open>r = rows ! j\<close> r(2) show ?thesis by simp
qed

text \<open>What one envelope does to the history: nothing; a new row; or a change of the rows of one message that are not deleted, by its author.\<close>

lemma persist_cases:
  assumes "decrypt_and_persist_one M now cid g env st = st'"
  obtains (same) "message_table st' = message_table st"
  | (insert) b plain sender row where "envelope_bytes M env = Some b" "fst (try_mls_decrypt M g b st) = Some (plain, sender)"
      "message_table st' = message_table st @ [row]" "m_id row = me_id env" "m_sender_id row = sender" "me_id env \<notin> set (ids st)"
  | (change) b plain sender t f where "envelope_bytes M env = Some b" "fst (try_mls_decrypt M g b st) = Some (plain, sender)"
      "message_author st t = Some sender" "message_table st' = sql_update (\<lambda>m. m_id m = t \<and> m_deleted_at m = None) f (message_table st)"
      "\<And>m. m_id (f m) = m_id m \<and> m_sender_id (f m) = m_sender_id m"
proof (cases "envelope_bytes M env")
  case None
  then show thesis using assms same by (auto simp: decrypt_and_persist_one_def split: if_splits option.splits)
next
  case (Some b)
  obtain r st1 where dec: "try_mls_decrypt M g b st = (r, st1)" by fastforce
  note fr = decrypt_frame [OF dec]
  show thesis
  proof (cases r)
    case None
    then show thesis using assms same Some dec fr(4) by (auto simp: decrypt_and_persist_one_def split: if_splits option.splits)
  next
    case [simp]: (Some ps)
    obtain plain sender where [simp]: "ps = (plain, sender)" by (cases ps)
    have d: "fst (try_mls_decrypt M g b st) = Some (plain, sender)" using dec by simp
    note def = assms [unfolded decrypt_and_persist_one_def]
    note change' = change [OF \<open>envelope_bytes M env = Some b\<close> d]
    consider (msg) "me_type env = ''message''" | (edit) "me_type env = ''edit''" | (other) "me_type env \<noteq> ''message''" "me_type env \<noteq> ''edit''" by blast
    then show thesis
    proof cases
      case msg
      show thesis
      proof (cases "list_ex (\<lambda>m. m_id m = me_id env) (message_table st)")
        case True
        then show thesis using def msg same by simp
      next
        case new: False
        note def' = def [unfolded msg if_P [OF refl] if_not_P [OF new] \<open>envelope_bytes M env = Some b\<close> option.case dec \<open>r = _\<close> \<open>ps = _\<close> prod.case]
        show thesis
        proof (cases "classify_frame plain")
          case (Redaction t)
          then show thesis using def' fr(1) same change' [of t] message_author_cong [OF fr(1)]
            by (cases "message_author st1 t = Some sender") (auto simp: delete_message_row_def)
        next
          case (Text p)
          show thesis
          proof (cases "from_utf8 p")
            case None
            with Text def' fr(1) same show thesis by simp
          next
            case (Some c)
            have "me_id env \<notin> set (ids st)" using new by (simp add: list_ex_id)
            with Some Text def' fr(1) new show thesis using insert [OF \<open>envelope_bytes M env = Some b\<close> d]
              by (auto simp: sql_insert_or_ignore_def)
          qed
        qed
      qed
    next
      case edit
      show thesis
      proof (cases "me_target_message_id env")
        case None
        with def edit same show thesis by simp
      next
        case (Some t)
        note def' = def [unfolded edit Some \<open>envelope_bytes M env = Some b\<close> option.case dec \<open>r = _\<close> \<open>ps = _\<close> prod.case]
        show thesis
        proof (cases "message_author st1 t = Some sender \<and> from_utf8 (strip plain) \<noteq> None")
          case True
          then show thesis using def' fr(1) change' [of t] message_author_cong [OF fr(1)] by auto
        next
          case False
          then show thesis using def' fr(1) same by (auto split: if_splits)
        qed
      qed
    next
      case other
      with def same show thesis by simp
    qed
  qed
qed


section \<open>No message is skipped\<close>

text \<open>What the code relies on of MLS, for the messages \<open>sealed\<close> by members and their contents \<open>opens\<close> (plaintext and credential): a group that can read a message has its
  epoch and yields its contents; reading one keeps the epoch and every other message readable; a commit leads to the next epoch, in which the
  messages sealed at it are readable.\<close>

definition mls_reads :: "'g openmls \<Rightarrow> (bytes \<Rightarrow> bool) \<Rightarrow> (bytes \<Rightarrow> bytes \<times> string) \<Rightarrow> ('g \<Rightarrow> bytes \<Rightarrow> bool) \<Rightarrow> bool" where
  "mls_reads M sealed opens readable \<longleftrightarrow>
     (\<forall>g b. readable g b \<longrightarrow> parse_message M b = Some (g_epoch M g)
        \<and> (\<exists>g'. process_message M g b = Inr (ApplicationMessage (fst (opens b)) (snd (opens b)) g')))
     \<and> (\<forall>g b p c g'. process_message M g b = Inr (ApplicationMessage p c g') \<longrightarrow> g_epoch M g' = g_epoch M g
        \<and> (\<forall>b'. b' \<noteq> b \<and> readable g b' \<longrightarrow> readable g' b'))
     \<and> (\<forall>g b g'. applies M g b g' \<longrightarrow> g_epoch M g' = g_epoch M g + 1
        \<and> (\<forall>b'. sealed b' \<and> parse_message M b' = Some (g_epoch M g') \<longrightarrow> readable g' b'))"

text \<open>Every row of the commit log is a commit.\<close>

definition only_commits :: "'g openmls \<Rightarrow> mls_commit_log list \<Rightarrow> bool" where
  "only_commits M rows \<longleftrightarrow> (\<forall>r \<in> set rows. \<forall>g. case process_message M g (ml_commit_data r) of
     Inr (ApplicationMessage _ _ _) \<Rightarrow> False | Inr OtherContent \<Rightarrow> False | _ \<Rightarrow> True)"

text \<open>The envelopes of a pass, and those that carry a text message of a member.\<close>

definition pass_envelopes :: "(string \<times> message_envelope list) list \<Rightarrow> message_envelope list" where
  "pass_envelopes per_conv = concat (map snd per_conv)"

definition text_message :: "'g openmls \<Rightarrow> (bytes \<Rightarrow> bool) \<Rightarrow> (bytes \<Rightarrow> bytes \<times> string) \<Rightarrow> message_envelope \<Rightarrow> bool" where
  "text_message M sealed opens env \<longleftrightarrow> me_type env = ''message'' \<and>
     (\<exists>b p. envelope_bytes M env = Some b \<and> sealed b \<and> classify_frame (fst (opens b)) = Text p \<and> utf8_valid p)"

lemma by_epoch_eq: "map snd (by_epoch M per_conv e) = filter (\<lambda>env. envelope_epoch M env = Some e) (pass_envelopes per_conv)"
proof (induction per_conv)
  case (Cons x per_conv)
  obtain cid envs where x: "x = (cid, envs)" by (cases x)
  have "map snd (concat (map (\<lambda>env. if envelope_epoch M env = Some e then [(cid, env)] else []) envs)) =
      filter (\<lambda>env. envelope_epoch M env = Some e) envs" by (induction envs) auto
  with Cons x show ?case by (simp add: by_epoch_def pass_envelopes_def)
qed (simp add: by_epoch_def pass_envelopes_def)

lemma persist_ids: "set (ids st) \<subseteq> set (ids (decrypt_and_persist_one M now cid g env st))"
proof -
  obtain st' where "decrypt_and_persist_one M now cid g env st = st'" by blast
  then have "set (ids st) \<subseteq> set (ids st')"
  proof (cases rule: persist_cases)
    case (change b plain sender t f)
    then show ?thesis using ids_update [of f] by (metis order_refl)
  qed auto
  with \<open>_ = st'\<close> show ?thesis by simp
qed

lemma persist_max_fired [simp]: "max_fired_epoch (decrypt_and_persist_one M now cid g env st) = max_fired_epoch st"
  and persist_posted [simp]: "posted (decrypt_and_persist_one M now cid g env st) = posted st"
proof -
  have "max_fired_epoch (decrypt_and_persist_one M now cid g env st) = max_fired_epoch st \<and> posted (decrypt_and_persist_one M now cid g env st) = posted st"
  proof (cases "envelope_bytes M env")
    case None
    then show ?thesis by (auto simp: decrypt_and_persist_one_def split: option.split)
  next
    case (Some b)
    obtain r st1 where dec: "try_mls_decrypt M g b st = (r, st1)" by fastforce
    show ?thesis using decrypt_frame(2,3) [OF dec] Some dec
      by (cases r) (auto simp: decrypt_and_persist_one_def split: option.split frame.split)
  qed
  then show "max_fired_epoch (decrypt_and_persist_one M now cid g env st) = max_fired_epoch st"
    "posted (decrypt_and_persist_one M now cid g env st) = posted st" by blast+
qed

text \<open>The group after an envelope: the same, or the group after reading it.\<close>

lemma persist_group:
  assumes "mls_kv st g = Some grp"
  shows "\<exists>grp'. mls_kv (decrypt_and_persist_one M now cid g env st) g = Some grp' \<and>
    (grp' = grp \<or> (\<exists>b p c. envelope_bytes M env = Some b \<and> process_message M grp b = Inr (ApplicationMessage p c grp')))"
proof (cases "envelope_bytes M env")
  case None
  then show ?thesis using assms by (auto simp: decrypt_and_persist_one_def split: option.split)
next
  case (Some b)
  obtain r st1 where dec: "try_mls_decrypt M g b st = (r, st1)" by fastforce
  have "mls_kv (decrypt_and_persist_one M now cid g env st) g \<in> {mls_kv st g, mls_kv st1 g}"
    using Some dec by (cases r) (auto simp: decrypt_and_persist_one_def split: option.split frame.split if_splits)
  moreover have "\<exists>grp'. mls_kv st1 g = Some grp' \<and> (grp' = grp \<or> (\<exists>p c. process_message M grp b = Inr (ApplicationMessage p c grp')))"
    using dec assms by (auto simp: try_mls_decrypt_def split: option.splits sum.splits processed.splits)
  ultimately show ?thesis using Some assms by auto
qed

lemma persist_delivers:
  assumes "mls_reads M sealed opens readable" "mls_kv st g = Some grp" "text_message M sealed opens env" "envelope_bytes M env = Some b"
    and "me_id env \<in> set (ids st) \<or> readable grp b"
  shows "me_id env \<in> set (ids (decrypt_and_persist_one M now cid g env st))"
proof (cases "me_id env \<in> set (ids st)")
  case True
  then show ?thesis using persist_ids by fast
next
  case False
  with assms(5) have "readable grp b" by blast
  then obtain grp' where "parse_message M b = Some (g_epoch M grp)" "process_message M grp b = Inr (ApplicationMessage (fst (opens b)) (snd (opens b)) grp')"
    using assms(1) unfolding mls_reads_def by blast
  then have dec: "try_mls_decrypt M g b st = (Some (fst (opens b), parse_credential_user_id (snd (opens b))), store_group g grp' st)"
    using assms(2) by (simp add: try_mls_decrypt_def)
  from assms(3,4) obtain p where "me_type env = ''message''" "classify_frame (fst (opens b)) = Text p" "utf8_valid p" by (auto simp: text_message_def)
  moreover from False have "\<not> list_ex (\<lambda>m. m_id m = me_id env) (message_table st)" by (simp add: list_ex_id)
  ultimately show ?thesis using assms(4) dec by (simp add: decrypt_and_persist_one_def from_utf8_def sql_insert_or_ignore_def)
qed

lemma fold_delivers:
  assumes "mls_reads M sealed opens readable" "mls_kv st g = Some grp" "distinct (map (envelope_bytes M \<circ> snd) es)"
    and "\<And>x b. x \<in> set es \<Longrightarrow> text_message M sealed opens (snd x) \<Longrightarrow> envelope_bytes M (snd x) = Some b \<Longrightarrow> me_id (snd x) \<in> set (ids st) \<or> readable grp b"
    and "st' = fold (\<lambda>(cid, env). decrypt_and_persist_one M now cid g env) es st"
  shows "(\<exists>grp'. mls_kv st' g = Some grp' \<and> g_epoch M grp' = g_epoch M grp) \<and> set (ids st) \<subseteq> set (ids st') \<and> max_fired_epoch st' = max_fired_epoch st
    \<and> (\<forall>x \<in> set es. text_message M sealed opens (snd x) \<longrightarrow> me_id (snd x) \<in> set (ids st'))"
  using assms(2-5)
proof (induction es arbitrary: st grp)
  case (Cons x es)
  obtain cid env where x: "x = (cid, env)" by (cases x)
  define st1 where "st1 = decrypt_and_persist_one M now cid g env st"
  obtain grp1 where grp1: "mls_kv st1 g = Some grp1" "grp1 = grp \<or> (\<exists>b p c. envelope_bytes M env = Some b \<and> process_message M grp b = Inr (ApplicationMessage p c grp1))"
    using persist_group [OF Cons.prems(1), of M now cid env] unfolding st1_def by blast
  have ids1: "set (ids st) \<subseteq> set (ids st1)" unfolding st1_def by (rule persist_ids)
  have e1: "g_epoch M grp1 = g_epoch M grp" using grp1(2) assms(1) unfolding mls_reads_def by blast
  have d: "distinct (map (envelope_bytes M \<circ> snd) es)" "\<And>y. y \<in> set es \<Longrightarrow> envelope_bytes M (snd y) \<noteq> envelope_bytes M env"
    using Cons.prems(2) x by (auto simp: image_iff comp_def)
  have rd: "me_id (snd y) \<in> set (ids st1) \<or> readable grp1 b"
    if y: "y \<in> set es" "text_message M sealed opens (snd y)" "envelope_bytes M (snd y) = Some b" for y b
  proof -
    have "me_id (snd y) \<in> set (ids st) \<or> readable grp b" using Cons.prems(3) [of y b] y by simp
    moreover have "readable grp1 b" if "readable grp b"
      using grp1(2) that d(2) [OF y(1)] y(3) assms(1) unfolding mls_reads_def by metis
    ultimately show ?thesis using ids1 by blast
  qed
  have st': "st' = fold (\<lambda>(cid, env). decrypt_and_persist_one M now cid g env) es st1" using Cons.prems(4) x by (simp add: st1_def)
  note IH = Cons.IH [OF grp1(1) d(1) rd st']
  note IH1 = IH [THEN conjunct1] and IH2 = IH [THEN conjunct2, THEN conjunct1] and IH3 = IH [THEN conjunct2, THEN conjunct2, THEN conjunct1]
    and IH4 = IH [THEN conjunct2, THEN conjunct2, THEN conjunct2]
  have "me_id env \<in> set (ids st1)" if "text_message M sealed opens env"
  proof -
    from that obtain b where b: "envelope_bytes M env = Some b" by (auto simp: text_message_def)
    then show ?thesis unfolding st1_def
      using persist_delivers [OF assms(1) Cons.prems(1) that b] Cons.prems(3) [of x b] x that by simp
  qed
  then have "text_message M sealed opens (snd x) \<longrightarrow> me_id (snd x) \<in> set (ids st')" using subsetD [OF IH2] unfolding x snd_conv by blast
  with IH4 have "\<forall>y \<in> set (x # es). text_message M sealed opens (snd y) \<longrightarrow> me_id (snd y) \<in> set (ids st')"
    unfolding list.set ball_simps(7) by iprover
  moreover have "max_fired_epoch st' = max_fired_epoch st" using IH3 unfolding st1_def persist_max_fired .
  ultimately show ?case using IH1 [unfolded e1] subset_trans [OF ids1 IH2] by (intro conjI)
qed simp

definition delivered :: "'g openmls \<Rightarrow> (bytes \<Rightarrow> bool) \<Rightarrow> (bytes \<Rightarrow> bytes \<times> string) \<Rightarrow> (string \<times> message_envelope list) list \<Rightarrow> 'g client \<Rightarrow> u64 \<Rightarrow> bool" where
  "delivered M sealed opens per_conv st e \<longleftrightarrow>
     (\<forall>env \<in> set (pass_envelopes per_conv). text_message M sealed opens env \<and> envelope_epoch M env = Some e \<longrightarrow> me_id env \<in> set (ids st))"

lemma delivered_mono: "set (ids st) \<subseteq> set (ids st') \<Longrightarrow> delivered M sealed opens pc st e \<Longrightarrow> delivered M sealed opens pc st' e"
  unfolding delivered_def by blast

text \<open>No two envelopes of a pass carry the same ciphertext.\<close>

definition no_copies :: "'g openmls \<Rightarrow> (string \<times> message_envelope list) list \<Rightarrow> bool" where
  "no_copies M per_conv \<longleftrightarrow> distinct (map (envelope_bytes M) (filter (\<lambda>env. envelope_epoch M env \<noteq> None) (pass_envelopes per_conv)))"

lemma on_epoch_delivers:
  assumes "mls_reads M sealed opens readable" "no_copies M pc" "mls_kv st g = Some grp"
    and "\<And>env b. env \<in> set (pass_envelopes pc) \<Longrightarrow> text_message M sealed opens env \<Longrightarrow> envelope_epoch M env = Some e \<Longrightarrow> envelope_bytes M env = Some b
      \<Longrightarrow> me_id env \<in> set (ids st) \<or> readable grp b"
    and "st' = on_epoch M now g pc e st"
  shows "\<exists>grp'. mls_kv st' g = Some grp' \<and> g_epoch M grp' = g_epoch M grp" "set (ids st) \<subseteq> set (ids st')" "delivered M sealed opens pc st' e"
    "max_fired_epoch st' = Some (case max_fired_epoch st of None \<Rightarrow> e | Some m \<Rightarrow> max m e)"
proof -
  define st0 where "st0 = st\<lparr>max_fired_epoch := Some (case max_fired_epoch st of None \<Rightarrow> e | Some m \<Rightarrow> max m e)\<rparr>"
  have es: "snd ` set (by_epoch M pc e) = {env \<in> set (pass_envelopes pc). envelope_epoch M env = Some e}"
    using arg_cong [OF by_epoch_eq [of M pc e], of set] by simp
  have "map (envelope_bytes M \<circ> snd) (by_epoch M pc e) = map (envelope_bytes M) (filter (\<lambda>env. envelope_epoch M env = Some e) (pass_envelopes pc))"
    by (simp only: by_epoch_eq [symmetric] map_map)
  also have "\<dots> = map (envelope_bytes M) (filter (\<lambda>env. envelope_epoch M env = Some e) (filter (\<lambda>env. envelope_epoch M env \<noteq> None) (pass_envelopes pc)))"
    unfolding filter_filter by (rule arg_cong [where f = "map (envelope_bytes M)"], rule filter_cong) auto
  finally have d: "distinct (map (envelope_bytes M \<circ> snd) (by_epoch M pc e))"
    using distinct_map_filter [OF assms(2) [unfolded no_copies_def], of "\<lambda>env. envelope_epoch M env = Some e"] by (rule ssubst)
  have kv: "mls_kv st0 g = Some grp" "ids st0 = ids st" using assms(3) by (simp_all add: st0_def)
  have rd: "me_id (snd x) \<in> set (ids st0) \<or> readable grp b"
    if "x \<in> set (by_epoch M pc e)" "text_message M sealed opens (snd x)" "envelope_bytes M (snd x) = Some b" for x b
  proof -
    have "snd x \<in> {env \<in> set (pass_envelopes pc). envelope_epoch M env = Some e}" unfolding es [symmetric] using that(1) by (rule imageI)
    then show ?thesis using assms(4) [of "snd x" b] that(2,3) kv(2) by simp
  qed
  note F = fold_delivers [OF assms(1) kv(1) d rd assms(5) [unfolded on_epoch_def, folded st0_def]]
  show "\<exists>grp'. mls_kv st' g = Some grp' \<and> g_epoch M grp' = g_epoch M grp" by (rule F [THEN conjunct1])
  show "set (ids st) \<subseteq> set (ids st')" using F [THEN conjunct2, THEN conjunct1] unfolding kv(2) .
  have "max_fired_epoch st' = max_fired_epoch st0" by (rule F [THEN conjunct2, THEN conjunct2, THEN conjunct1])
  then show "max_fired_epoch st' = Some (case max_fired_epoch st of None \<Rightarrow> e | Some m \<Rightarrow> max m e)" by (simp add: st0_def)
  show "delivered M sealed opens pc st' e"
    unfolding delivered_def
  proof (intro ballI impI, elim conjE)
    fix env assume "env \<in> set (pass_envelopes pc)" "text_message M sealed opens env" "envelope_epoch M env = Some e"
    then have "env \<in> snd ` set (by_epoch M pc e)" unfolding es by simp
    then obtain x where "x \<in> set (by_epoch M pc e)" "env = snd x" by (rule imageE)
    with F [THEN conjunct2, THEN conjunct2, THEN conjunct2] \<open>text_message M sealed opens env\<close> show "me_id env \<in> set (ids st')" by blast
  qed
qed

lemma apply_commit_only_commits:
  assumes "apply_commit M g (ml_commit_data r) st = (st1, True)" "only_commits M rows" "r \<in> set rows" "mls_kv st g = Some grp"
  shows "\<exists>grp'. st1 = store_group g grp' st \<and> applies M grp (ml_commit_data r) grp'"
proof -
  from assms(2,3) have c: "case process_message M grp (ml_commit_data r) of
     Inr (ApplicationMessage _ _ _) \<Rightarrow> False | Inr OtherContent \<Rightarrow> False | _ \<Rightarrow> True" unfolding only_commits_def by blast
  show ?thesis
  proof (cases "process_message M grp (ml_commit_data r)")
    case (Inl msg)
    with assms(1,4) show ?thesis by (auto simp: apply_commit_def applies_def split: option.splits if_splits)
  next
    case (Inr p)
    with c assms(1,4) show ?thesis by (cases p) (auto simp: apply_commit_def applies_def split: option.splits)
  qed
qed

lemma word_next:
  assumes "unat (cur :: u64) + 1 < 2 ^ 64"
  shows "unat (cur + 1) = unat cur + 1" "cur < cur + 1" "cur < e \<Longrightarrow> e = cur + 1 \<or> cur + 1 < e"
proof -
  show u: "unat (cur + 1) = unat cur + 1" using assms by (simp add: unat_word_ariths)
  then show "cur < cur + 1" by (simp add: word_less_nat_alt)
  show "cur < e \<Longrightarrow> e = cur + 1 \<or> cur + 1 < e" using u by (auto simp: word_less_nat_alt word_unat_eq_iff)
qed

lemma replay_delivers:
  assumes "mls_reads M sealed opens readable" "no_copies M pc"
    and "only_commits M pending" "unat cur + length pending < 2 ^ 64" "mls_kv st g = Some grp" "g_epoch M grp = cur" "max_fired_epoch st = Some cur"
    and "st' = replay_loop L M verify g (on_epoch M now g pc) i cur pending st"
  shows "set (ids st) \<subseteq> set (ids st') \<and> (\<exists>m. max_fired_epoch st' = Some m \<and> (\<forall>e. cur < e \<and> e \<le> m \<longrightarrow> delivered M sealed opens pc st' e))"
  using assms(3-8)
proof (induction pending arbitrary: i cur st grp)
  case Nil
  then show ?case by (auto simp: not_less)
next
  case (Cons r pending)
  obtain st1 ok where ac: "apply_commit M g (ml_commit_data r) st = (st1, ok)" by fastforce
  have stop: ?case if "message_table st' = message_table st" "max_fired_epoch st' = max_fired_epoch st"
    using that Cons.prems(5) by (auto simp: not_less)
  show ?case
  proof (cases "ok \<and> classify_step cur (Some (word_of_int (ml_epoch r))) = Apply \<and> \<not> defers L (verify i) r")
    case False
    then have "st' = forget_local_mls_group g st \<or> st' = st \<or> st' = st1 \<and> \<not> ok" using Cons.prems(6) ac by (auto split: if_splits bool.splits)
    then show ?thesis using stop apply_commit_frame [OF ac] by auto
  next
    case True
    then obtain grp1 where st1: "st1 = store_group g grp1 st" and ap: "applies M grp (ml_commit_data r) grp1"
      using apply_commit_only_commits [of M g r st st1 "r # pending" grp] ac Cons.prems(1,3) by auto
    have e1: "g_epoch M grp1 = cur + 1" and rd: "\<And>b. sealed b \<Longrightarrow> parse_message M b = Some (cur + 1) \<Longrightarrow> readable grp1 b"
      using ap assms(1) Cons.prems(4) unfolding mls_reads_def by metis+
    define st2 where "st2 = on_epoch M now g pc (cur + 1) st1"
    have nw: "unat cur + 1 < 2 ^ 64" using Cons.prems(2) by simp
    have kv1: "mls_kv st1 g = Some grp1" "max_fired_epoch st1 = Some cur" "ids st1 = ids st" using st1 Cons.prems(5) by simp_all
    have fresh: "me_id env \<in> set (ids st1) \<or> readable grp1 b"
      if "env \<in> set (pass_envelopes pc)" "text_message M sealed opens env" "envelope_epoch M env = Some (cur + 1)" "envelope_bytes M env = Some b" for env b
      using that rd by (auto simp: text_message_def envelope_epoch_def)
    note H = on_epoch_delivers [OF assms(1,2) kv1(1) fresh st2_def]
    obtain grp2 where kv2: "mls_kv st2 g = Some grp2" "g_epoch M grp2 = cur + 1" using H(1) [unfolded e1] by blast
    have fired2: "max_fired_epoch st2 = Some (cur + 1)" by (simp only: H(4) kv1(2) option.case max.absorb2 [OF less_imp_le [OF word_next(2) [OF nw]]])
    have next2: "st' = replay_loop L M verify g (on_epoch M now g pc) (Suc i) (cur + 1) pending st2"
      unfolding Cons.prems(6) st2_def replay_loop.simps using True ac by (simp only: if_False simp_thms prod.case bool.case)
    have oc: "only_commits M pending" using Cons.prems(1) by (simp add: only_commits_def)
    have nw2: "unat (cur + 1) + length pending < 2 ^ 64" using Cons.prems(2) word_next(1) [OF nw] by simp
    note IH = Cons.IH [OF oc nw2 kv2 fired2 next2]
    obtain m where m: "max_fired_epoch st' = Some m" "\<And>e. cur + 1 < e \<Longrightarrow> e \<le> m \<Longrightarrow> delivered M sealed opens pc st' e"
      using IH [THEN conjunct2] by auto
    have del: "delivered M sealed opens pc st' (cur + 1)" by (rule delivered_mono [OF IH [THEN conjunct1] H(3)])
    have "set (ids st) \<subseteq> set (ids st')" using H(2) IH [THEN conjunct1] unfolding kv1(3) by (rule subset_trans)
    moreover have "\<forall>e. cur < e \<and> e \<le> m \<longrightarrow> delivered M sealed opens pc st' e" using m(2) del word_next(3) [OF nw] by blast
    ultimately show ?thesis using m(1) by blast
  qed
qed

lemma tombstones_frame: "set (ids (apply_tombstones now pc st)) = set (ids st) \<and> max_fired_epoch (apply_tombstones now pc st) = max_fired_epoch st"
proof -
  have "set (ids (fold (\<lambda>env st. if me_type env = ''delete'' then case me_target_message_id env of Some tid \<Rightarrow> delete_message_row now tid st | None \<Rightarrow> st else st) xs st)) = set (ids st)
      \<and> max_fired_epoch (fold (\<lambda>env st. if me_type env = ''delete'' then case me_target_message_id env of Some tid \<Rightarrow> delete_message_row now tid st | None \<Rightarrow> st else st) xs st) = max_fired_epoch st" for xs
    by (induction xs arbitrary: st) (auto simp del: set_map split: option.split)
  then show ?thesis unfolding apply_tombstones_def .
qed

lemma join_inner_frame:
  "message_table (snd (external_join_group_inner M d g u env st)) = message_table st \<and> max_fired_epoch (snd (external_join_group_inner M d g u env st)) = max_fired_epoch st"
  unfolding external_join_group_inner_def by (rule join_loop_messages [OF prod.collapse [symmetric]])

lemma pass_delivers:
  assumes "mls_reads M sealed opens readable" "no_copies M pc" "mls_kv st g = Some grp" "max_fired_epoch st = None" "p_signed_in env"
    and "\<And>x b. x \<in> set (pass_envelopes pc) \<Longrightarrow> text_message M sealed opens x \<Longrightarrow> envelope_epoch M x = Some (g_epoch M grp) \<Longrightarrow> envelope_bytes M x = Some b
      \<Longrightarrow> me_id x \<in> set (ids st) \<or> readable grp b"
    and "\<And>log. p_log env = Some log \<Longrightarrow> only_commits M (pending_commits log g (g_epoch M grp))
      \<and> unat (g_epoch M grp) + length (pending_commits log g (g_epoch M grp)) < 2 ^ 64"
    and "st' = snd (process_pending_commits_locked_impl L M env g u (on_epoch M now g pc) st)"
  shows "\<exists>m. max_fired_epoch st' = Some m \<and> (\<forall>e. g_epoch M grp \<le> e \<and> e \<le> m \<longrightarrow> delivered M sealed opens pc st' e)"
proof -
  let ?e = "g_epoch M grp"
  define st1 where "st1 = on_epoch M now g pc ?e st"
  note H = on_epoch_delivers [OF assms(1,2,3,6) st1_def]
  obtain grp1 where kv1: "mls_kv st1 g = Some grp1" "g_epoch M grp1 = ?e" using H(1) by blast
  have fired1: "max_fired_epoch st1 = Some ?e" by (simp only: H(4) assms(4) option.case)
  have del1: "delivered M sealed opens pc st1 ?e" by (rule H(3))
  have goal: ?thesis if same: "message_table s = message_table st'" "max_fired_epoch s = max_fired_epoch st'" and ids1: "set (ids st1) \<subseteq> set (ids s)"
    and m: "\<exists>m. max_fired_epoch s = Some m \<and> (\<forall>e. ?e < e \<and> e \<le> m \<longrightarrow> delivered M sealed opens pc s e)" for s
  proof -
    from m obtain m where m: "max_fired_epoch s = Some m" "\<And>e. ?e < e \<Longrightarrow> e \<le> m \<Longrightarrow> delivered M sealed opens pc s e" by blast
    have "delivered M sealed opens pc s e" if "?e \<le> e" "e \<le> m" for e
      using m(2) [of e] delivered_mono [OF ids1 del1] that by (metis order_le_imp_less_or_eq)
    then have "\<forall>e. ?e \<le> e \<and> e \<le> m \<longrightarrow> delivered M sealed opens pc st' e" unfolding delivered_def same(1) by blast
    with m(1) same(2) show ?thesis by auto
  qed
  show ?thesis
  proof (cases "p_log env = None \<or> \<not> p_verify_conn env")
    case True
    then have "st' = st1" using assms(3,5,8) by (auto simp: process_pending_commits_locked_impl_def Let_def st1_def split: option.splits)
    with fired1 show ?thesis by (intro goal [of st1]) (auto simp: not_less)
  next
    case False
    then obtain log where log: "p_log env = Some log" "p_verify_conn env" by auto
    define s where "s = replay_loop L M (p_verify env) g (on_epoch M now g pc) 0 ?e (pending_commits log g ?e) st1"
    have R: "set (ids st1) \<subseteq> set (ids s) \<and> (\<exists>m. max_fired_epoch s = Some m \<and> (\<forall>e. ?e < e \<and> e \<le> m \<longrightarrow> delivered M sealed opens pc s e))"
      using replay_delivers [OF assms(1,2) _ _ kv1 fired1 s_def] assms(7) [OF log(1)] by blast
    have "message_table st' = message_table s \<and> max_fired_epoch st' = max_fired_epoch s"
      unfolding assms(8) process_pending_commits_locked_impl_def
      using assms(3,5) log by (simp add: Let_def st1_def [symmetric] s_def [symmetric] join_inner_frame)
    with R show ?thesis by (intro goal [of s]) simp_all
  qed
qed


section \<open>Examples\<close>

definition demo_mls_envelope :: message_envelope where
  "demo_mls_envelope = \<lparr>me_id = ''m'', me_conversation_id = ''g'', me_sender_id = ''?'', me_ciphertext = ''mls:'' @ [CHR 0x09, CHR 0x01, CHR ''h'', CHR ''i''],
     me_reply_to_id = None, me_sent_at = ''1'', me_type = ''message'', me_target_message_id = None, me_sealed = 1\<rparr>"

definition demo_mail :: main_db where
  "demo_mail = demo_main\<lparr>dm_channels := [\<lparr>dc_id = ''g'', dc_created_by = ''u'', dc_created_at = ''0''\<rparr>], envelopes := [demo_mls_envelope]\<rparr>"

lemma demo_bytes: "envelope_bytes demo_mls demo_mls_envelope = Some [9, 1, 104, 105]"
  by (simp add: envelope_bytes_def demo_mls_envelope_def demo_mls_def strip_prefix_def as_bytes_def byte_of_char_def)

lemma demo_epoch: "envelope_epoch demo_mls demo_mls_envelope = Some 1"
  by (simp add: envelope_epoch_def demo_bytes) (simp add: demo_mls_envelope_def demo_mls_def)

lemma demo_fetch: "fetch_envelopes demo_mail ''g'' ''u'' ''d'' = [demo_mls_envelope]" "conversation_ids demo_mail ''g'' = [''g'']"
  by (simp_all add: fetch_envelopes_def conversation_ids_def demo_mail_def demo_main_def demo_mls_envelope_def first_row_def main_db_new_def Let_def)

lemma demo_decrypt: "try_mls_decrypt demo_mls ''g'' [9, 1, 104, 105] st = (Some ([104, 105], ''u''), store_group ''g'' (Suc 0) st)" if "mls_kv st ''g'' = Some (Suc 0)"
  using that by (simp add: try_mls_decrypt_def demo_mls_def parse_credential_user_id_def split_once.simps strip_prefix_def)

lemma demo_frame: "classify_frame [104, 105] = Text [104, 105]" "utf8_valid [104, 105]"
  by (simp_all add: classify_frame_def strip_def REDACT_FRAMING_V1_def PAD_FRAMING_V1_def HEADER_def utf8_valid.simps)

lemma demo_persist:
  assumes "mls_kv st ''g'' = Some (Suc 0)" "message_table st = []" "st' = decrypt_and_persist_one demo_mls now ''g'' ''g'' demo_mls_envelope st"
  shows "mls_kv st' ''g'' = Some (Suc 0) \<and> ids st' = [''m''] \<and> max_fired_epoch st' = max_fired_epoch st"
  unfolding assms(3) decrypt_and_persist_one_def using assms(1,2)
  by (simp add: demo_bytes demo_decrypt demo_frame from_utf8_def) (simp add: demo_mls_envelope_def sql_insert_or_ignore_def)


lemma demo_reads: "mls_reads demo_mls (\<lambda>b. b = [9, 1, 104, 105]) (\<lambda>b. (drop 2 b, ''u:d'')) (\<lambda>g b. b = [9, 1, 104, 105] \<and> g_epoch demo_mls g = 1)"
  by (auto simp: mls_reads_def demo_mls_def applies_def add.commute split: list.splits if_splits)

lemma demo_replay:
  assumes "pc = [(''g'', [demo_mls_envelope])]" "st' = snd (process_pending_commits_locked_impl demo_lib demo_mls demo_pass ''g'' ''u'' (on_epoch demo_mls now ''g'' pc) (demo_local 0))"
  shows "max_fired_epoch st' = Some 1"
proof -
  define st0 where "st0 = on_epoch demo_mls now ''g'' pc 0 (demo_local 0)"
  have "st0 = (demo_local 0)\<lparr>max_fired_epoch := Some 0\<rparr>" by (simp add: st0_def on_epoch_def by_epoch_def assms(1) demo_epoch demo_local_def)
  then have st0: "mls_kv st0 ''g'' = Some 0" "message_table st0 = []" "max_fired_epoch st0 = Some 0" by (simp_all add: demo_local_def)
  have ac: "apply_commit demo_mls ''g'' (as_bytes ''c'') st0 = (store_group ''g'' (Suc 0) st0, True)"
    using st0(1) by (simp add: apply_commit_def demo_mls_def as_bytes_def byte_of_char_def)
  define st1 where "st1 = on_epoch demo_mls now ''g'' pc 1 (store_group ''g'' (Suc 0) st0)"
  have "st1 = decrypt_and_persist_one demo_mls now ''g'' ''g'' demo_mls_envelope ((store_group ''g'' (Suc 0) st0)\<lparr>max_fired_epoch := Some 1\<rparr>)"
    using st0(3) by (simp add: st1_def on_epoch_def by_epoch_def assms(1) demo_epoch)
  from demo_persist [OF _ _ this] st0(2) have st1: "mls_kv st1 ''g'' = Some (Suc 0)" "max_fired_epoch st1 = Some 1" by simp_all
  have pend: "pending_commits demo_ds_log ''g'' 0 = [demo_commit_row]"
    by (simp add: pending_commits_def demo_ds_log_def demo_commit_row_def conv_rows_def)
  have nd: "\<not> defers demo_lib (p_verify demo_pass 0) demo_commit_row" by (simp add: defers_def demo_commit_row_def)
  have row: "ml_epoch demo_commit_row = 0" "ml_commit_data demo_commit_row = as_bytes ''c''" by (simp_all add: demo_commit_row_def)
  have rl: "replay_loop demo_lib demo_mls (p_verify demo_pass) ''g'' (on_epoch demo_mls now ''g'' pc) 0 0 [demo_commit_row] st0 = st1"
    using nd ac by (simp add: row classify_step_def st1_def)
  have e0: "mls_kv (demo_local 0) ''g'' = Some 0" "g_epoch demo_mls 0 = 0" by (simp_all add: demo_local_def demo_mls_def)
  have "clear_dangling demo_mls ''g'' st1 = st1" using st1(1) by (simp add: clear_dangling_def demo_mls_def)
  then show ?thesis unfolding assms(2) process_pending_commits_locked_impl_def
    using st1 by (simp add: e0 Let_def st0_def [symmetric] pend rl del: replay_loop.simps)
qed


end
