(* ===== verification/Spec2Isabelle.thy ===== *)
theory Spec2Isabelle
  imports Publication Overlay Client_Ingest
begin

text \<open>
  A verification development of Pollis, an end-to-end encrypted messenger built on MLS.

  \<^bold>\<open>The program.\<close> Clients (\<open>pollis-core\<close>) keep MLS groups and a local message history. They never talk to each other: every commit, welcome, message
  and membership change goes as a signed request to the delivery service (\<open>pollis-delivery\<close>), which orders commits per conversation and stores envelopes, and
  clients read its two databases. The rows of the commit log and of the account-key log are published as Merkle trees with signed heads
  (\<open>verifiable-log-builder\<close>, \<open>verifiable-log\<close>), which anybody audits over a static site (\<open>verifiable-log-serve\<close>). A client may reach the
  service through relays (\<open>pollis-relay\<close>, \<open>pollis-core/src/net\<close>) that hide its address.

  \<^bold>\<open>Conventions.\<close> A byte is an \<open>8 word\<close>, \<open>u32\<close> and \<open>u64\<close> are words of their width and wrap as in a release build; a \<open>usize\<close> is a
  \<open>nat\<close>; an SQL integer is an \<open>int\<close> with \<open>wrap_i64\<close> where the code computes in \<open>i64\<close>. A string is the list of its UTF-8 bytes. \<open>Result\<close> is a sum with the error
  on the left. A database is a record of tables and a table the list of its rows, in the order of insertion; a transaction that fails returns the old record.
  Clocks, fresh ids, foreign-key enforcement and the choice among equal rows are arguments. Third-party code is an argument too: SHA-256, Ed25519 and hex
  are the record \<open>lib\<close> with the laws \<open>lib_ok\<close>, base64 is a record with \<open>b64_ok\<close>, JSON decoding is a function from bytes, OpenMLS is the record
  \<open>openmls\<close>, whose laws are the named hypotheses of the theorems that need them (\<open>follows\<close>, \<open>mls_reads\<close>). No theorem assumes that SHA-256 has
  no collisions at all: soundness of the proofs assumes it only for the finitely many messages that are hashed on the way (\<open>inclusion_safe\<close>,
  \<open>consistency_safe\<close>).

  \<^bold>\<open>Foundations.\<close> \<open>Prelude\<close> (words, big-endian bytes, results, SQL-style list operations), \<open>Text\<close> (trimming, splitting), \<open>Wire\<close> (byte streams, UTF-8;
  the locales \<open>frame_format\<close> and \<open>frame_pair\<close> for frames that can be read back from a stream).

  \<^bold>\<open>Transparency log.\<close> \<open>Vlog_Merkle\<close> is \<open>merkle.rs\<close> and \<open>hash.rs\<close> with both path generators and both verifiers; \<open>Vlog_Merkle_Sound\<close> shows that the verifiers
  accept the generated paths and nothing else, for every size (locale \<open>inclusion_scheme\<close>). \<open>Vlog_Log\<close> is \<open>log.rs\<close>, \<open>sth.rs\<close>, \<open>proof.rs\<close>: entries, append
  under a tenant's rule (locale \<open>tenant_rule\<close>), signed heads. \<open>Vlog_Tenants\<close> gives the rules for commits, account keys and binaries (locale
  \<open>ascending_check\<close>), \<open>Vlog_Builder\<close> the bundles and the monitor's checks: a built bundle passes, and a build fails exactly on a fork.
  \<open>Vlog_Serve\<close> and \<open>Vlog_Verdict\<close> are the verdicts on a group, a user and a release and what a positive one means; \<open>Vlog_Remote\<close> is the
  audit of a whole site.

  \<^bold>\<open>Delivery service.\<close> \<open>Delivery_Db\<close> holds the tables. \<open>Delivery_Auth\<close> is \<open>auth.rs\<close> and \<open>session.rs\<close> with the client's signing side
  (\<open>ds_client.rs\<close>). \<open>Delivery_Commit\<close> is \<open>commit.rs\<close> and the handlers of \<open>lib.rs\<close>; \<open>Delivery_Log\<close> treats them as a step relation \<open>ds_reach\<close>
  over interleaved statements and shows that the stored log is what pruning left of one gapless history per conversation, and that pruning keeps what the slowest
  reporting member needs. \<open>Delivery_Writes\<close> has the shape that the write endpoints share: a locale \<open>write_endpoint\<close>, interpreted for each endpoint,
  from which follows that a success was authorised. \<open>Delivery_Messages\<close>, \<open>Delivery_Groups\<close>, \<open>Delivery_Profile\<close>, \<open>Delivery_Devices\<close>, \<open>Delivery_Account\<close>,
  \<open>Delivery_Bootstrap\<close> are the source files of the same names, with an invariant of the whole database and one of the account keys;
  \<open>Delivery_Limits\<close> and \<open>Delivery_Otp\<close> are the rate limit, the one-time codes and the change of address. \<open>Device_Cert\<close> is the
  certificate of a device and the service's port of it.

  \<^bold>\<open>Publication.\<close> \<open>Publication\<close> joins the two: what the service reaches can be published, and what pruning does to a published tree.

  \<^bold>\<open>Relay and overlay.\<close> \<open>Relay_Proto\<close> (\<open>proto.rs\<close>: frames and handshake), \<open>Relay_Limit\<close> (\<open>ratelimit.rs\<close>: token bucket over the reals, bound on circuits),
  \<open>Relay_Server\<close> (\<open>server.rs\<close>, \<open>client.rs\<close>, \<open>health.rs\<close>: the decisions on one stream), \<open>Relay_Shim\<close> (\<open>policy.rs\<close>, \<open>shim.rs\<close>), \<open>Overlay\<close> (\<open>net/overlay.rs\<close>,
  \<open>net/directory.rs\<close>, \<open>commands/overlay.rs\<close>: the signed directory, the pool and the modes; in strict mode no
  configured control-plane host is dialled directly).

  \<^bold>\<open>Client.\<close> \<open>Client_Framing\<close> is \<open>messages/framing.rs\<close> and \<open>messages/watermark.rs\<close>. \<open>Client_Replay\<close> is the pass over the commit log
  (\<open>process_pending_commits_locked_impl\<close> of \<open>mls/group_state.rs\<close>, with the decisions of \<open>mls/invariants.rs\<close> and the certificate checks of \<open>mls/device.rs\<close>), the
  external join and its gates. \<open>Client_Sync\<close> runs it against the delivery service: a device adopts exactly its canonical commits, and a pass ends at the head.
  \<open>Client_Ingest\<close> is \<open>messages/ingest.rs\<close>: decrypting in step with the replay loses no message below the cursor, and only authors change history.

  \<^bold>\<open>Bounds and termination.\<close> Every loop is a terminating function. The Merkle recursions terminate by the length of the list; \<open>subproof\<close> is a partial function
  since the code recurses for ever on sizes out of range, and it is shown to return on every size that its caller passes. The external join runs the code's own
  five attempts (\<open>MAX_JOIN_ATTEMPTS\<close>). Theorems about the commit log assume fewer than \<open>2 ^ 63\<close> commits, where \<open>i64\<close> epochs would overflow.

  \<^bold>\<open>Not modelled.\<close> User interfaces (\<open>frontend\<close>, \<open>mobile\<close>, \<open>src-tauri\<close>, \<open>pollis-tui\<close>, \<open>website\<close>), calls and capture (\<open>voice\<close>, \<open>camera\<close>, \<open>screenshare\<close>,
  \<open>livekit\<close>, \<open>pollis-capture-*\<close>), sockets, TLS, HTTP and process start, the token broker and the log redaction of the service: they are I/O around third-party
  libraries. Of the client, staging a commit (\<open>mls/reconcile.rs\<close>, where the work is OpenMLS's), applying welcomes and uploading key packages, the start-up
  sweep, local key storage, safety numbers and the reads for the user interface are left out; so are the requests that a catch-up sends afterwards
  (cursor, garbage collection, group info, applied epoch), whose effect is that of the service's endpoints. A statement on a database is one step;
  failures of the local database in the middle of a pass are not modelled, failures of remote reads are.
\<close>

end
